(* ===== verification/Prelude.thy ===== *)
theory Prelude
  imports Main "HOL-Library.Word"
begin

text \<open>
  Shared vocabulary of the development: the machine-integer and byte-string types, the result
  types of the Rust code, the collections of rewrite rules that the component theories extend,
  generic lemmas on lists and words, and two locales used by several components: \<open>stepper\<close>
  (invariants of a deterministic state machine) and \<open>prefix_code\<close> (self-delimiting encodings).
\<close>

unbundle bit_operations_syntax

section \<open>Types\<close>

type_synonym u8 = "8 word"
type_synonym u16 = "16 word"
type_synonym u32 = "32 word"
type_synonym u64 = "64 word"
type_synonym u128 = "128 word"

text \<open>A Rust slice or vector of bytes; a Rust string is the list of its UTF-8 bytes.\<close>

type_synonym bytes = "u8 list"

text \<open>String literals of the source, as bytes.\<close>

definition str :: "string \<Rightarrow> bytes" where
  "str s = map of_char s"

text \<open>Rust's \<open>Result\<close>, and the outcome of code that may panic (the enclave aborts).\<close>

datatype ('e, 'a) result = Err 'e | Ok 'a

datatype 'a exec = Panic | Done 'a

fun is_ok :: "('e, 'a) result \<Rightarrow> bool" where
  "is_ok (Ok _) = True"
| "is_ok (Err _) = False"

fun and_then :: "'a exec \<Rightarrow> ('a \<Rightarrow> 'b exec) \<Rightarrow> 'b exec" where
  "and_then Panic f = Panic"
| "and_then (Done x) f = f x"

lemma and_then_eq_Done: "and_then e f = Done y \<longleftrightarrow> (\<exists>x. e = Done x \<and> f x = Done y)"
  by (cases e) auto

named_theorems loops
  \<comment> \<open>a loop of the source equals its closed form\<close>

named_theorems refines
  \<comment> \<open>an operation of the source equals its specification\<close>

named_theorems lengths
  \<comment> \<open>lengths of the encodings\<close>

section \<open>Lists\<close>

lemma length_str [simp, lengths]: "length (str s) = length s"
  by (simp add: str_def)

lemma str_Nil [simp]: "str [] = []"
  by (simp add: str_def)

lemma str_Cons: "str (c # s) = of_char c # str s"
  by (simp add: str_def)

lemma append_len_split:
  assumes "a @ b = c @ d" "length a = length c"
  shows "a = c \<and> b = d"
  using assms by simp

lemma take_Suc_nth: "i < length xs \<Longrightarrow> take (Suc i) xs = take i xs @ [xs ! i]"
  by (rule take_Suc_conv_app_nth)

lemma drop_nth_Cons: "i < length xs \<Longrightarrow> drop i xs = xs ! i # drop (Suc i) xs"
  by (rule Cons_nth_drop_Suc [symmetric])

lemma list_all_nth_iff: "list_all P xs \<longleftrightarrow> (\<forall>i < length xs. P (xs ! i))"
  by (simp add: list_all_length)

text \<open>A loop that returns \<open>false\<close> at the first index whose check fails.\<close>

lemma scan_forall:
  fixes L :: "nat \<Rightarrow> bool"
  assumes L: "\<And>i. L i = (if i < n then (if P i then L (i + 1) else False) else True)"
  shows "L i \<longleftrightarrow> (\<forall>j < n. i \<le> j \<longrightarrow> P j)"
proof (induction "n - i" arbitrary: i)
  case 0
  then show ?case by (subst L) auto
next
  case (Suc k)
  then have "L (i + 1) \<longleftrightarrow> (\<forall>j < n. i + 1 \<le> j \<longrightarrow> P j)" by simp
  then show ?case using Suc.hyps(2)
    by (subst L) (auto simp: Suc_le_eq le_less)
qed

lemma scan_list_all:
  fixes L :: "nat \<Rightarrow> bool"
  assumes "\<And>i. L i = (if i < length s then (if P (s ! i) then L (i + 1) else False) else True)"
  shows "L 0 \<longleftrightarrow> list_all P s"
  using scan_forall [of L "length s" "\<lambda>i. P (s ! i)", OF assms] by (simp add: list_all_length)

section \<open>Words\<close>

lemma u64_less_iff: "(a :: u64) < b \<longleftrightarrow> unat a < unat b"
  by (rule word_less_nat_alt)

lemma u64_le_iff: "(a :: u64) \<le> b \<longleftrightarrow> unat a \<le> unat b"
  by (rule word_le_nat_alt)

lemma u64_eq_iff: "(a :: u64) = b \<longleftrightarrow> unat a = unat b"
  by (simp add: word_unat_eq_iff)

lemma unat_u64_less: "unat (a :: u64) < 18446744073709551616"
  using unsigned_less [of a] by simp

lemma unat_u32_less: "unat (a :: u32) < 4294967296"
  using unsigned_less [of a] by simp

lemma unat_u64_max [simp]: "unat (- 1 :: u64) = 18446744073709551615"
  by (simp add: unsigned_minus_1_eq_mask mask_eq_exp_minus_1)

lemma unat_of_nat_u64: "n < 18446744073709551616 \<Longrightarrow> unat (of_nat n :: u64) = n"
  by (simp add: unat_of_nat)

lemma unat_of_nat_u32: "n < 4294967296 \<Longrightarrow> unat (of_nat n :: u32) = n"
  by (simp add: unat_of_nat)

lemma unat_of_nat_u8: "n < 256 \<Longrightarrow> unat (of_nat n :: u8) = n"
  by (simp add: unat_of_nat)

lemma unat_u8_less: "unat (b :: u8) < 256"
  using unsigned_less [of b] by simp

text \<open>A fact about one byte is checked by computing it for all 256 values.\<close>

lemma all_bytes: "list_all P (map of_nat [0..<256]) \<Longrightarrow> P (b :: u8)"
proof -
  assume "list_all P (map of_nat [0..<256])"
  moreover have "b \<in> of_nat ` {0..<256}"
    using unat_u8_less [of b] by (intro image_eqI [of _ _ "unat b"]) auto
  ultimately show ?thesis by (auto simp: list_all_iff)
qed

text \<open>
  The release profile sets \<open>overflow-checks\<close>, so a plain \<open>+\<close> panics on overflow: it is
  \<open>checked_add\<close> here. \<open>saturating_add\<close> and \<open>saturating_sub\<close> are the standard library's.
\<close>

definition checked_add :: "u64 \<Rightarrow> u64 \<Rightarrow> u64 exec" where
  "checked_add a b = (if unat a + unat b < 2 ^ 64 then Done (a + b) else Panic)"

definition saturating_add :: "u64 \<Rightarrow> u64 \<Rightarrow> u64" where
  "saturating_add a b = (if unat a + unat b < 2 ^ 64 then a + b else - 1)"

definition saturating_sub :: "u64 \<Rightarrow> u64 \<Rightarrow> u64" where
  "saturating_sub a b = (if b \<le> a then a - b else 0)"

lemma unat_saturating_add:
  "unat (saturating_add a b) = min (unat a + unat b) 18446744073709551615"
  by (auto simp: saturating_add_def unat_word_ariths)

lemma unat_saturating_sub: "unat (saturating_sub a b) = unat a - unat b"
  by (auto simp: saturating_sub_def unat_sub word_le_nat_alt)

lemma checked_add_Done:
  "checked_add a b = Done c \<longleftrightarrow> unat a + unat b < 2 ^ 64 \<and> c = a + b"
  by (auto simp: checked_add_def)

section \<open>Little-endian byte strings\<close>

text \<open>The reference that the encoders and \<open>from_le_bytes\<close> are compared with.\<close>

fun le_bytes :: "nat \<Rightarrow> nat \<Rightarrow> bytes" where
  "le_bytes 0 n = []"
| "le_bytes (Suc k) n = of_nat (n mod 256) # le_bytes k (n div 256)"

fun le_val :: "bytes \<Rightarrow> nat" where
  "le_val [] = 0"
| "le_val (b # bs) = unat b + 256 * le_val bs"

lemma length_le_bytes [simp, lengths]: "length (le_bytes k n) = k"
  by (induction k arbitrary: n) auto

lemma le_val_le_bytes: "le_val (le_bytes k n) = n mod 256 ^ k"
  by (induction k arbitrary: n) (simp_all add: unat_of_nat mod_mult2_eq)

lemma le_val_bound: "le_val bs < 256 ^ length bs"
proof (induction bs)
  case (Cons b bs)
  have "unat b + 256 * le_val bs < 256 + 256 * le_val bs"
    using unat_u8_less [of b] by simp
  also have "256 + 256 * le_val bs = 256 * Suc (le_val bs)"
    by (simp only: mult_Suc_right)
  also have "\<dots> \<le> 256 * 256 ^ length bs"
    by (rule mult_le_mono2) (rule Suc_leI [OF Cons.IH])
  finally show ?case by (simp only: le_val.simps list.size power_Suc add_0_right add_Suc_right)
qed simp

lemma le_bytes_inj:
  "le_bytes k m = le_bytes k n \<Longrightarrow> m < 256 ^ k \<Longrightarrow> n < 256 ^ k \<Longrightarrow> m = n"
  by (metis le_val_le_bytes mod_less)

section \<open>State machines\<close>

text \<open>
  A component that serves one event at a time: an invariant kept by every step holds after
  every run of events, and a transitive relation kept by every step relates the two ends of a run.
\<close>

locale stepper =
  fixes step :: "'s \<Rightarrow> 'e \<Rightarrow> 's"
    and inv :: "'s \<Rightarrow> bool"
  assumes inv_step: "inv s \<Longrightarrow> inv (step s e)"
begin

lemma inv_run: "inv s \<Longrightarrow> inv (foldl step s es)"
  by (induction es arbitrary: s) (simp_all add: inv_step)

lemma rel_run:
  assumes "\<And>s e. inv s \<Longrightarrow> r s (step s e)"
    and "\<And>s. r s s"
    and "\<And>s t u. r s t \<Longrightarrow> r t u \<Longrightarrow> r s u"
    and "inv s"
  shows "r s (foldl step s es)"
  using assms(4)
proof (induction es arbitrary: s)
  case Nil
  show ?case by (simp add: assms(2))
next
  case (Cons e es)
  then have "r s (step s e)" "r (step s e) (foldl step (step s e) es)"
    by (simp_all add: assms(1) inv_step)
  then show ?case using assms(3) by simp
qed

end

section \<open>Self-delimiting encodings\<close>

text \<open>
  An encoding is self-delimiting on the valid values when a byte string can start with the
  encoding of one value only, whatever follows it. Sequences of such encodings are again
  self-delimiting, which is what makes a concatenation of fields injective.
\<close>

locale prefix_code =
  fixes enc :: "'a \<Rightarrow> bytes"
    and valid :: "'a \<Rightarrow> bool"
  assumes split: "valid a \<Longrightarrow> valid b \<Longrightarrow> enc a @ r = enc b @ s \<Longrightarrow> a = b \<and> r = s"
begin

lemma injective: "valid a \<Longrightarrow> valid b \<Longrightarrow> enc a = enc b \<Longrightarrow> a = b"
  using split [of a b "[]" "[]"] by simp

lemma value_eq: "valid a \<Longrightarrow> valid b \<Longrightarrow> enc a @ r = enc b @ s \<Longrightarrow> a = b"
  using split by blast

lemma rest_eq: "valid a \<Longrightarrow> valid b \<Longrightarrow> enc a @ r = enc b @ s \<Longrightarrow> r = s"
  using split by blast

end

locale fixed_code =
  fixes enc :: "'a \<Rightarrow> bytes"
    and width :: nat
  assumes width: "length (enc a) = width"
    and inj: "enc a = enc b \<Longrightarrow> a = b"

sublocale fixed_code \<subseteq> prefix_code enc "\<lambda>_. True"
  by unfold_locales (metis append_len_split inj width)

locale code_pair =
  first: prefix_code enc1 valid1 + second: prefix_code enc2 valid2
  for enc1 :: "'a \<Rightarrow> bytes" and valid1 and enc2 :: "'b \<Rightarrow> bytes" and valid2

sublocale code_pair \<subseteq> pair: prefix_code "\<lambda>(a, b). enc1 a @ enc2 b" "\<lambda>(a, b). valid1 a \<and> valid2 b"
proof
  fix x y :: "'a \<times> 'b" and r s :: bytes
  assume v: "case x of (a, b) \<Rightarrow> valid1 a \<and> valid2 b" "case y of (a, b) \<Rightarrow> valid1 a \<and> valid2 b"
    and eq: "(case x of (a, b) \<Rightarrow> enc1 a @ enc2 b) @ r = (case y of (a, b) \<Rightarrow> enc1 a @ enc2 b) @ s"
  obtain a b c d where xy: "x = (a, b)" "y = (c, d)" by (cases x, cases y)
  with v eq have *: "a = c" "enc2 b @ r = enc2 d @ s"
    using first.split [of a c "enc2 b @ r" "enc2 d @ s"] by auto
  with v xy have "b = d \<and> r = s" using second.split [of b d r s] by simp
  with * xy show "x = y \<and> r = s" by simp
qed

end
