(* ===== verification/RustStd.thy ===== *)
theory RustStd
  imports Prelude
begin

text \<open>
  The parts of Rust's standard library that the modelled code calls, on byte strings: decimal
  formatting and parsing, UTF-8 validation, searching, splitting, trimming and the sub-slices.
  Strings hold valid UTF-8, so a byte below 128 is a character of its own and whitespace is
  recognised by the UTF-8 encodings of the characters with the \<open>White_Space\<close> property.
\<close>

section \<open>Slices\<close>

definition slice :: "'a list \<Rightarrow> nat \<Rightarrow> nat \<Rightarrow> 'a list" where
  "slice xs i j = take (j - i) (drop i xs)"

lemma length_slice [simp]: "length (slice xs i j) = min (j - i) (length xs - i)"
  by (simp add: slice_def)

lemma slice_append_left: "i \<le> j \<Longrightarrow> j \<le> length xs \<Longrightarrow> slice (xs @ ys) i j = slice xs i j"
  by (simp add: slice_def)

text \<open>\<open>xs[i]\<close> and \<open>xs[i..j]\<close>, which panic out of range.\<close>

definition idx :: "'a list \<Rightarrow> nat \<Rightarrow> 'a exec" where
  "idx xs i = (if i < length xs then Done (xs ! i) else Panic)"

definition subslice :: "'a list \<Rightarrow> nat \<Rightarrow> nat \<Rightarrow> 'a list exec" where
  "subslice xs i j = (if i \<le> j \<and> j \<le> length xs then Done (slice xs i j) else Panic)"

lemma idx_Done [simp]: "i < length xs \<Longrightarrow> idx xs i = Done (xs ! i)"
  by (simp add: idx_def)

lemma subslice_Done [simp]: "i \<le> j \<Longrightarrow> j \<le> length xs \<Longrightarrow> subslice xs i j = Done (slice xs i j)"
  by (simp add: subslice_def)

section \<open>Numbers\<close>

fun dec :: "nat \<Rightarrow> bytes" where
  "dec n = (if n < 10 then [48 + of_nat n] else dec (n div 10) @ [48 + of_nat (n mod 10)])"

declare dec.simps [simp del]

text \<open>\<open>{:0w}\<close>\<close>

definition pad0 :: "nat \<Rightarrow> bytes \<Rightarrow> bytes" where
  "pad0 w s = replicate (w - length s) 48 @ s"

definition dec_u64 :: "u64 \<Rightarrow> bytes" where
  "dec_u64 n = dec (unat n)"

definition is_digit :: "u8 \<Rightarrow> bool" where
  "is_digit c \<longleftrightarrow> 48 \<le> c \<and> c \<le> 57"

fun dec_val :: "nat \<Rightarrow> bytes \<Rightarrow> nat" where
  "dec_val acc [] = acc"
| "dec_val acc (c # cs) = dec_val (acc * 10 + unat (c - 48)) cs"

text \<open>\<open>s.parse::<u64>()\<close>: an optional plus sign, then digits.\<close>

definition parse_u64 :: "bytes \<Rightarrow> u64 option" where
  "parse_u64 s =
     (let ds = (if s \<noteq> [] \<and> hd s = 43 then tl s else s)
      in if ds \<noteq> [] \<and> list_all is_digit ds \<and> dec_val 0 ds < 2 ^ 64
         then Some (of_nat (dec_val 0 ds)) else None)"

lemma dec_nonempty [simp]: "dec n \<noteq> []"
  by (subst dec.simps) simp

lemma unat_digit: "n < 10 \<Longrightarrow> unat (48 + of_nat n :: u8) = 48 + n"
  by (simp add: unat_word_ariths unat_of_nat)

lemma is_digit_digit: "n < 10 \<Longrightarrow> is_digit (48 + of_nat n)"
  using unat_digit [of n] by (simp add: is_digit_def word_le_nat_alt)

lemma dec_digits: "list_all is_digit (dec n)"
proof (induction n rule: dec.induct)
  case (1 n)
  then show ?case
    by (subst dec.simps) (auto simp: is_digit_digit)
qed

lemma dec_val_append: "dec_val a (xs @ ys) = dec_val (dec_val a xs) ys"
  by (induction xs arbitrary: a) auto

lemma dec_val_dec: "dec_val 0 (dec n) = n"
proof (induction n rule: dec.induct)
  case (1 n)
  show ?case
  proof (cases "n < 10")
    case True
    then show ?thesis by (subst dec.simps) (simp add: unat_of_nat)
  next
    case False
    then have "dec_val 0 (dec n) = n div 10 * 10 + unat (of_nat (n mod 10) :: u8)"
      using 1 by (subst dec.simps) (simp add: dec_val_append)
    also have "\<dots> = n div 10 * 10 + n mod 10"
      by (simp add: unat_of_nat)
    finally show ?thesis by simp
  qed
qed

lemma dec_inj: "dec m = dec n \<Longrightarrow> m = n"
  by (metis dec_val_dec)

lemma digit_not_plus: "is_digit c \<Longrightarrow> c \<noteq> 43"
  by (auto simp: is_digit_def)

lemma parse_dec_u64: "parse_u64 (dec_u64 n) = Some n"
proof -
  have "hd (dec (unat n)) \<noteq> 43"
    using dec_digits [of "unat n"] dec_nonempty [of "unat n"]
    by (metis digit_not_plus hd_in_set list_all_iff)
  moreover have "unat n < 2 ^ 64" using unat_u64_less [of n] by simp
  ultimately show ?thesis
    by (simp add: parse_u64_def dec_u64_def dec_digits dec_val_dec)
qed

text \<open>\<open>u16::from_be_bytes\<close>, \<open>u32::from_be_bytes\<close> and \<open>u64::from_le_bytes\<close>.\<close>

definition be16 :: "u8 \<Rightarrow> u8 \<Rightarrow> u16" where
  "be16 a b = of_nat (unat a * 256 + unat b)"

definition be32 :: "u8 \<Rightarrow> u8 \<Rightarrow> u8 \<Rightarrow> u8 \<Rightarrow> u32" where
  "be32 a b c d = of_nat (((unat a * 256 + unat b) * 256 + unat c) * 256 + unat d)"

definition u64_from_le :: "bytes \<Rightarrow> u64" where
  "u64_from_le bs = of_nat (le_val bs)"

section \<open>Characters and UTF-8\<close>

definition is_cont :: "u8 \<Rightarrow> bool" where
  "is_cont b \<longleftrightarrow> 0x80 \<le> b \<and> b \<le> 0xBF"

text \<open>The number of bytes a lead byte announces, and the range of the byte after it.\<close>

definition utf8_width :: "u8 \<Rightarrow> nat" where
  "utf8_width b =
     (if b < 0x80 then 1
      else if 0xC2 \<le> b \<and> b \<le> 0xDF then 2
      else if 0xE0 \<le> b \<and> b \<le> 0xEF then 3
      else if 0xF0 \<le> b \<and> b \<le> 0xF4 then 4 else 0)"

definition utf8_second :: "u8 \<Rightarrow> u8 \<Rightarrow> bool" where
  "utf8_second b c \<longleftrightarrow>
     (if b = 0xE0 then 0xA0 \<le> c \<and> c \<le> 0xBF
      else if b = 0xED then 0x80 \<le> c \<and> c \<le> 0x9F
      else if b = 0xF0 then 0x90 \<le> c \<and> c \<le> 0xBF
      else if b = 0xF4 then 0x80 \<le> c \<and> c \<le> 0x8F
      else is_cont c)"

text \<open>
  How many bytes at the head belong together: \<open>Inr n\<close>, a valid character of \<open>n\<close> bytes, or
  \<open>Inl n\<close>, an ill-formed sequence of \<open>n\<close> bytes (the longest start of a valid one, or one byte).
\<close>

definition utf8_head :: "bytes \<Rightarrow> nat + nat" where
  "utf8_head s =
     (case s of [] \<Rightarrow> Inl 1
      | b # r \<Rightarrow>
          (let w = utf8_width b in
           if w = 0 then Inl 1
           else if w = 1 then Inr 1
           else if r = [] \<or> \<not> utf8_second b (r ! 0) then Inl 1
           else if w = 2 then Inr 2
           else if length r < 2 \<or> \<not> is_cont (r ! 1) then Inl 2
           else if w = 3 then Inr 3
           else if length r < 3 \<or> \<not> is_cont (r ! 2) then Inl 3
           else Inr 4))"

definition utf8_step :: "bytes \<Rightarrow> nat" where
  "utf8_step s = (case utf8_head s of Inl n \<Rightarrow> n | Inr n \<Rightarrow> n)"

lemma utf8_step_pos [simp]: "0 < utf8_step s"
  by (auto simp: utf8_step_def utf8_head_def Let_def split: list.split)

text \<open>\<open>core::str::from_utf8\<close> succeeds.\<close>

function utf8_valid :: "bytes \<Rightarrow> bool" where
  "utf8_valid s =
     (if s = [] then True
      else case utf8_head s of Inl n \<Rightarrow> False | Inr n \<Rightarrow> utf8_valid (drop (utf8_step s) s))"
  by pat_completeness auto
termination
proof (relation "measure length")
  fix s :: bytes
  assume "s \<noteq> []"
  moreover have "0 < utf8_step s" by simp
  ultimately show "(drop (utf8_step s) s, s) \<in> measure length"
    by (cases s) auto
qed simp

declare utf8_valid.simps [simp del]

text \<open>\<open>String::from_utf8_lossy\<close>: each ill-formed sequence becomes U+FFFD.\<close>

function utf8_lossy :: "bytes \<Rightarrow> bytes" where
  "utf8_lossy s =
     (if s = [] then []
      else (case utf8_head s of Inl n \<Rightarrow> [0xEF, 0xBF, 0xBD] | Inr n \<Rightarrow> take (utf8_step s) s)
           @ utf8_lossy (drop (utf8_step s) s))"
  by pat_completeness auto
termination
proof (relation "measure length")
  fix s :: bytes
  assume "s \<noteq> []"
  moreover have "0 < utf8_step s" by simp
  ultimately show "(drop (utf8_step s) s, s) \<in> measure length"
    by (cases s) auto
qed simp

declare utf8_lossy.simps [simp del]

lemma utf8_lossy_valid: "utf8_valid s \<Longrightarrow> utf8_lossy s = s"
proof (induction s rule: utf8_lossy.induct)
  case (1 s)
  show ?case
  proof (cases "s = []")
    case True
    then show ?thesis by (simp add: utf8_lossy.simps)
  next
    case False
    with "1.prems" obtain n where n: "utf8_head s = Inr n" "utf8_valid (drop (utf8_step s) s)"
      by (auto simp: utf8_valid.simps [of s] split: sum.splits)
    with False "1.IH" have "utf8_lossy (drop (utf8_step s) s) = drop (utf8_step s) s"
      by blast
    with False n show ?thesis by (simp add: utf8_lossy.simps [of s])
  qed
qed

text \<open>\<open>s.chars().take(n)\<close>, collected.\<close>

fun take_chars :: "nat \<Rightarrow> bytes \<Rightarrow> bytes" where
  "take_chars 0 s = []"
| "take_chars (Suc n) s =
     (if s = [] then [] else take (utf8_step s) s @ take_chars n (drop (utf8_step s) s))"

definition is_ascii_hexdigit :: "u8 \<Rightarrow> bool" where
  "is_ascii_hexdigit c \<longleftrightarrow>
     (48 \<le> c \<and> c \<le> 57) \<or> (65 \<le> c \<and> c \<le> 70) \<or> (97 \<le> c \<and> c \<le> 102)"

definition is_ascii_alphanumeric :: "u8 \<Rightarrow> bool" where
  "is_ascii_alphanumeric c \<longleftrightarrow>
     (48 \<le> c \<and> c \<le> 57) \<or> (65 \<le> c \<and> c \<le> 90) \<or> (97 \<le> c \<and> c \<le> 122)"

section \<open>Searching and splitting\<close>

definition starts_with :: "'a list \<Rightarrow> 'a list \<Rightarrow> bool" where
  "starts_with p s \<longleftrightarrow> take (length p) s = p"

definition ends_with :: "'a list \<Rightarrow> 'a list \<Rightarrow> bool" where
  "ends_with p s \<longleftrightarrow> length p \<le> length s \<and> drop (length s - length p) s = p"

definition strip_prefix :: "'a list \<Rightarrow> 'a list \<Rightarrow> 'a list option" where
  "strip_prefix p s = (if starts_with p s then Some (drop (length p) s) else None)"

definition strip_suffix :: "'a list \<Rightarrow> 'a list \<Rightarrow> 'a list option" where
  "strip_suffix p s = (if ends_with p s then Some (take (length s - length p) s) else None)"

fun find_sub :: "'a list \<Rightarrow> 'a list \<Rightarrow> nat option" where
  "find_sub p [] = (if p = [] then Some 0 else None)"
| "find_sub p (x # xs) =
     (if starts_with p (x # xs) then Some 0 else map_option Suc (find_sub p xs))"

definition contains :: "'a list \<Rightarrow> 'a list \<Rightarrow> bool" where
  "contains p s \<longleftrightarrow> find_sub p s \<noteq> None"

text \<open>\<open>s.split(c)\<close> and \<open>s.split_once(c)\<close>\<close>

fun split_on :: "'a \<Rightarrow> 'a list \<Rightarrow> 'a list list" where
  "split_on c [] = [[]]"
| "split_on c (x # xs) =
     (if x = c then [] # split_on c xs
      else (case split_on c xs of [] \<Rightarrow> [[x]] | p # ps \<Rightarrow> (x # p) # ps))"

fun split_once :: "'a \<Rightarrow> 'a list \<Rightarrow> ('a list \<times> 'a list) option" where
  "split_once c [] = None"
| "split_once c (x # xs) =
     (if x = c then Some ([], xs)
      else map_option (\<lambda>(a, b). (x # a, b)) (split_once c xs))"

text \<open>\<open>s.splitn(n, c)\<close>\<close>

fun splitn :: "nat \<Rightarrow> 'a \<Rightarrow> 'a list \<Rightarrow> 'a list list" where
  "splitn 0 c s = []"
| "splitn (Suc 0) c s = [s]"
| "splitn (Suc (Suc n)) c s =
     (case split_once c s of None \<Rightarrow> [s] | Some (a, b) \<Rightarrow> a # splitn (Suc n) c b)"

text \<open>\<open>s.split_inclusive('\n')\<close> and \<open>s.lines()\<close>\<close>

fun split_inclusive :: "'a \<Rightarrow> 'a list \<Rightarrow> 'a list list" where
  "split_inclusive c [] = []"
| "split_inclusive c (x # xs) =
     (if x = c then [x] # split_inclusive c xs
      else (case split_inclusive c xs of [] \<Rightarrow> [[x]] | p # ps \<Rightarrow> (x # p) # ps))"

definition strip_eol :: "bytes \<Rightarrow> bytes" where
  "strip_eol l =
     (case strip_suffix [10] l of None \<Rightarrow> l
      | Some m \<Rightarrow> (case strip_suffix [13] m of None \<Rightarrow> m | Some k \<Rightarrow> k))"

definition lines :: "bytes \<Rightarrow> bytes list" where
  "lines s = map strip_eol (split_inclusive 10 s)"

text \<open>\<open>s.rsplit(c).next()\<close>: the piece after the last separator.\<close>

definition last_piece :: "'a \<Rightarrow> 'a list \<Rightarrow> 'a list" where
  "last_piece c s = last (split_on c s)"

text \<open>\<open>s.replace(p, r)\<close> for a non-empty pattern\<close>

fun replace_sub :: "'a list \<Rightarrow> 'a list \<Rightarrow> nat \<Rightarrow> 'a list \<Rightarrow> 'a list" where
  "replace_sub p r 0 s = s"
| "replace_sub p r (Suc n) [] = []"
| "replace_sub p r (Suc n) (x # xs) =
     (if starts_with p (x # xs) then r @ replace_sub p r n (drop (length p) (x # xs))
      else x # replace_sub p r n xs)"

definition replace_all :: "'a list \<Rightarrow> 'a list \<Rightarrow> 'a list \<Rightarrow> 'a list" where
  "replace_all p r s = replace_sub p r (Suc (length s)) s"

section \<open>Whitespace\<close>

definition ws_codes :: "bytes list" where
  "ws_codes =
     [[9], [10], [11], [12], [13], [32], [0xC2, 0x85], [0xC2, 0xA0], [0xE1, 0x9A, 0x80],
      [0xE2, 0x80, 0x80], [0xE2, 0x80, 0x81], [0xE2, 0x80, 0x82], [0xE2, 0x80, 0x83],
      [0xE2, 0x80, 0x84], [0xE2, 0x80, 0x85], [0xE2, 0x80, 0x86], [0xE2, 0x80, 0x87],
      [0xE2, 0x80, 0x88], [0xE2, 0x80, 0x89], [0xE2, 0x80, 0x8A], [0xE2, 0x80, 0xA8],
      [0xE2, 0x80, 0xA9], [0xE2, 0x80, 0xAF], [0xE2, 0x81, 0x9F], [0xE3, 0x80, 0x80]]"

fun ws_head :: "bytes list \<Rightarrow> bytes \<Rightarrow> nat" where
  "ws_head [] s = 0"
| "ws_head (p # ps) s = (if starts_with p s then length p else ws_head ps s)"

function strip_ws :: "bytes list \<Rightarrow> bytes \<Rightarrow> bytes" where
  "strip_ws codes s =
     (if s = [] \<or> ws_head codes s = 0 then s else strip_ws codes (drop (ws_head codes s) s))"
  by pat_completeness auto
termination
  by (relation "measure (\<lambda>(codes, s). length s)") auto

declare strip_ws.simps [simp del]

definition trim_start :: "bytes \<Rightarrow> bytes" where
  "trim_start s = strip_ws ws_codes s"

definition trim_end :: "bytes \<Rightarrow> bytes" where
  "trim_end s = rev (strip_ws (map rev ws_codes) (rev s))"

definition trim :: "bytes \<Rightarrow> bytes" where
  "trim s = trim_end (trim_start s)"

function words_of :: "bytes \<Rightarrow> bytes \<Rightarrow> bytes list" where
  "words_of acc s =
     (if s = [] then (if acc = [] then [] else [acc])
      else if ws_head ws_codes s = 0 then words_of (acc @ [hd s]) (tl s)
      else (if acc = [] then [] else [acc]) @ words_of [] (drop (ws_head ws_codes s) s))"
  by pat_completeness auto
termination
  by (relation "measure (\<lambda>(acc, s). length s)") auto

declare words_of.simps [simp del]

definition split_whitespace :: "bytes \<Rightarrow> bytes list" where
  "split_whitespace s = words_of [] s"

text \<open>An ASCII byte above the space neither starts nor ends a whitespace character.\<close>

definition graphic :: "u8 \<Rightarrow> bool" where
  "graphic b \<longleftrightarrow> 33 \<le> b \<and> b < 128"

lemma ws_head_none: "\<forall>p \<in> set ps. p \<noteq> [] \<and> hd p \<noteq> hd s \<Longrightarrow> s \<noteq> [] \<Longrightarrow> ws_head ps s = 0"
  by (induction ps) (auto simp: starts_with_def neq_Nil_conv)

lemma ws_codes_ends:
  "p \<in> set ws_codes \<Longrightarrow> p \<noteq> [] \<and> \<not> graphic (hd p) \<and> \<not> graphic (last p)"
proof -
  have "list_all (\<lambda>p. p \<noteq> [] \<and> \<not> graphic (hd p) \<and> \<not> graphic (last p)) ws_codes"
    by (simp add: ws_codes_def graphic_def)
  then show "p \<in> set ws_codes \<Longrightarrow> p \<noteq> [] \<and> \<not> graphic (hd p) \<and> \<not> graphic (last p)"
    by (simp add: list_all_iff)
qed

lemma ws_head_graphic [simp]: "graphic x \<Longrightarrow> ws_head ws_codes (x # s) = 0"
  using ws_codes_ends by (intro ws_head_none) auto

lemma ws_head_rev_graphic: "graphic x \<Longrightarrow> ws_head (map rev ws_codes) (x # s) = 0"
  using ws_codes_ends by (intro ws_head_none) (auto simp: hd_rev)

lemma trim_graphic:
  assumes "s \<noteq> []" "graphic (hd s)" "graphic (last s)"
  shows "trim s = s"
proof -
  have "trim_start s = s"
    using assms(1,2) by (cases s) (simp_all add: trim_start_def strip_ws.simps)
  moreover have "trim_end s = s"
    using assms(1,3) by (cases s rule: rev_cases) (simp_all add: trim_end_def strip_ws.simps ws_head_rev_graphic)
  ultimately show ?thesis by (simp add: trim_def)
qed

text \<open>ASCII text is UTF-8.\<close>

lemma ascii_valid: "list_all (\<lambda>b. b < 0x80) s \<Longrightarrow> utf8_valid s"
proof (induction s)
  case (Cons b s)
  then have "utf8_head (b # s) = Inr 1" by (simp add: utf8_head_def utf8_width_def)
  then show ?case using Cons by (simp add: utf8_valid.simps [of "b # s"] utf8_step_def)
qed (simp add: utf8_valid.simps)

end
