(* ===== verification/Encoding.thy ===== *)
theory Encoding
  imports RustStd
begin

text \<open>
  The byte encodings of \<open>src/verified/src/lib.rs\<close> that are hashed or signed: little-endian
  integers, length-prefixed fields, the energy record, the four domain-separated hash
  preimages and the checkpoint message. The functions named \<open>spec_\<dots>\<close> are the source's
  specification functions; the others are its executable code, their copy loops included.
\<close>

definition DOMAIN_LEAF :: u8 where "DOMAIN_LEAF = 0x00"
definition DOMAIN_INTERNAL :: u8 where "DOMAIN_INTERNAL = 0x01"
definition DOMAIN_ROOT :: u8 where "DOMAIN_ROOT = 0x02"
definition DOMAIN_CHAIN :: u8 where "DOMAIN_CHAIN = 0x03"
definition RECORD_FORMAT_V2 :: u8 where "RECORD_FORMAT_V2 = 0x02"
definition MAX_TENANT_LABEL :: nat where "MAX_TENANT_LABEL = 64"

lemmas domain_defs = DOMAIN_LEAF_def DOMAIN_INTERNAL_def DOMAIN_ROOT_def DOMAIN_CHAIN_def

section \<open>Integers and length-prefixed fields\<close>

definition spec_u32_le :: "u32 \<Rightarrow> bytes" where
  "spec_u32_le v =
     [ucast (v AND 0xff), ucast (drop_bit 8 v AND 0xff),
      ucast (drop_bit 16 v AND 0xff), ucast (drop_bit 24 v AND 0xff)]"

definition spec_u64_le :: "u64 \<Rightarrow> bytes" where
  "spec_u64_le v =
     [ucast (v AND 0xff), ucast (drop_bit 8 v AND 0xff),
      ucast (drop_bit 16 v AND 0xff), ucast (drop_bit 24 v AND 0xff),
      ucast (drop_bit 32 v AND 0xff), ucast (drop_bit 40 v AND 0xff),
      ucast (drop_bit 48 v AND 0xff), ucast (drop_bit 56 v AND 0xff)]"

definition push_u32_le :: "bytes \<Rightarrow> u32 \<Rightarrow> bytes" where
  "push_u32_le out v =
     (((out @ [ucast (v AND 0xff)]) @ [ucast (drop_bit 8 v AND 0xff)])
       @ [ucast (drop_bit 16 v AND 0xff)]) @ [ucast (drop_bit 24 v AND 0xff)]"

definition push_u64_le :: "bytes \<Rightarrow> u64 \<Rightarrow> bytes" where
  "push_u64_le out v =
     (((((((out @ [ucast (v AND 0xff)]) @ [ucast (drop_bit 8 v AND 0xff)])
       @ [ucast (drop_bit 16 v AND 0xff)]) @ [ucast (drop_bit 24 v AND 0xff)])
       @ [ucast (drop_bit 32 v AND 0xff)]) @ [ucast (drop_bit 40 v AND 0xff)])
       @ [ucast (drop_bit 48 v AND 0xff)]) @ [ucast (drop_bit 56 v AND 0xff)]"

text \<open>The copy loop \<open>while i < s.len() { out.push(s[i]); i = i + 1 }\<close>.\<close>

function push_from :: "bytes \<Rightarrow> bytes \<Rightarrow> nat \<Rightarrow> bytes" where
  "push_from out s i = (if i < length s then push_from (out @ [s ! i]) s (i + 1) else out)"
  by pat_completeness auto
termination by (relation "measure (\<lambda>(out, s, i). length s - i)") auto

declare push_from.simps [simp del]

definition push_len_prefixed :: "bytes \<Rightarrow> bytes \<Rightarrow> bytes" where
  "push_len_prefixed out field = push_from (push_u32_le out (of_nat (length field))) field 0"

lemma push_from_drop [loops]: "push_from out s i = out @ drop i s"
proof (induction out s i rule: push_from.induct)
  case (1 out s i)
  then show ?case by (subst push_from.simps) (simp add: drop_nth_Cons)
qed

lemma push_u32_le_spec [refines]: "push_u32_le out v = out @ spec_u32_le v"
  by (simp add: push_u32_le_def spec_u32_le_def)

lemma push_u64_le_spec [refines]: "push_u64_le out v = out @ spec_u64_le v"
  by (simp add: push_u64_le_def spec_u64_le_def)

definition len_prefixed :: "bytes \<Rightarrow> bytes" where
  "len_prefixed s = spec_u32_le (of_nat (length s)) @ s"

lemma push_len_prefixed_spec [refines]: "push_len_prefixed out s = out @ len_prefixed s"
  by (simp add: push_len_prefixed_def len_prefixed_def loops refines)

text \<open>Both integer encodings are the little-endian digits of the value in base 256.\<close>

lemma ucast_low_byte: "ucast (w AND 0xff) = (of_nat (unat (w :: 'a :: len word) mod 256) :: u8)"
proof -
  have "ucast (w AND 0xff) = (ucast (w AND mask 8) :: u8)"
    by (simp add: mask_eq_exp_minus_1)
  also have "\<dots> = ucast w"
    by (rule bit_word_eqI) (auto simp: bit_simps dest: bit_imp_le_length)
  finally have eq: "ucast (w AND 0xff) = (ucast w :: u8)" .
  have "(of_nat (unat w mod 256) :: u8) = of_nat (unat w)"
    by (subst word_of_nat_eq_iff) (simp add: take_bit_eq_mod)
  also have "\<dots> = ucast w" by simp
  finally show ?thesis using eq by metis
qed

lemma unat_drop_bit: "unat (drop_bit k w) = unat w div 2 ^ k"
  by (simp only: unsigned_drop_bit_eq)
    (simp add: take_bit_nat_eq_self drop_bit_eq_div [of k "unat w"])

lemma byte_of_word:
  "ucast (drop_bit k w AND 0xff) = (of_nat (unat (w :: 'a :: len word) div 2 ^ k mod 256) :: u8)"
  by (simp only: ucast_low_byte unat_drop_bit)

lemma le_bytes_4:
  "le_bytes 4 n = [of_nat (n mod 256), of_nat (n div 2 ^ 8 mod 256), of_nat (n div 2 ^ 16 mod 256),
     of_nat (n div 2 ^ 24 mod 256)]"
proof -
  have "(4 :: nat) = Suc (Suc (Suc (Suc 0)))" by simp
  then show ?thesis by (simp only: le_bytes.simps div_mult2_eq [symmetric]) simp
qed

lemma le_bytes_8:
  "le_bytes 8 n = le_bytes 4 n @ le_bytes 4 (n div 2 ^ 32)"
proof -
  have "(8 :: nat) = Suc (Suc (Suc (Suc 4)))" by simp
  moreover have "(4 :: nat) = Suc (Suc (Suc (Suc 0)))" by simp
  ultimately show ?thesis by (simp only: le_bytes.simps div_mult2_eq [symmetric] append.simps) simp
qed

lemma unat_of_nat_len: "n < 2 ^ 32 \<Longrightarrow> unat (of_nat n :: u32) = n"
  using unat_of_nat_u32 [of n] by simp

lemma spec_u32_le_bytes: "spec_u32_le v = le_bytes 4 (unat v)"
  unfolding spec_u32_le_def le_bytes_4 byte_of_word by (simp add: ucast_low_byte)

lemma spec_u64_le_bytes: "spec_u64_le v = le_bytes 8 (unat v)"
  unfolding spec_u64_le_def le_bytes_8 le_bytes_4 byte_of_word
  by (simp add: ucast_low_byte div_mult2_eq [symmetric])

lemma length_spec_u32_le [simp, lengths]: "length (spec_u32_le v) = 4"
  by (simp add: spec_u32_le_def)

lemma length_spec_u64_le [simp, lengths]: "length (spec_u64_le v) = 8"
  by (simp add: spec_u64_le_def)

lemma u64_from_le_spec [simp]: "u64_from_le (spec_u64_le v) = v"
  using unat_u64_less [of v]
  by (simp add: u64_from_le_def spec_u64_le_bytes le_val_le_bytes)

lemma spec_u32_le_inj: "spec_u32_le a = spec_u32_le b \<Longrightarrow> a = b"
  unfolding spec_u32_le_bytes
  using le_bytes_inj [of 4 "unat a" "unat b"] unat_u32_less [of a] unat_u32_less [of b]
  by (simp add: word_unat_eq_iff)

lemma spec_u64_le_inj: "spec_u64_le a = spec_u64_le b \<Longrightarrow> a = b"
  by (metis u64_from_le_spec)

interpretation u32_code: fixed_code spec_u32_le 4
  by unfold_locales (simp_all add: spec_u32_le_inj)

interpretation u64_code: fixed_code spec_u64_le 8
  by unfold_locales (simp_all add: spec_u64_le_inj)

lemma len_prefixed_split:
  assumes "length a < 2 ^ 32" "length b < 2 ^ 32" "len_prefixed a @ r = len_prefixed b @ s"
  shows "a = b \<and> r = s"
proof -
  have eq: "spec_u32_le (of_nat (length a)) @ (a @ r) = spec_u32_le (of_nat (length b)) @ (b @ s)"
    using assms(3) by (simp add: len_prefixed_def)
  then have "(of_nat (length a) :: u32) = of_nat (length b)" "a @ r = b @ s"
    using u32_code.split [OF TrueI TrueI eq] by auto
  then have "length a = length b"
    using assms(1,2) by (metis unat_of_nat_len)
  with \<open>a @ r = b @ s\<close> show ?thesis by simp
qed

interpretation field_code: prefix_code len_prefixed "\<lambda>s. length s < 2 ^ 32"
  by unfold_locales (rule len_prefixed_split)

section \<open>Tenant labels\<close>

definition spec_safe_label_byte :: "u8 \<Rightarrow> bool" where
  "spec_safe_label_byte b \<longleftrightarrow>
     (b \<ge> 0x30 \<and> b \<le> 0x39) \<or> (b \<ge> 0x41 \<and> b \<le> 0x5A) \<or> (b \<ge> 0x61 \<and> b \<le> 0x7A) \<or>
     b = 0x2E \<or> b = 0x5F \<or> b = 0x2D"

definition spec_valid_tenant_label :: "bytes \<Rightarrow> bool" where
  "spec_valid_tenant_label s \<longleftrightarrow>
     length s > 0 \<and> length s \<le> MAX_TENANT_LABEL \<and> list_all spec_safe_label_byte s"

definition is_safe_label_byte :: "u8 \<Rightarrow> bool" where
  "is_safe_label_byte b =
     ((b \<ge> 0x30 \<and> b \<le> 0x39) \<or> (b \<ge> 0x41 \<and> b \<le> 0x5A) \<or> (b \<ge> 0x61 \<and> b \<le> 0x7A) \<or>
      b = 0x2E \<or> b = 0x5F \<or> b = 0x2D)"

function label_loop :: "bytes \<Rightarrow> nat \<Rightarrow> bool" where
  "label_loop s i =
     (if i < length s then
        if \<not> is_safe_label_byte (s ! i) then False else label_loop s (i + 1)
      else True)"
  by pat_completeness auto
termination by (relation "measure (\<lambda>(s, i). length s - i)") auto

declare label_loop.simps [simp del]

definition is_valid_tenant_label :: "bytes \<Rightarrow> bool" where
  "is_valid_tenant_label s =
     (if length s = 0 \<or> length s > MAX_TENANT_LABEL then False else label_loop s 0)"

lemma is_safe_label_byte_spec [refines]: "is_safe_label_byte b = spec_safe_label_byte b"
  by (simp add: is_safe_label_byte_def spec_safe_label_byte_def)

lemma label_loop_all [loops]: "label_loop s 0 = list_all spec_safe_label_byte s"
  by (rule scan_list_all) (subst label_loop.simps, simp add: refines)

lemma is_valid_tenant_label_spec [refines]: "is_valid_tenant_label s = spec_valid_tenant_label s"
  by (auto simp: is_valid_tenant_label_def spec_valid_tenant_label_def loops)

lemma safe_label_byte_not:
  "spec_safe_label_byte b \<Longrightarrow> b \<notin> {0x7C, 0x3A, 0x40, 0x0A, 0x0D, 0x2F, 0x20}"
proof
  assume "spec_safe_label_byte b" "b \<in> {0x7C, 0x3A, 0x40, 0x0A, 0x0D, 0x2F, 0x20}"
  moreover have "\<not> spec_safe_label_byte 0x7C" "\<not> spec_safe_label_byte 0x3A"
    "\<not> spec_safe_label_byte 0x40" "\<not> spec_safe_label_byte 0x0A" "\<not> spec_safe_label_byte 0x0D"
    "\<not> spec_safe_label_byte 0x2F" "\<not> spec_safe_label_byte 0x20"
    by (simp_all add: spec_safe_label_byte_def)
  ultimately show False by blast
qed

lemma valid_label_bytes:
  "spec_valid_tenant_label s \<Longrightarrow> b \<in> set s \<Longrightarrow> b \<notin> {0x7C, 0x3A, 0x40, 0x0A, 0x0D, 0x2F, 0x20}"
  by (rule safe_label_byte_not) (simp add: list_all_iff spec_valid_tenant_label_def)

lemma label_no_bar: "is_valid_tenant_label s \<Longrightarrow> 0x7C \<notin> set s"
  using valid_label_bytes [of s "0x7C"] unfolding refines by blast

section \<open>The energy record\<close>

definition spec_encode_record :: "u32 \<Rightarrow> u64 \<Rightarrow> u64 \<Rightarrow> u64 \<Rightarrow> bytes \<Rightarrow> bytes \<Rightarrow> bytes" where
  "spec_encode_record pid cpu_bits energy_bits power_bits vm_name timestamp =
     [RECORD_FORMAT_V2] @ spec_u32_le pid @ spec_u64_le cpu_bits @ spec_u64_le energy_bits
       @ spec_u64_le power_bits
       @ spec_u32_le (of_nat (length vm_name)) @ vm_name
       @ spec_u32_le (of_nat (length timestamp)) @ timestamp"

definition encode_record_fields :: "u32 \<Rightarrow> u64 \<Rightarrow> u64 \<Rightarrow> u64 \<Rightarrow> bytes \<Rightarrow> bytes \<Rightarrow> bytes" where
  "encode_record_fields pid cpu_bits energy_bits power_bits vm_name timestamp =
     (let out = [] @ [RECORD_FORMAT_V2];
          out = push_u32_le out pid;
          out = push_u64_le out cpu_bits;
          out = push_u64_le out energy_bits;
          out = push_u64_le out power_bits;
          out = push_len_prefixed out vm_name;
          out = push_len_prefixed out timestamp
      in out)"

lemma encode_record_fields_spec [refines]:
  "encode_record_fields pid c e p v t = spec_encode_record pid c e p v t"
  by (simp add: encode_record_fields_def spec_encode_record_def refines len_prefixed_def Let_def)

interpretation ts_code: code_pair len_prefixed "\<lambda>s. length s < 2 ^ 32" len_prefixed "\<lambda>s. length s < 2 ^ 32"
  by unfold_locales

interpretation power_code: code_pair spec_u64_le "\<lambda>_. True"
  "\<lambda>(a, b). len_prefixed a @ len_prefixed b" "\<lambda>(a, b). length a < 2 ^ 32 \<and> length b < 2 ^ 32"
  by unfold_locales

interpretation energy_code: code_pair spec_u64_le "\<lambda>_. True"
  "\<lambda>(p, f). spec_u64_le p @ (\<lambda>(a, b). len_prefixed a @ len_prefixed b) f"
  "\<lambda>(p, f). True \<and> (\<lambda>(a, b). length a < 2 ^ 32 \<and> length b < 2 ^ 32) f"
  by unfold_locales

interpretation cpu_code: code_pair spec_u64_le "\<lambda>_. True"
  "\<lambda>(e, g). spec_u64_le e @ (\<lambda>(p, f). spec_u64_le p @ (\<lambda>(a, b). len_prefixed a @ len_prefixed b) f) g"
  "\<lambda>(e, g). True \<and> (\<lambda>(p, f). True \<and> (\<lambda>(a, b). length a < 2 ^ 32 \<and> length b < 2 ^ 32) f) g"
  by unfold_locales

lemma spec_encode_record_split:
  assumes "length v1 < 2 ^ 32" "length t1 < 2 ^ 32" "length v2 < 2 ^ 32" "length t2 < 2 ^ 32"
    and eq: "spec_encode_record p1 c1 e1 w1 v1 t1 @ r = spec_encode_record p2 c2 e2 w2 v2 t2 @ s"
  shows "p1 = p2 \<and> c1 = c2 \<and> e1 = e2 \<and> w1 = w2 \<and> v1 = v2 \<and> t1 = t2 \<and> r = s"
proof -
  let ?f = "\<lambda>c e w v t r. spec_u64_le c @ spec_u64_le e @ spec_u64_le w
    @ len_prefixed v @ len_prefixed t @ r"
  have "spec_u32_le p1 @ ?f c1 e1 w1 v1 t1 r = spec_u32_le p2 @ ?f c2 e2 w2 v2 t2 s"
    using eq by (simp add: spec_encode_record_def len_prefixed_def)
  then have p: "p1 = p2" and "?f c1 e1 w1 v1 t1 r = ?f c2 e2 w2 v2 t2 s"
    using u32_code.split [OF TrueI TrueI] by blast+
  then show ?thesis
    using cpu_code.pair.split [of "(c1, e1, w1, v1, t1)" "(c2, e2, w2, v2, t2)" r s] assms(1-4)
    by simp
qed

text \<open>The byte encoding of an energy record is injective: two records whose encodings are equal
  agree in pid, CPU share, energy, power, VM name and timestamp, whatever bytes the two strings hold.\<close>
theorem record_encoding_injective:
  assumes "length v1 < 2 ^ 32" "length t1 < 2 ^ 32" "length v2 < 2 ^ 32" "length t2 < 2 ^ 32"
    and "encode_record_fields p1 c1 e1 w1 v1 t1 = encode_record_fields p2 c2 e2 w2 v2 t2"
  shows "p1 = p2 \<and> c1 = c2 \<and> e1 = e2 \<and> w1 = w2 \<and> v1 = v2 \<and> t1 = t2"
  using spec_encode_record_split [of v1 t1 v2 t2 p1 c1 e1 w1 "[]" p2 c2 e2 w2 "[]"] assms
  by (simp add: refines)

lemma record_encoding_injective_witness:
  "\<exists>v. encode_record_fields 7 1 2 3 (str ''vm'') (str ''t'') = encode_record_fields 7 1 2 3 v (str ''t'')
     \<and> v = str ''vm''"
proof -
  have "str ''vm'' = str ''vm''"
    using record_encoding_injective [of "str ''vm''" "str ''t''" "str ''vm''" "str ''t''" 7 1 2 3 7 1 2 3]
    by simp
  then show ?thesis by blast
qed

section \<open>The hashed nodes\<close>

definition spec_encode_leaf :: "bytes \<Rightarrow> bytes" where
  "spec_encode_leaf record_bytes = [DOMAIN_LEAF] @ record_bytes"

definition spec_encode_internal :: "bytes \<Rightarrow> bytes \<Rightarrow> bytes" where
  "spec_encode_internal left right = [DOMAIN_INTERNAL] @ left @ right"

definition spec_encode_root :: "u64 \<Rightarrow> bytes \<Rightarrow> bytes" where
  "spec_encode_root leaf_count subtree_root = [DOMAIN_ROOT] @ spec_u64_le leaf_count @ subtree_root"

definition spec_encode_chained_root :: "bytes \<Rightarrow> bytes \<Rightarrow> bytes" where
  "spec_encode_chained_root prev merkle = [DOMAIN_CHAIN] @ prev @ merkle"

definition encode_leaf :: "bytes \<Rightarrow> bytes" where
  "encode_leaf record_bytes = push_from ([] @ [DOMAIN_LEAF]) record_bytes 0"

definition encode_internal :: "bytes \<Rightarrow> bytes \<Rightarrow> bytes" where
  "encode_internal left right = push_from (push_from ([] @ [DOMAIN_INTERNAL]) left 0) right 0"

definition encode_root :: "u64 \<Rightarrow> bytes \<Rightarrow> bytes" where
  "encode_root leaf_count subtree_root =
     push_from (push_u64_le ([] @ [DOMAIN_ROOT]) leaf_count) subtree_root 0"

definition encode_chained_root :: "bytes \<Rightarrow> bytes \<Rightarrow> bytes" where
  "encode_chained_root prev merkle = push_from (push_from ([] @ [DOMAIN_CHAIN]) prev 0) merkle 0"

lemma encode_leaf_spec [refines]: "encode_leaf r = spec_encode_leaf r"
  by (simp add: encode_leaf_def spec_encode_leaf_def loops)

lemma encode_internal_spec [refines]: "encode_internal l r = spec_encode_internal l r"
  by (simp add: encode_internal_def spec_encode_internal_def loops)

lemma encode_root_spec [refines]: "encode_root n r = spec_encode_root n r"
  by (simp add: encode_root_def spec_encode_root_def loops refines)

lemma encode_chained_root_spec [refines]: "encode_chained_root p m = spec_encode_chained_root p m"
  by (simp add: encode_chained_root_def spec_encode_chained_root_def loops)

lemmas node_specs =
  spec_encode_leaf_def spec_encode_internal_def spec_encode_root_def spec_encode_chained_root_def

text \<open>The four hash preimages (leaf, internal node, tree root, chained root) are pairwise different
  byte strings for all arguments, so a value of one kind can never be reinterpreted as another, and the
  root preimage determines the leaf count and the subtree root.\<close>
theorem domains_pairwise_disjoint:
  "distinct [encode_leaf rec, encode_internal l r, encode_root n sub, encode_chained_root p m] \<and>
   (encode_root n sub = encode_root k sub2 \<longleftrightarrow> n = k \<and> sub = sub2)"
proof -
  have "n = k \<and> sub = sub2" if "spec_u64_le n @ sub = spec_u64_le k @ sub2"
    using u64_code.split [OF TrueI TrueI that] .
  then show ?thesis by (auto simp: refines node_specs domain_defs)
qed

lemma encode_internal_inj:
  assumes "length l1 = length l2" "encode_internal l1 r1 = encode_internal l2 r2"
  shows "l1 = l2 \<and> r1 = r2"
  using assms by (simp add: refines node_specs)

lemma encode_chained_root_inj:
  assumes "length p1 = length p2" "encode_chained_root p1 m1 = encode_chained_root p2 m2"
  shows "p1 = p2 \<and> m1 = m2"
  using assms by (simp add: refines node_specs)

lemma encode_root_inj:
  "encode_root n s = encode_root k t \<Longrightarrow> n = k \<and> s = t"
  using u64_code.split [of n s k t] by (simp add: refines node_specs)

section \<open>The checkpoint message\<close>

definition spec_encode_checkpoint_msg :: "bytes \<Rightarrow> u64 \<Rightarrow> bytes \<Rightarrow> bytes" where
  "spec_encode_checkpoint_msg tenant block_number chained_root =
     [0x63, 0x68, 0x65, 0x63, 0x6B, 0x70, 0x6F, 0x69, 0x6E, 0x74, 0x2D, 0x76, 0x31, 0x7C]
       @ tenant @ [0x7C] @ spec_u64_le block_number @ chained_root"

definition encode_checkpoint_msg :: "bytes \<Rightarrow> u64 \<Rightarrow> bytes \<Rightarrow> bytes" where
  "encode_checkpoint_msg tenant block_number chained_root =
     (let out = [0x63, 0x68, 0x65, 0x63, 0x6B, 0x70, 0x6F, 0x69, 0x6E, 0x74, 0x2D, 0x76, 0x31, 0x7C];
          out = push_from out tenant 0;
          out = out @ [0x7C];
          out = push_u64_le out block_number
      in push_from out chained_root 0)"

lemma encode_checkpoint_msg_spec [refines]:
  "encode_checkpoint_msg t n r = spec_encode_checkpoint_msg t n r"
  by (simp add: encode_checkpoint_msg_def spec_encode_checkpoint_msg_def loops refines Let_def)

lemma bar_split:
  "b \<notin> set xs \<Longrightarrow> b \<notin> set ys \<Longrightarrow> xs @ b # r = ys @ b # s \<Longrightarrow> xs = ys \<and> r = s"
proof (induction xs arbitrary: ys)
  case Nil
  then show ?case by (cases ys) auto
next
  case (Cons x xs)
  then show ?case by (cases ys) auto
qed

text \<open>The signed checkpoint message is injective on valid tenant labels: equal messages carry the
  same tenant, block number and chained root, so a signature for one tenant's checkpoint is never a
  signature for another's.\<close>
theorem checkpoint_msg_injective:
  assumes "is_valid_tenant_label t1" "is_valid_tenant_label t2"
    and "encode_checkpoint_msg t1 n1 r1 = encode_checkpoint_msg t2 n2 r2"
  shows "t1 = t2 \<and> n1 = n2 \<and> r1 = r2"
proof -
  have "0x7C \<notin> set t1" "0x7C \<notin> set t2"
    using assms(1,2) by (simp_all only: label_no_bar not_False_eq_True)
  moreover have "t1 @ 0x7C # spec_u64_le n1 @ r1 = t2 @ 0x7C # spec_u64_le n2 @ r2"
    using assms(3) by (simp add: encode_checkpoint_msg_spec spec_encode_checkpoint_msg_def)
  ultimately have "t1 = t2" "spec_u64_le n1 @ r1 = spec_u64_le n2 @ r2"
    using bar_split [of "0x7C" t1 t2] by blast+
  then show ?thesis using u64_code.split [of n1 r1 n2 r2] by simp
qed

lemma checkpoint_msg_injective_witness:
  "is_valid_tenant_label (str ''vm-1'') \<and>
   (\<forall>n. encode_checkpoint_msg (str ''vm-1'') n [] = encode_checkpoint_msg (str ''vm-1'') 5 [] \<longleftrightarrow> n = 5)"
proof -
  have v: "is_valid_tenant_label (str ''vm-1'')"
    by (simp add: refines spec_valid_tenant_label_def str_def spec_safe_label_byte_def MAX_TENANT_LABEL_def)
  then show ?thesis using checkpoint_msg_injective [OF v v, of _ "[]" 5 "[]"] by blast
qed

end
