(* ===== verification/HexTools.thy ===== *)
theory HexTools
  imports Encoding
begin

text \<open>
  The byte-level helpers of \<open>src/verified/src/lib.rs\<close>: case-insensitive comparison, hexadecimal
  and decimal parsing, constant-time and plain equality, bounds-checked reads and searches. Every
  loop is modelled with its index; the lemmas give its closed form.
\<close>

section \<open>Case-insensitive comparison\<close>

definition spec_ascii_lower :: "u8 \<Rightarrow> u8" where
  "spec_ascii_lower b = (if b \<ge> 0x41 \<and> b \<le> 0x5A then b + 32 else b)"

definition ascii_lower :: "u8 \<Rightarrow> u8" where
  "ascii_lower b = (if b \<ge> 0x41 \<and> b \<le> 0x5A then b + 32 else b)"

function eq_ignore_loop :: "bytes \<Rightarrow> bytes \<Rightarrow> nat \<Rightarrow> bool" where
  "eq_ignore_loop a b i =
     (if i < length a then
        if ascii_lower (a ! i) \<noteq> ascii_lower (b ! i) then False else eq_ignore_loop a b (i + 1)
      else True)"
  by pat_completeness auto
termination by (relation "measure (\<lambda>(a, b, i). length a - i)") auto

declare eq_ignore_loop.simps [simp del]

definition eq_ignore_ascii_case :: "bytes \<Rightarrow> bytes \<Rightarrow> bool" where
  "eq_ignore_ascii_case a b = (if length a \<noteq> length b then False else eq_ignore_loop a b 0)"

definition spec_hex_eq :: "bytes \<Rightarrow> bytes \<Rightarrow> bool" where
  "spec_hex_eq a b \<longleftrightarrow> map spec_ascii_lower a = map spec_ascii_lower b"

lemma ascii_lower_spec [refines]: "ascii_lower b = spec_ascii_lower b"
  by (simp add: ascii_lower_def spec_ascii_lower_def)

lemma eq_ignore_loop_all [loops]:
  "eq_ignore_loop a b i \<longleftrightarrow> (\<forall>j < length a. i \<le> j \<longrightarrow> ascii_lower (a ! j) = ascii_lower (b ! j))"
  by (rule scan_forall) (subst eq_ignore_loop.simps, simp)

lemma eq_ignore_ascii_case_spec [refines]: "eq_ignore_ascii_case a b = spec_hex_eq a b"
  by (auto simp: eq_ignore_ascii_case_def spec_hex_eq_def loops refines list_eq_iff_nth_eq)

lemma spec_hex_eq_refl [simp]: "spec_hex_eq a a"
  by (simp add: spec_hex_eq_def)

lemma spec_hex_eq_length: "spec_hex_eq a b \<Longrightarrow> length a = length b"
  unfolding spec_hex_eq_def by (metis length_map)

section \<open>Hexadecimal\<close>

definition spec_hex_val :: "u8 \<Rightarrow> u8 option" where
  "spec_hex_val c =
     (if c \<ge> 0x30 \<and> c \<le> 0x39 then Some (c - 0x30)
      else if c \<ge> 0x61 \<and> c \<le> 0x66 then Some (c - 0x61 + 10)
      else if c \<ge> 0x41 \<and> c \<le> 0x46 then Some (c - 0x41 + 10)
      else None)"

definition hex_val :: "u8 \<Rightarrow> u8 option" where
  "hex_val c =
     (if c \<ge> 0x30 \<and> c \<le> 0x39 then Some (c - 0x30)
      else if c \<ge> 0x61 \<and> c \<le> 0x66 then Some (c - 0x61 + 10)
      else if c \<ge> 0x41 \<and> c \<le> 0x46 then Some (c - 0x41 + 10)
      else None)"

definition spec_all_hex :: "bytes \<Rightarrow> bool" where
  "spec_all_hex s = list_all (\<lambda>c. spec_hex_val c \<noteq> None) s"

function hex_loop :: "bytes \<Rightarrow> bytes \<Rightarrow> nat \<Rightarrow> bytes option" where
  "hex_loop s out i =
     (if i < 32 then
        (case (hex_val (s ! (2 * i)), hex_val (s ! (2 * i + 1))) of
           (Some h, Some l) \<Rightarrow> hex_loop s (out[i := h * 16 + l]) (i + 1)
         | _ \<Rightarrow> None)
      else Some out)"
  by pat_completeness auto
termination by (relation "measure (\<lambda>(s, out, i). 32 - i)") auto

declare hex_loop.simps [simp del]

definition hex_decode_32 :: "bytes \<Rightarrow> bytes option" where
  "hex_decode_32 s = (if length s \<noteq> 64 then None else hex_loop s (replicate 32 0) 0)"

lemma hex_val_spec [refines]: "hex_val c = spec_hex_val c"
  by (simp add: hex_val_def spec_hex_val_def)

text \<open>The reference decoder reads two digits at a time.\<close>

fun hex_pairs :: "bytes \<Rightarrow> bytes option" where
  "hex_pairs [] = Some []"
| "hex_pairs [c] = None"
| "hex_pairs (c # d # cs) =
     (case (spec_hex_val c, spec_hex_val d, hex_pairs cs) of
        (Some h, Some l, Some bs) \<Rightarrow> Some ((h * 16 + l) # bs)
      | _ \<Rightarrow> None)"

lemma hex_loop_pairs:
  assumes "length s = 64" "length out = 32" "i \<le> 32"
  shows "hex_loop s out i = map_option ((@) (take i out)) (hex_pairs (drop (2 * i) s))"
  using assms(2,3)
proof (induction "32 - i" arbitrary: out i)
  case 0
  then show ?case using assms(1) by (subst hex_loop.simps) simp
next
  case (Suc k)
  then have i: "i < 32" and l: "2 * i < length s" "2 * i + 1 < length s"
    using assms(1) by auto
  have d: "drop (2 * i) s = s ! (2 * i) # s ! (2 * i + 1) # drop (2 * (i + 1)) s"
    using l by (simp add: drop_nth_Cons)
  have t: "take (Suc i) (out[i := x]) = take i out @ [x]" for x
    using i Suc.prems by (simp add: take_Suc_nth)
  have IH: "hex_loop s (out[i := x]) (i + 1) =
      map_option ((@) (take i out @ [x])) (hex_pairs (drop (2 * (i + 1)) s))" for x
    using Suc.hyps(1) [of "i + 1" "out[i := x]"] Suc.hyps(2) Suc.prems i t by simp
  show ?case
    unfolding d using i IH
    by (subst hex_loop.simps) (auto simp: refines option.map_comp comp_def split: option.splits)
qed

lemma hex_decode_32_pairs [refines]:
  "hex_decode_32 s = (if length s = 64 then hex_pairs s else None)"
  by (cases "hex_pairs s") (simp_all add: hex_decode_32_def hex_loop_pairs)

lemma hex_pairs_Some: "hex_pairs s \<noteq> None \<longleftrightarrow> even (length s) \<and> spec_all_hex s"
  by (induction s rule: hex_pairs.induct) (auto simp: spec_all_hex_def split: option.splits)

lemma hex_pairs_length: "hex_pairs s = Some bs \<Longrightarrow> 2 * length bs = length s"
  by (induction s arbitrary: bs rule: hex_pairs.induct) (auto split: option.splits)

definition hex_digit :: "u8 \<Rightarrow> u8" where
  "hex_digit d = (if d < 10 then 0x30 + d else 0x61 + (d - 10))"

fun hex_lower :: "bytes \<Rightarrow> bytes" where
  "hex_lower [] = []"
| "hex_lower (b # bs) = hex_digit (b div 16) # hex_digit (b mod 16) # hex_lower bs"

lemma length_hex_lower [simp, lengths]: "length (hex_lower bs) = 2 * length bs"
  by (induction bs) auto

lemma hex_val_digit: "d < 16 \<Longrightarrow> spec_hex_val (hex_digit d) = Some d"
proof (cases "d < 10")
  case True
  then have "unat (0x30 + d) = 48 + unat d" by (simp add: word_less_nat_alt unat_word_ariths)
  with True show ?thesis
    by (simp add: spec_hex_val_def hex_digit_def word_le_nat_alt word_less_nat_alt)
next
  case False
  moreover assume "d < 16"
  ultimately have "unat (0x57 + d) = 87 + unat d" "10 \<le> unat d" "unat d < 16"
    by (simp_all add: word_less_nat_alt unat_word_ariths)
  with False show ?thesis
    by (simp add: spec_hex_val_def hex_digit_def word_le_nat_alt)
qed

lemma byte_div_mod_16: "b div 16 < 16 \<and> b mod 16 < (16 :: u8) \<and> b div 16 * 16 + b mod 16 = b"
  using unat_u8_less [of b]
  by (simp add: word_less_nat_alt unat_div unat_mod less_mult_imp_div_less div_mult_mod_eq)

lemma byte_pair_16:
  assumes "h < 16" "l < (16 :: u8)"
  shows "(h * 16 + l) div 16 = h" "(h * 16 + l) mod 16 = l"
proof -
  have n: "unat h < 16" "unat l < 16" using assms by (simp_all add: word_less_nat_alt)
  then have "unat (h * 16 + l) = unat h * 16 + unat l"
    by (simp add: unat_word_ariths)
  with n show "(h * 16 + l) div 16 = h" "(h * 16 + l) mod 16 = l"
    by (simp_all add: word_unat_eq_iff unat_div unat_mod)
qed

lemma hex_pairs_lower: "hex_pairs (hex_lower bs) = Some bs"
  by (induction bs) (auto simp: hex_val_digit byte_div_mod_16)

lemma hex_digit_val: "spec_hex_val c = Some h \<Longrightarrow> h < 16 \<and> hex_digit h = spec_ascii_lower c"
  unfolding spec_hex_val_def hex_digit_def spec_ascii_lower_def by (auto split: if_splits; unat_arith)

lemma hex_val_lower_case [simp]: "spec_hex_val (spec_ascii_lower c) = spec_hex_val c"
proof (cases "0x41 \<le> c \<and> c \<le> 0x5A")
  case True
  then have "unat (c + 32) = unat c + 32" by (simp add: word_le_nat_alt unat_word_ariths)
  with True show ?thesis
    by (simp add: spec_hex_val_def spec_ascii_lower_def word_le_nat_alt)
qed (auto simp: spec_ascii_lower_def)

lemma hex_lower_of_pairs: "hex_pairs s = Some bs \<Longrightarrow> hex_lower bs = map spec_ascii_lower s"
  by (induction s arbitrary: bs rule: hex_pairs.induct)
    (auto simp: byte_pair_16 dest!: hex_digit_val split: option.splits)

lemma hex_pairs_lower_case: "hex_pairs (map spec_ascii_lower s) = hex_pairs s"
  by (induction s rule: hex_pairs.induct) auto

lemma hex_pairs_iff: "hex_pairs s = Some bs \<longleftrightarrow> map spec_ascii_lower s = hex_lower bs"
  by (metis hex_lower_of_pairs hex_pairs_lower hex_pairs_lower_case)

lemma lower_hex_lower [simp]: "map spec_ascii_lower (hex_lower bs) = hex_lower bs"
  using hex_pairs_iff hex_pairs_lower by blast

text \<open>\<open>hex_decode_32\<close> succeeds exactly on 64 hexadecimal digits, upper or lower case, and then
  returns the 32 bytes whose lower-case hexadecimal encoding is the input in lower case; in particular it
  inverts that encoding.\<close>
theorem hex_decode_32_correct:
  "(hex_decode_32 s \<noteq> None \<longleftrightarrow> length s = 64 \<and> spec_all_hex s) \<and>
   (hex_decode_32 s = Some bs \<longleftrightarrow> length bs = 32 \<and> spec_hex_eq s (hex_lower bs))"
  using hex_pairs_Some [of s] hex_pairs_length [of s bs] spec_hex_eq_length [of s "hex_lower bs"]
  by (auto simp: refines hex_pairs_iff spec_hex_eq_def)

lemma hex_decode_32_lower: "length bs = 32 \<Longrightarrow> hex_decode_32 (hex_lower bs) = Some bs"
  by (simp add: refines hex_pairs_lower)

lemma hex_decode_32_length: "hex_decode_32 s = Some bs \<Longrightarrow> length bs = 32"
  by (auto simp: refines dest: hex_pairs_length split: if_splits)

lemma hex_decode_32_all_hex: "hex_decode_32 s = Some bs \<Longrightarrow> spec_all_hex s"
  using hex_pairs_Some [of s] by (auto simp: refines split: if_splits)

section \<open>Decimal\<close>

function parse_dec_loop :: "bytes \<Rightarrow> u64 \<Rightarrow> nat \<Rightarrow> u64 option" where
  "parse_dec_loop s acc i =
     (if i < length s then
        (let c = s ! i in
         if c < 0x30 \<or> c > 0x39 then None
         else
           (let d = ucast (c - 0x30) in
            if acc > (0xFFFFFFFFFFFFFFFF - d) div 10 then None
            else parse_dec_loop s (acc * 10 + d) (i + 1)))
      else Some acc)"
  by pat_completeness auto
termination by (relation "measure (\<lambda>(s, acc, i). length s - i)") auto

declare parse_dec_loop.simps [simp del]

definition parse_u64_dec :: "bytes \<Rightarrow> u64 option" where
  "parse_u64_dec s = (if length s = 0 \<or> length s > 20 then None else parse_dec_loop s 0 0)"

lemma dec_val_mono: "a \<le> dec_val a s"
proof (induction s arbitrary: a)
  case (Cons c s)
  have "a \<le> a * 10 + unat (c - 48)" by simp
  also have "\<dots> \<le> dec_val (a * 10 + unat (c - 48)) s" by (rule Cons.IH)
  finally show ?case by simp
qed simp

lemma is_digit_range: "is_digit c \<longleftrightarrow> \<not> (c < 0x30 \<or> c > 0x39)"
  by (auto simp: is_digit_def)

lemma unat_digit_le: "is_digit c \<Longrightarrow> unat (c - 48) \<le> 9"
  unfolding is_digit_def by unat_arith

lemma unat_digit_u64: "unat (ucast (x :: u8) :: u64) = unat x"
  by (simp add: unsigned_ucast_eq take_bit_nat_eq_self unat_u8_less less_trans [OF unat_u8_less])

lemma digit_overflow:
  assumes "is_digit c"
  shows "acc > (0xFFFFFFFFFFFFFFFF - ucast (c - 0x30)) div (10 :: u64) \<longleftrightarrow>
    \<not> unat acc * 10 + unat (c - 48) < 2 ^ 64"
proof -
  let ?m = "unat (c - 48)"
  have m: "?m \<le> 9" using assms by (rule unat_digit_le)
  have "unat (0xFFFFFFFFFFFFFFFF - ucast (c - 0x30) :: u64) = 18446744073709551615 - ?m"
    using m by (subst unat_sub) (simp_all add: word_le_nat_alt unat_digit_u64)
  then have "acc > (0xFFFFFFFFFFFFFFFF - ucast (c - 0x30)) div 10 \<longleftrightarrow>
      (18446744073709551615 - ?m) div 10 < unat acc"
    by (simp add: word_less_nat_alt unat_div)
  also have "\<dots> \<longleftrightarrow> 18446744073709551615 - ?m < unat acc * 10"
    by (rule div_less_iff_less_mult) simp
  also have "\<dots> \<longleftrightarrow> \<not> unat acc * 10 + ?m < 2 ^ 64" using m by auto
  finally show ?thesis .
qed

lemma digit_acc:
  "unat acc * 10 + unat ((c :: u8) - 48) < 2 ^ 64 \<Longrightarrow>
   unat (acc * 10 + ucast (c - 48) :: u64) = unat acc * 10 + unat (c - 48)"
  by (simp add: unat_word_ariths unat_digit_u64)

lemma parse_dec_loop_val:
  "parse_dec_loop s acc i =
     (if list_all is_digit (drop i s) \<and> dec_val (unat acc) (drop i s) < 2 ^ 64
      then Some (of_nat (dec_val (unat acc) (drop i s))) else None)"
proof (induction s acc i rule: parse_dec_loop.induct)
  case (1 s acc i)
  show ?case
  proof (cases "i < length s \<and> is_digit (s ! i)")
    case False
    then show ?thesis
      by (subst parse_dec_loop.simps) (auto simp: drop_nth_Cons is_digit_range Let_def unat_u64_less)
  next
    case True
    let ?a = "unat acc * 10 + unat (s ! i - 48)"
    have d: "drop i s = s ! i # drop (i + 1) s" using True by (simp add: drop_nth_Cons)
    show ?thesis
    proof (cases "?a < 2 ^ 64")
      case False
      then have "\<not> dec_val ?a (drop (i + 1) s) < 2 ^ 64"
        using dec_val_mono [of ?a "drop (i + 1) s"] by simp
      then show ?thesis
        unfolding d using True False digit_overflow [of "s ! i" acc]
        by (subst parse_dec_loop.simps) (simp add: is_digit_range Let_def)
    next
      case a: True
      have "parse_dec_loop s acc i = parse_dec_loop s (acc * 10 + ucast (s ! i - 48)) (i + 1)"
        using True a digit_overflow [of "s ! i" acc]
        by (subst parse_dec_loop.simps) (simp add: is_digit_range Let_def)
      then show ?thesis
        unfolding d using 1 True a digit_overflow [of "s ! i" acc]
        by (simp add: digit_acc [OF a, simplified] is_digit_range Let_def)
    qed
  qed
qed

lemma parse_u64_dec_val [refines]:
  "parse_u64_dec s =
     (if s \<noteq> [] \<and> length s \<le> 20 \<and> list_all is_digit s \<and> dec_val 0 s < 2 ^ 64
      then Some (of_nat (dec_val 0 s)) else None)"
  by (auto simp: parse_u64_dec_def parse_dec_loop_val)

lemma length_dec: "n < 10 ^ k \<Longrightarrow> 0 < k \<Longrightarrow> length (dec n) \<le> k"
proof (induction k arbitrary: n)
  case (Suc k)
  show ?case
  proof (cases "n < 10")
    case True
    then show ?thesis by (subst dec.simps) simp
  next
    case False
    then have k: "0 < k" using Suc.prems by (cases k) auto
    have "n div 10 < 10 ^ k" using Suc.prems by (simp add: less_mult_imp_div_less mult.commute)
    then have "length (dec (n div 10)) \<le> k" using Suc.IH k by blast
    then show ?thesis using False by (subst dec.simps) simp
  qed
qed simp

lemma length_dec_u64: "length (dec_u64 n) \<le> 20"
proof -
  have "unat n < 10 ^ 20" using unat_u64_less [of n] by simp
  then show ?thesis by (simp add: dec_u64_def length_dec)
qed

lemma parse_u64_dec_dec: "parse_u64_dec (dec_u64 n) = Some n"
proof -
  have "unat n < 2 ^ 64" using unat_u64_less [of n] by simp
  then show ?thesis
    using length_dec_u64 [of n] by (simp add: refines dec_u64_def dec_digits dec_val_dec)
qed

text \<open>\<open>parse_u64_dec\<close> returns \<open>n\<close> exactly when its input is 1 to 20 decimal digits with
  value \<open>n\<close> (so it never wraps around), and it inverts decimal printing of every 64-bit number.\<close>
theorem parse_u64_dec_correct:
  "(parse_u64_dec s = Some n \<longleftrightarrow>
      s \<noteq> [] \<and> length s \<le> 20 \<and> list_all is_digit s \<and> dec_val 0 s = unat n) \<and>
   parse_u64_dec (dec_u64 m) = Some m"
proof -
  have "v < 2 ^ 64 \<and> of_nat v = n \<longleftrightarrow> v = unat n" for v
    using unat_u64_less [of n] unat_of_nat_u64 [of v] by auto
  then show ?thesis using parse_u64_dec_dec by (auto simp: refines)
qed

section \<open>Comparisons, reads and searches\<close>

function slices_loop :: "bytes \<Rightarrow> bytes \<Rightarrow> nat \<Rightarrow> bool" where
  "slices_loop a b i =
     (if i < length a then if a ! i \<noteq> b ! i then False else slices_loop a b (i + 1) else True)"
  by pat_completeness auto
termination by (relation "measure (\<lambda>(a, b, i). length a - i)") auto

declare slices_loop.simps [simp del]

definition slices_eq :: "bytes \<Rightarrow> bytes \<Rightarrow> bool" where
  "slices_eq a b = (if length a \<noteq> length b then False else slices_loop a b 0)"

lemma slices_eq_spec [refines]: "slices_eq a b \<longleftrightarrow> a = b"
proof -
  have "slices_loop a b i \<longleftrightarrow> (\<forall>j < length a. i \<le> j \<longrightarrow> a ! j = b ! j)" for i
    by (rule scan_forall) (subst slices_loop.simps, simp)
  then show ?thesis by (auto simp: slices_eq_def list_eq_iff_nth_eq)
qed

text \<open>\<open>ct_eq_32\<close> accumulates the differences instead of returning early.\<close>

function ct_loop :: "bytes \<Rightarrow> bytes \<Rightarrow> u8 \<Rightarrow> nat \<Rightarrow> u8" where
  "ct_loop a b diff i =
     (if i < 32 then ct_loop a b (diff OR (a ! i XOR b ! i)) (i + 1) else diff)"
  by pat_completeness auto
termination by (relation "measure (\<lambda>(a, b, diff, i). 32 - i)") auto

declare ct_loop.simps [simp del]

definition ct_eq_32 :: "bytes \<Rightarrow> bytes \<Rightarrow> bool" where
  "ct_eq_32 a b \<longleftrightarrow> ct_loop a b 0 0 = 0"

lemma or_xor_zero: "d OR (x XOR y) = 0 \<longleftrightarrow> d = 0 \<and> x = (y :: u8)"
  by (metis or_eq_0_iff xor.left_neutral xor.right_neutral xor_self_eq xor.assoc)

lemma ct_loop_zero: "ct_loop a b d i = 0 \<longleftrightarrow> d = 0 \<and> (\<forall>j < 32. i \<le> j \<longrightarrow> a ! j = b ! j)"
proof (induction a b d i rule: ct_loop.induct)
  case (1 a b d i)
  show ?case
  proof (cases "i < 32")
    case True
    then show ?thesis
      using 1 by (subst ct_loop.simps) (auto simp: or_xor_zero Suc_le_eq le_less)
  next
    case False
    then show ?thesis by (subst ct_loop.simps) auto
  qed
qed

lemma ct_eq_32_spec: "length a = 32 \<Longrightarrow> length b = 32 \<Longrightarrow> ct_eq_32 a b \<longleftrightarrow> a = b"
  by (auto simp: ct_eq_32_def ct_loop_zero list_eq_iff_nth_eq)

function zero_loop :: "bytes \<Rightarrow> nat \<Rightarrow> bool" where
  "zero_loop s i =
     (if i < length s then if s ! i \<noteq> 48 then False else zero_loop s (i + 1) else True)"
  by pat_completeness auto
termination by (relation "measure (\<lambda>(s, i). length s - i)") auto

declare zero_loop.simps [simp del]

definition is_zero_hash :: "bytes \<Rightarrow> bool" where
  "is_zero_hash s = (if length s = 0 then False else zero_loop s 0)"

definition spec_is_zero_hash :: "bytes \<Rightarrow> bool" where
  "spec_is_zero_hash s \<longleftrightarrow> length s > 0 \<and> list_all (\<lambda>b. b = 48) s"

lemma is_zero_hash_spec [refines]: "is_zero_hash s = spec_is_zero_hash s"
proof -
  have "zero_loop s 0 = list_all (\<lambda>b. b = 48) s"
    by (rule scan_list_all) (subst zero_loop.simps, simp)
  then show ?thesis by (simp add: is_zero_hash_def spec_is_zero_hash_def)
qed

definition read_u16_be :: "bytes \<Rightarrow> nat \<Rightarrow> u16 option" where
  "read_u16_be buf off =
     (if off > length buf \<or> length buf - off < 2 then None
      else Some (ucast (buf ! off) * 256 + ucast (buf ! (off + 1))))"

definition read_u32_be :: "bytes \<Rightarrow> nat \<Rightarrow> u32 option" where
  "read_u32_be buf off =
     (if off > length buf \<or> length buf - off < 4 then None
      else Some (ucast (buf ! off) * 16777216 + ucast (buf ! (off + 1)) * 65536
                 + ucast (buf ! (off + 2)) * 256 + ucast (buf ! (off + 3))))"

definition advance_within :: "nat \<Rightarrow> nat \<Rightarrow> nat \<Rightarrow> nat option" where
  "advance_within off by' len = (if off > len \<or> len - off < by' then None else Some (off + by'))"

lemma read_u16_be_Some [simp]: "read_u16_be buf off \<noteq> None \<longleftrightarrow> off + 2 \<le> length buf"
  by (auto simp: read_u16_be_def)

lemma read_u32_be_Some [simp]: "read_u32_be buf off \<noteq> None \<longleftrightarrow> off + 4 \<le> length buf"
  by (auto simp: read_u32_be_def)

lemma advance_within_Some [simp]: "advance_within off n len = Some k \<longleftrightarrow> k = off + n \<and> off + n \<le> len"
  by (auto simp: advance_within_def)

function find_byte :: "bytes \<Rightarrow> u8 \<Rightarrow> nat \<Rightarrow> nat option" where
  "find_byte hay needle i =
     (if i < length hay then if hay ! i = needle then Some i else find_byte hay needle (i + 1)
      else None)"
  by pat_completeness auto
termination by (relation "measure (\<lambda>(hay, needle, i). length hay - i)") auto

declare find_byte.simps [simp del]

lemma find_byte_least:
  "case find_byte hay b i of
     Some k \<Rightarrow> i \<le> k \<and> k < length hay \<and> hay ! k = b \<and> (\<forall>j. i \<le> j \<and> j < k \<longrightarrow> hay ! j \<noteq> b)
   | None \<Rightarrow> \<forall>j < length hay. i \<le> j \<longrightarrow> hay ! j \<noteq> b"
proof (induction hay b i rule: find_byte.induct)
  case (1 hay b i)
  show ?case
  proof (cases "i < length hay \<and> hay ! i \<noteq> b")
    case True
    then have e: "find_byte hay b i = find_byte hay b (i + 1)"
      by (subst find_byte.simps) simp
    show ?thesis
      unfolding e using 1 True
      by (auto split: option.splits simp: Suc_le_eq) (metis le_neq_implies_less)+
  next
    case False
    then show ?thesis by (subst find_byte.simps) auto
  qed
qed

function is_hex_loop :: "bytes \<Rightarrow> nat \<Rightarrow> bool" where
  "is_hex_loop s i =
     (if i < length s then if hex_val (s ! i) = None then False else is_hex_loop s (i + 1) else True)"
  by pat_completeness auto
termination by (relation "measure (\<lambda>(s, i). length s - i)") auto

declare is_hex_loop.simps [simp del]

definition is_hex_of_len :: "bytes \<Rightarrow> nat \<Rightarrow> bool" where
  "is_hex_of_len s n = (if length s \<noteq> n then False else is_hex_loop s 0)"

lemma is_hex_of_len_spec [refines]: "is_hex_of_len s n \<longleftrightarrow> length s = n \<and> spec_all_hex s"
proof -
  have "is_hex_loop s 0 = list_all (\<lambda>c. spec_hex_val c \<noteq> None) s"
    by (rule scan_list_all) (subst is_hex_loop.simps, simp add: refines)
  then show ?thesis by (auto simp: is_hex_of_len_def spec_all_hex_def)
qed

text \<open>Hexadecimal text is printable ASCII.\<close>

lemma hex_digit_range: "d < 16 \<Longrightarrow> graphic (hex_digit d) \<and> hex_digit d < 0x80 \<and> hex_digit d \<noteq> 120"
proof -
  have "list_all (\<lambda>d :: u8. d < 16 \<longrightarrow> graphic (hex_digit d) \<and> hex_digit d < 0x80 \<and> hex_digit d \<noteq> 120)
      (map of_nat [0..<256])" by code_simp
  from all_bytes [OF this, of d] show "d < 16 \<Longrightarrow> ?thesis" by blast
qed

lemma hex_lower_range: "c \<in> set (hex_lower v) \<Longrightarrow> graphic c \<and> c < 0x80 \<and> c \<noteq> 120"
  by (induction v) (auto simp: hex_digit_range byte_div_mod_16)

end
