(* ===== verification/Admission.thy ===== *)
theory Admission
  imports HexTools
begin

text \<open>
  The admission decisions of \<open>src/verified/src/lib.rs\<close>: the boot verdict over measured state, the
  verdict on one step of a signed energy chain, the tag verdict, the decision how to resume a
  stored chain, the parser of signed anchor lines and the choice of the collector's measurement.
\<close>

section \<open>Boot\<close>

datatype BootDenial = NoBinaryHashInLog | Pcr10Zero | ImaLogNotReconciled
  | ExpectedStateUnavailable | BinaryHashMismatch | Pcr0Mismatch | Pcr7Mismatch

record BootAdmitted =
  ba_seal :: u8

definition spec_boot_admissible ::
  "bytes \<Rightarrow> bytes \<Rightarrow> bytes \<Rightarrow> bytes \<Rightarrow> bytes \<Rightarrow> bytes \<Rightarrow> bool \<Rightarrow> bool \<Rightarrow> bool \<Rightarrow> bool" where
  "spec_boot_admissible pcr0 pcr7 bin exp_pcr0 exp_pcr7 exp_bin pcr10_nonzero ima_log_reconciled
     have_expected \<longleftrightarrow>
     length bin > 0 \<and> pcr10_nonzero \<and> ima_log_reconciled \<and> have_expected \<and>
     spec_hex_eq bin exp_bin \<and>
     (length exp_pcr0 = 0 \<or> spec_hex_eq pcr0 exp_pcr0) \<and>
     (length exp_pcr7 = 0 \<or> spec_hex_eq pcr7 exp_pcr7)"

definition admit_boot ::
  "bytes \<Rightarrow> bytes \<Rightarrow> bytes \<Rightarrow> bytes \<Rightarrow> bytes \<Rightarrow> bytes \<Rightarrow> bool \<Rightarrow> bool \<Rightarrow> bool \<Rightarrow>
   (BootDenial, BootAdmitted) result" where
  "admit_boot pcr0 pcr7 bin exp_pcr0 exp_pcr7 exp_bin pcr10_nonzero ima_log_reconciled
     have_expected =
     (if \<not> pcr10_nonzero then Err Pcr10Zero
      else if \<not> ima_log_reconciled then Err ImaLogNotReconciled
      else if \<not> have_expected then Err ExpectedStateUnavailable
      else if length bin = 0 then Err NoBinaryHashInLog
      else if \<not> eq_ignore_ascii_case bin exp_bin then Err BinaryHashMismatch
      else if length exp_pcr0 \<noteq> 0 \<and> \<not> eq_ignore_ascii_case pcr0 exp_pcr0 then Err Pcr0Mismatch
      else if length exp_pcr7 \<noteq> 0 \<and> \<not> eq_ignore_ascii_case pcr7 exp_pcr7 then Err Pcr7Mismatch
      else Ok \<lparr>ba_seal = 0\<rparr>)"

definition boot_success_code :: "BootAdmitted \<Rightarrow> int" where
  "boot_success_code t = 0"

fun boot_denial_code :: "BootDenial \<Rightarrow> int" where
  "boot_denial_code NoBinaryHashInLog = -4"
| "boot_denial_code Pcr10Zero = -2"
| "boot_denial_code ImaLogNotReconciled = -9"
| "boot_denial_code ExpectedStateUnavailable = -5"
| "boot_denial_code BinaryHashMismatch = -6"
| "boot_denial_code Pcr0Mismatch = -7"
| "boot_denial_code Pcr7Mismatch = -8"

lemma boot_denial_code_neg [simp]: "boot_denial_code d < 0"
  by (cases d) simp_all

lemma boot_denial_code_nonzero [simp]: "boot_denial_code d \<noteq> 0"
  by (cases d) simp_all

definition boot_status :: "(BootDenial, BootAdmitted) result \<Rightarrow> int" where
  "boot_status r = (case r of Ok t \<Rightarrow> boot_success_code t | Err d \<Rightarrow> boot_denial_code d)"

lemma boot_status_zero: "boot_status r = 0 \<longleftrightarrow> is_ok r"
  by (cases r) (simp_all add: boot_status_def boot_success_code_def)

lemma admit_boot_ok [refines]:
  "is_ok (admit_boot p0 p7 b e0 e7 eb nz rc he) = spec_boot_admissible p0 p7 b e0 e7 eb nz rc he"
  by (auto simp: admit_boot_def spec_boot_admissible_def refines)

text \<open>The boot verdict is success exactly when the specification admits the measured state: PCR10 is
  not zero, the log was reconciled against it, the expected state was fetched, the collector was found in
  the log with the registered hash, and each registered PCR0/PCR7 value matches (an empty registered value
  is not compared); success is the only verdict with status code 0, and every denial code is negative.\<close>
theorem admit_boot_correct:
  "(is_ok (admit_boot p0 p7 b e0 e7 eb nz rc he) \<longleftrightarrow> spec_boot_admissible p0 p7 b e0 e7 eb nz rc he) \<and>
   (boot_status (admit_boot p0 p7 b e0 e7 eb nz rc he) = 0 \<longleftrightarrow>
      spec_boot_admissible p0 p7 b e0 e7 eb nz rc he) \<and>
   boot_status (admit_boot p0 p7 b e0 e7 eb nz rc he) \<in> {0, -2, -4, -5, -6, -7, -8, -9}"
proof (intro conjI)
  show "boot_status (admit_boot p0 p7 b e0 e7 eb nz rc he) \<in> {0, -2, -4, -5, -6, -7, -8, -9}"
    by (simp add: admit_boot_def boot_status_def boot_success_code_def)
qed (simp_all add: boot_status_zero refines)

section \<open>Energy-chain steps\<close>

datatype ChainDenial = MacMismatch | EnergyChangedUnderSameCounter | CounterRollback
  | CounterDiscontinuity | CumulativeEnergyMismatch | PrevHashMismatch

datatype ChainVerdict = Accept | IdempotentSkip | Reject ChainDenial

record ChainAdmitted =
  ca_seal :: u8

definition spec_sat_add :: "u64 \<Rightarrow> u64 \<Rightarrow> nat" where
  "spec_sat_add a b =
     (if unat a + unat b > 18446744073709551615 then 18446744073709551615 else unat a + unat b)"

definition spec_chain_step_acceptable ::
  "bool \<Rightarrow> bool \<Rightarrow> bool \<Rightarrow> u64 \<Rightarrow> u64 \<Rightarrow> u64 \<Rightarrow> u64 \<Rightarrow> u64 \<Rightarrow> bool" where
  "spec_chain_step_acceptable mac_ok prev_hash_ok initialized stored_counter stored_energy
     incoming_counter incoming_energy incoming_delta \<longleftrightarrow>
     mac_ok \<and>
     (initialized \<longrightarrow>
        unat incoming_counter = unat stored_counter + 1 \<and>
        unat incoming_energy = spec_sat_add stored_energy incoming_delta \<and> prev_hash_ok)"

definition admit_chain_step ::
  "bool \<Rightarrow> bool \<Rightarrow> bool \<Rightarrow> u64 \<Rightarrow> u64 \<Rightarrow> u64 \<Rightarrow> u64 \<Rightarrow> u64 \<Rightarrow> ChainVerdict" where
  "admit_chain_step mac_ok prev_hash_ok initialized stored_counter stored_energy
     incoming_counter incoming_energy incoming_delta =
     (if \<not> mac_ok then Reject MacMismatch
      else if \<not> initialized then Accept
      else if incoming_counter = stored_counter then
        (if incoming_energy \<noteq> stored_energy then Reject EnergyChangedUnderSameCounter
         else IdempotentSkip)
      else if incoming_counter < stored_counter then Reject CounterRollback
      else if incoming_counter \<noteq> stored_counter + 1 then Reject CounterDiscontinuity
      else
        (let expected_energy =
           (if stored_energy > 0xFFFFFFFFFFFFFFFF - incoming_delta then 0xFFFFFFFFFFFFFFFF
            else stored_energy + incoming_delta)
         in if incoming_energy \<noteq> expected_energy then Reject CumulativeEnergyMismatch
            else if \<not> prev_hash_ok then Reject PrevHashMismatch
            else Accept))"

fun chain_denial_code :: "ChainDenial \<Rightarrow> int" where
  "chain_denial_code MacMismatch = -2"
| "chain_denial_code EnergyChangedUnderSameCounter = -2"
| "chain_denial_code CumulativeEnergyMismatch = -2"
| "chain_denial_code CounterRollback = -3"
| "chain_denial_code CounterDiscontinuity = -3"
| "chain_denial_code PrevHashMismatch = -4"

fun chain_admitted :: "ChainVerdict \<Rightarrow> ChainAdmitted option" where
  "chain_admitted Accept = Some \<lparr>ca_seal = 0\<rparr>"
| "chain_admitted IdempotentSkip = None"
| "chain_admitted (Reject d) = None"

lemma chain_denial_code_neg [simp]: "chain_denial_code d < 0"
  by (cases d) simp_all

lemma unat_expected_energy:
  "unat (if s > 0xFFFFFFFFFFFFFFFF - d then 0xFFFFFFFFFFFFFFFF else s + d :: u64) = spec_sat_add s d"
proof -
  have "unat (0xFFFFFFFFFFFFFFFF - d) = 18446744073709551615 - unat d"
    using unat_u64_less [of d] by (subst unat_sub) (simp_all add: word_le_nat_alt)
  then show ?thesis
    using unat_u64_less [of d]
    by (auto simp: spec_sat_add_def word_less_nat_alt unat_word_ariths)
qed

lemma next_counter:
  "i \<noteq> s \<and> \<not> i < s \<and> i = s + 1 \<longleftrightarrow> unat i = unat s + 1" for i s :: u64
  using unat_u64_less [of i] unat_u64_less [of s]
  by (auto simp: word_less_nat_alt word_unat_eq_iff unat_word_ariths)

lemma admit_chain_step_accept [refines]:
  "admit_chain_step m p n sc se ic ie d = Accept \<longleftrightarrow> spec_chain_step_acceptable m p n sc se ic ie d"
proof -
  let ?x = "if se > 0xFFFFFFFFFFFFFFFF - d then 0xFFFFFFFFFFFFFFFF else se + d"
  have "admit_chain_step m p n sc se ic ie d = Accept \<longleftrightarrow>
      m \<and> (n \<longrightarrow> (ic \<noteq> sc \<and> \<not> ic < sc \<and> ic = sc + 1) \<and> ie = ?x \<and> p)"
    unfolding admit_chain_step_def Let_def by (auto split del: if_split split: if_splits)
  then show ?thesis
    unfolding next_counter spec_chain_step_acceptable_def
    by (simp only: word_unat_eq_iff [of ie] unat_expected_energy)
qed

text \<open>A chain step is accepted exactly when the specification admits it (valid MAC, and for an
  initialised chain the next counter, the saturated cumulative energy and the linked hash); a replay of
  the current step is skipped exactly when MAC, counter and energy agree; an unauthenticated step is
  always refused; and each denial has the documented status code.\<close>
theorem admit_chain_step_correct:
  "(admit_chain_step m p n sc se ic ie d = Accept \<longleftrightarrow> spec_chain_step_acceptable m p n sc se ic ie d) \<and>
   (chain_admitted (admit_chain_step m p n sc se ic ie d) \<noteq> None \<longleftrightarrow>
      spec_chain_step_acceptable m p n sc se ic ie d) \<and>
   (admit_chain_step m p n sc se ic ie d = IdempotentSkip \<longleftrightarrow> m \<and> n \<and> ic = sc \<and> ie = se) \<and>
   (admit_chain_step False p n sc se ic ie d = Reject MacMismatch) \<and>
   (\<forall>x. chain_denial_code x \<in> {-2, -3, -4})"
proof (intro conjI)
  show "chain_admitted (admit_chain_step m p n sc se ic ie d) \<noteq> None \<longleftrightarrow>
      spec_chain_step_acceptable m p n sc se ic ie d"
    unfolding admit_chain_step_accept [symmetric]
    by (cases "admit_chain_step m p n sc se ic ie d") simp_all
  show "admit_chain_step m p n sc se ic ie d = IdempotentSkip \<longleftrightarrow> m \<and> n \<and> ic = sc \<and> ie = se"
    unfolding admit_chain_step_def Let_def by auto
  show "\<forall>x. chain_denial_code x \<in> {-2, -3, -4}"
    using chain_denial_code.elims by blast
  show "admit_chain_step False p n sc se ic ie d = Reject MacMismatch"
    by (simp add: admit_chain_step_def)
qed (rule admit_chain_step_accept)

text \<open>The verdict on a measurement tag.\<close>

record TagAdmitted =
  ta_seal :: u8

definition admit_measurement_tag :: "u64 \<Rightarrow> u64 \<Rightarrow> TagAdmitted option" where
  "admit_measurement_tag claimed recomputed =
     (if claimed = recomputed then Some \<lparr>ta_seal = 0\<rparr> else None)"

section \<open>Resuming a stored chain\<close>

datatype RefusalReason = AnchorStorageMismatch | MissingAnchor | MissingBlocks

datatype ResumeDecision = Fresh | Resume u64 | Refuse RefusalReason

definition decide_resume :: "bool \<Rightarrow> u64 \<Rightarrow> bool \<Rightarrow> u64 \<Rightarrow> bool \<Rightarrow> ResumeDecision" where
  "decide_resume have_anchor anchor_block have_stored stored_block roots_equal =
     (if have_anchor \<and> have_stored then
        (if anchor_block \<noteq> stored_block \<or> \<not> roots_equal then Refuse AnchorStorageMismatch
         else Resume anchor_block)
      else if have_stored then Refuse MissingAnchor
      else if have_anchor then Refuse MissingBlocks
      else Fresh)"

lemma decide_resume_Resume:
  "decide_resume ha a hs s eq = Resume b \<longleftrightarrow> ha \<and> hs \<and> a = s \<and> eq \<and> b = a"
  by (auto simp: decide_resume_def)

lemma decide_resume_Fresh: "decide_resume ha a hs s eq = Fresh \<longleftrightarrow> \<not> ha \<and> \<not> hs"
  by (auto simp: decide_resume_def)

text \<open>A chain is resumed exactly when a signed anchor and a stored block exist, for the same block
  number and the same root; it starts afresh exactly when neither exists; every other combination is
  refused, with the reason that names what is missing or wrong.\<close>
theorem decide_resume_correct:
  "decide_resume ha a hs s eq =
     (case (ha, hs) of
        (True, True) \<Rightarrow> if a = s \<and> eq then Resume s else Refuse AnchorStorageMismatch
      | (False, True) \<Rightarrow> Refuse MissingAnchor
      | (True, False) \<Rightarrow> Refuse MissingBlocks
      | (False, False) \<Rightarrow> Fresh)"
  by (auto simp: decide_resume_def split: bool.splits)

section \<open>Anchor lines\<close>

record ParsedAnchor =
  pa_block_number :: u64
  pa_root :: bytes
  pa_sig :: bytes

definition anchor_tag_bytes :: bytes where
  "anchor_tag_bytes = [0x63, 0x68, 0x65, 0x63, 0x6B, 0x70, 0x6F, 0x69, 0x6E, 0x74, 0x2D, 0x76, 0x31]"

text \<open>The scan for separators: \<open>None\<close> as soon as a fifth one is met.\<close>

function sep_loop :: "bytes \<Rightarrow> nat list \<Rightarrow> nat \<Rightarrow> nat \<Rightarrow> (nat list \<times> nat) option" where
  "sep_loop line seps nsep i =
     (if i < length line then
        (if line ! i = 0x7C then
           (if nsep \<ge> 4 then None else sep_loop line (seps[nsep := i]) (nsep + 1) (i + 1))
         else sep_loop line seps nsep (i + 1))
      else Some (seps, nsep))"
  by pat_completeness auto
termination by (relation "measure (\<lambda>(line, seps, nsep, i). length line - i)") auto

declare sep_loop.simps [simp del]

definition parse_checkpoint_line :: "bytes \<Rightarrow> bytes \<Rightarrow> ParsedAnchor option" where
  "parse_checkpoint_line line tenant =
     (case sep_loop line [0, 0, 0, 0] 0 0 of
        None \<Rightarrow> None
      | Some (seps, nsep) \<Rightarrow>
          if nsep \<noteq> 4 then None
          else
            (let s0 = seps ! 0; s1 = seps ! 1; s2 = seps ! 2; s3 = seps ! 3 in
             if \<not> (s0 < s1 \<and> s1 < s2 \<and> s2 < s3 \<and> s3 < length line) then None
             else
               (let f_tag = slice line 0 s0;
                    f_tenant = slice line (s0 + 1) s1;
                    f_block = slice line (s1 + 1) s2;
                    f_root = slice line (s2 + 1) s3;
                    f_sig = slice line (s3 + 1) (length line)
                in if \<not> slices_eq f_tag anchor_tag_bytes then None
                   else if \<not> slices_eq f_tenant tenant then None
                   else case parse_u64_dec f_block of None \<Rightarrow> None | Some block_number \<Rightarrow>
                        case hex_decode_32 f_root of None \<Rightarrow> None | Some root \<Rightarrow>
                        case hex_decode_32 f_sig of None \<Rightarrow> None | Some sig \<Rightarrow>
                          Some \<lparr>pa_block_number = block_number, pa_root = root, pa_sig = sig\<rparr>)))"

lemma sep_loop_skip:
  "0x7C \<notin> set chunk \<Longrightarrow>
   sep_loop (pre @ chunk @ rest) seps n (length pre) =
   sep_loop (pre @ chunk @ rest) seps n (length pre + length chunk)"
proof (induction chunk arbitrary: pre)
  case (Cons c chunk)
  then show ?case using Cons.IH [of "pre @ [c]"]
    by (subst sep_loop.simps) (simp add: nth_append)
qed simp

lemma sep_loop_field:
  assumes "line = pre @ f @ 0x7C # rest" "i = length pre" "0x7C \<notin> set f" "n < 4"
    and "k = i + length f"
  shows "sep_loop line seps n i = sep_loop line (seps[n := k]) (n + 1) (k + 1)"
proof -
  have "sep_loop line seps n i = sep_loop line seps n k"
    using sep_loop_skip [of f pre "0x7C # rest" seps n] assms by simp
  also have "\<dots> = sep_loop line (seps[n := k]) (n + 1) (k + 1)"
    using assms by (subst sep_loop.simps) (simp add: nth_append)
  finally show ?thesis .
qed

lemma sep_loop_count:
  "sep_loop line seps n i = Some (q, m) \<Longrightarrow> m = n + count_list (drop i line) 0x7C"
proof (induction line seps n i arbitrary: q m rule: sep_loop.induct)
  case (1 line seps n i)
  show ?case
  proof (cases "i < length line")
    case True
    then have "drop i line = line ! i # drop (i + 1) line" by (simp add: drop_nth_Cons)
    then show ?thesis
      using 1(1,2) True 1(3) [unfolded sep_loop.simps [of line seps n i]]
      by (auto split: if_splits)
  next
    case False
    then show ?thesis using 1(3) by (subst (asm) sep_loop.simps) simp
  qed
qed

text \<open>On a line with exactly four separators the scan finds the five fields.\<close>

definition bars :: "bytes \<Rightarrow> bytes \<Rightarrow> bytes \<Rightarrow> bytes \<Rightarrow> bytes \<Rightarrow> bytes" where
  "bars a b c d e = a @ 0x7C # b @ 0x7C # c @ 0x7C # d @ 0x7C # e"

lemma sep_loop_bars:
  assumes "0x7C \<notin> set a" "0x7C \<notin> set b" "0x7C \<notin> set c" "0x7C \<notin> set d" "0x7C \<notin> set e"
    and "i = length a" "j = i + 1 + length b" "k = j + 1 + length c" "m = k + 1 + length d"
  shows "sep_loop (bars a b c d e) [0, 0, 0, 0] 0 0 = Some ([i, j, k, m], 4)"
proof -
  let ?l = "bars a b c d e"
  have 1: "sep_loop ?l [0, 0, 0, 0] 0 0 = sep_loop ?l [i, 0, 0, 0] 1 (i + 1)"
    using sep_loop_field [where pre = "[]" and f = a and i = 0 and k = i] assms(1,6)
    by (simp add: bars_def)
  have 2: "sep_loop ?l [i, 0, 0, 0] 1 (i + 1) = sep_loop ?l [i, j, 0, 0] 2 (j + 1)"
    using sep_loop_field [of ?l "a @ [0x7C]" b "c @ 0x7C # d @ 0x7C # e" "i + 1" 1 j "[i, 0, 0, 0]"]
      assms(2,6,7) by (simp add: bars_def numeral_2_eq_2)
  have 3: "sep_loop ?l [i, j, 0, 0] 2 (j + 1) = sep_loop ?l [i, j, k, 0] 3 (k + 1)"
    using sep_loop_field [of ?l "a @ 0x7C # b @ [0x7C]" c "d @ 0x7C # e" "j + 1" 2 k "[i, j, 0, 0]"]
      assms(3,6-8) by (simp add: bars_def)
  have 4: "sep_loop ?l [i, j, k, 0] 3 (k + 1) = sep_loop ?l [i, j, k, m] 4 (m + 1)"
    using sep_loop_field [of ?l "a @ 0x7C # b @ 0x7C # c @ [0x7C]" d "e" "k + 1" 3 m "[i, j, k, 0]"]
      assms(4,6-9) by (simp add: bars_def)
  have 5: "sep_loop ?l s 4 (m + 1) = sep_loop ?l s 4 (length ?l)" for s
    using sep_loop_skip [of e "a @ 0x7C # b @ 0x7C # c @ 0x7C # d @ [0x7C]" "[]" s 4] assms(5-9)
    by (simp add: bars_def add.assoc)
  have 6: "sep_loop ?l s 4 (length ?l) = Some (s, 4)" for s
    by (subst sep_loop.simps) simp
  show ?thesis unfolding 1 2 3 4 5 6 ..
qed

lemma slice_mid: "i = length a \<Longrightarrow> j = i + length b \<Longrightarrow> slice (a @ b @ c) i j = b"
  by (simp add: slice_def)

lemma parse_bars:
  assumes "0x7C \<notin> set a" "0x7C \<notin> set b" "0x7C \<notin> set c" "0x7C \<notin> set d" "0x7C \<notin> set e"
  shows "parse_checkpoint_line (bars a b c d e) tenant =
    (if a = anchor_tag_bytes \<and> b = tenant then
       (case (parse_u64_dec c, hex_decode_32 d, hex_decode_32 e) of
          (Some n, Some r, Some g) \<Rightarrow> Some \<lparr>pa_block_number = n, pa_root = r, pa_sig = g\<rparr>
        | _ \<Rightarrow> None)
     else None)"
proof -
  define i j k m where p: "i = length a" "j = i + 1 + length b" "k = j + 1 + length c"
    "m = k + 1 + length d"
  let ?l = "bars a b c d e"
  have "sep_loop ?l [0, 0, 0, 0] 0 0 = Some ([i, j, k, m], 4)"
    by (rule sep_loop_bars [OF assms p])
  moreover have "slice ?l 0 i = a" using p by (simp add: bars_def slice_def)
  moreover have "slice ?l (i + 1) j = b"
    using p slice_mid [of "i + 1" "a @ [0x7C]" j b] by (simp add: bars_def)
  moreover have "slice ?l (j + 1) k = c"
    using p slice_mid [of "j + 1" "a @ 0x7C # b @ [0x7C]" k c] by (simp add: bars_def)
  moreover have "slice ?l (k + 1) m = d"
    using p slice_mid [of "k + 1" "a @ 0x7C # b @ 0x7C # c @ [0x7C]" m d] by (simp add: bars_def)
  moreover have "slice ?l (m + 1) (length ?l) = e"
    using p slice_mid [of "m + 1" "a @ 0x7C # b @ 0x7C # c @ 0x7C # d @ [0x7C]" "length ?l" e "[]"]
    by (simp add: bars_def)
  moreover have "i < j \<and> j < k \<and> k < m \<and> m < length ?l" using p by (simp add: bars_def)
  ultimately show ?thesis
    by (simp add: parse_checkpoint_line_def Let_def refines del: hex_decode_32_pairs parse_u64_dec_val
        split: option.splits)
qed

lemma count_bars:
  assumes "count_list line (0x7C :: u8) = 4"
  obtains a b c d e where "line = bars a b c d e"
    "0x7C \<notin> set a" "0x7C \<notin> set b" "0x7C \<notin> set c" "0x7C \<notin> set d" "0x7C \<notin> set e"
proof -
  have step: "\<exists>p r. l = p @ 0x7C # r \<and> 0x7C \<notin> set p \<and> count_list r (0x7C :: u8) = n"
    if "count_list l (0x7C :: u8) = Suc n" for l n
  proof -
    have "(0x7C :: u8) \<in> set l" using that count_list_0_iff [of l] by force
    then obtain p r where "l = p @ 0x7C # r" "0x7C \<notin> set p" using split_list_first by metis
    then show ?thesis using that by auto
  qed
  obtain a l1 where "line = a @ 0x7C # l1" "0x7C \<notin> set a" "count_list l1 (0x7C :: u8) = 3"
    using step [of line 3] assms by auto
  moreover obtain b l2 where "l1 = b @ 0x7C # l2" "0x7C \<notin> set b" "count_list l2 (0x7C :: u8) = 2"
    using step [of l1 2] calculation by auto
  moreover obtain c l3 where "l2 = c @ 0x7C # l3" "0x7C \<notin> set c" "count_list l3 (0x7C :: u8) = 1"
    using step [of l2 1] calculation by auto
  moreover obtain d e where "l3 = d @ 0x7C # e" "0x7C \<notin> set d" "count_list e (0x7C :: u8) = 0"
    using step [of l3 0] calculation by auto
  ultimately show ?thesis using that [of a b c d e] by (simp add: bars_def count_list_0_iff)
qed

lemma no_bar_digits: "list_all is_digit s \<Longrightarrow> 0x7C \<notin> set s"
  by (auto simp: list_all_iff is_digit_def)

lemma no_bar_hex: "hex_decode_32 s = Some bs \<Longrightarrow> 0x7C \<notin> set s"
proof -
  assume "hex_decode_32 s = Some bs"
  then have "spec_all_hex s" by (rule hex_decode_32_all_hex)
  moreover have "spec_hex_val 0x7C = None" by (simp add: spec_hex_val_def)
  ultimately show "0x7C \<notin> set s" by (auto simp: spec_all_hex_def list_all_iff)
qed

lemma no_bar_tag: "0x7C \<notin> set anchor_tag_bytes"
  by (simp add: anchor_tag_bytes_def)

lemma parse_checkpoint_line_iff:
  "parse_checkpoint_line line tenant = Some a \<longleftrightarrow>
     (\<exists>blk r g. line = bars anchor_tag_bytes tenant blk r g \<and> 0x7C \<notin> set tenant \<and>
        parse_u64_dec blk = Some (pa_block_number a) \<and>
        hex_decode_32 r = Some (pa_root a) \<and> hex_decode_32 g = Some (pa_sig a))" (is "?L \<longleftrightarrow> ?R")
proof
  assume l: ?L
  then have "count_list line 0x7C = 4"
    using sep_loop_count [of line "[0, 0, 0, 0]" 0 0]
    by (auto simp: parse_checkpoint_line_def split: option.splits if_splits)
  then obtain t u blk r g where "line = bars t u blk r g" "0x7C \<notin> set t" "0x7C \<notin> set u"
      "0x7C \<notin> set blk" "0x7C \<notin> set r" "0x7C \<notin> set g"
    by (rule count_bars)
  then show ?R using l parse_bars [of t u blk r g tenant]
    by (intro exI [of _ blk] exI [of _ r] exI [of _ g]) (auto split: if_splits option.splits)
next
  assume ?R
  then obtain blk r g where *: "line = bars anchor_tag_bytes tenant blk r g" "0x7C \<notin> set tenant"
      "parse_u64_dec blk = Some (pa_block_number a)" "hex_decode_32 r = Some (pa_root a)"
      "hex_decode_32 g = Some (pa_sig a)"
    by blast
  have "0x7C \<notin> set blk" using *(3) by (intro no_bar_digits) (simp add: refines split: if_splits)
  then have "parse_checkpoint_line line tenant =
      Some \<lparr>pa_block_number = pa_block_number a, pa_root = pa_root a, pa_sig = pa_sig a\<rparr>"
    unfolding *(1) using * parse_bars [of anchor_tag_bytes tenant blk r g tenant]
    by (simp add: no_bar_tag no_bar_hex)
  then show ?L by simp
qed

text \<open>An anchor line is accepted exactly when it is the tag, the caller's own tenant label, a decimal
  block number, a 64-digit root and a 64-digit signature joined by four bars and nothing else; the parsed
  values are those fields' values.\<close>
theorem parse_checkpoint_line_correct:
  "parse_checkpoint_line line tenant = Some a \<longleftrightarrow>
     (\<exists>blk r g. line = bars anchor_tag_bytes tenant blk r g \<and> 0x7C \<notin> set tenant \<and>
        parse_u64_dec blk = Some (pa_block_number a) \<and>
        hex_decode_32 r = Some (pa_root a) \<and> hex_decode_32 g = Some (pa_sig a))"
  by (rule parse_checkpoint_line_iff)

section \<open>The collector's measurement\<close>

datatype CollectorHash = Exact | Hashed | Absent

definition choose_collector_hash :: "bool \<Rightarrow> bool \<Rightarrow> CollectorHash" where
  "choose_collector_hash have_exact have_hashed =
     (if have_exact then Exact else if have_hashed then Hashed else Absent)"

record RecordView =
  rv_hash :: bytes
  rv_path :: bytes

definition spec_name_is :: "bytes \<Rightarrow> bytes \<Rightarrow> bool" where
  "spec_name_is path name \<longleftrightarrow>
     path = name \<or>
     (length path > length name \<and> drop (length path - length name) path = name \<and>
      path ! (length path - length name - 1) = 0x2F)"

function name_loop :: "bytes \<Rightarrow> bytes \<Rightarrow> nat \<Rightarrow> nat \<Rightarrow> bool" where
  "name_loop path name start i =
     (if i < length name then
        if path ! (start + i) \<noteq> name ! i then False else name_loop path name start (i + 1)
      else True)"
  by pat_completeness auto
termination by (relation "measure (\<lambda>(path, name, start, i). length name - i)") auto

declare name_loop.simps [simp del]

definition name_is :: "bytes \<Rightarrow> bytes \<Rightarrow> bool" where
  "name_is path name =
     (if length path = length name then slices_eq path name
      else if length path \<le> length name then False
      else
        (let start = length path - length name
         in if path ! (start - 1) \<noteq> 0x2F then False else name_loop path name start 0))"

lemma name_is_spec [refines]: "name_is path name = spec_name_is path name"
proof -
  have l: "name_loop path name st i \<longleftrightarrow> (\<forall>j < length name. i \<le> j \<longrightarrow> path ! (st + j) = name ! j)" for st i
    by (rule scan_forall) (subst name_loop.simps, simp)
  have "length name < length path \<Longrightarrow>
      name_loop path name (length path - length name) 0 \<longleftrightarrow> drop (length path - length name) path = name"
    by (auto simp: l list_eq_iff_nth_eq)
  then show ?thesis by (auto simp: name_is_def spec_name_is_def refines Let_def)
qed

lemma name_is_suffix:
  "spec_name_is path name \<longleftrightarrow> path = name \<or> (\<exists>dir. path = dir @ 0x2F # name)"
proof
  assume "path = name \<or> (\<exists>dir. path = dir @ 0x2F # name)"
  then show "spec_name_is path name" by (auto simp: spec_name_is_def nth_append)
next
  assume s: "spec_name_is path name"
  show "path = name \<or> (\<exists>dir. path = dir @ 0x2F # name)"
  proof (cases "path = name")
    case False
    let ?k = "length path - length name - 1"
    from s False have "?k < length path" "path ! ?k = 0x2F" "drop (Suc ?k) path = name"
      by (auto simp: spec_name_is_def Suc_diff_Suc)
    then have "path = take ?k path @ 0x2F # name" using id_take_nth_drop [of ?k path] by metis
    then show ?thesis by blast
  qed simp
qed

definition collector_name :: bytes where
  "collector_name = [0x73, 0x63, 0x61, 0x70, 0x68, 0x61, 0x6E, 0x64, 0x72, 0x65]"

function select_loop :: "RecordView list \<Rightarrow> bytes option \<Rightarrow> nat \<Rightarrow> bytes option" where
  "select_loop records found i =
     (if i < length records then
        (let rec = records ! i;
             is_collector = name_is (rv_path rec) collector_name \<and> length (rv_hash rec) > 0
                            \<and> \<not> is_zero_hash (rv_hash rec)
         in select_loop records
              (if is_collector then Some (push_from [] (rv_hash rec) 0) else found) (i + 1))
      else found)"
  by pat_completeness auto
termination by (relation "measure (\<lambda>(records, found, i). length records - i)") auto

declare select_loop.simps [simp del]

definition select_collector_hash_verified :: "RecordView list \<Rightarrow> bytes option" where
  "select_collector_hash_verified records = select_loop records None 0"

definition spec_is_collector_record :: "RecordView \<Rightarrow> bool" where
  "spec_is_collector_record r \<longleftrightarrow>
     spec_name_is (rv_path r) collector_name \<and> \<not> spec_is_zero_hash (rv_hash r) \<and> length (rv_hash r) > 0"

lemma is_collector_spec:
  "name_is (rv_path r) collector_name \<and> rv_hash r \<noteq> [] \<and> \<not> is_zero_hash (rv_hash r) \<longleftrightarrow>
   spec_is_collector_record r"
  by (auto simp: refines spec_is_collector_record_def)

lemma select_loop_filter:
  "select_loop rs f i =
     (case filter spec_is_collector_record (drop i rs) of [] \<Rightarrow> f | cs \<Rightarrow> Some (rv_hash (last cs)))"
proof (induction rs f i rule: select_loop.induct)
  case (1 rs f i)
  show ?case
  proof (cases "i < length rs")
    case True
    then have "drop i rs = rs ! i # drop (i + 1) rs" by (simp add: drop_nth_Cons)
    then show ?thesis
      using 1 [OF True refl refl] True
      by (subst select_loop.simps) (simp add: is_collector_spec loops Let_def split: list.splits)
  next
    case False
    then show ?thesis by (subst select_loop.simps) simp
  qed
qed

text \<open>The collector's measurement selected from the verified records is the hash of the last record
  whose path is the collector's name or ends in a slash and that name, and whose hash is neither empty nor
  all zeros; nothing is selected exactly when there is no such record.\<close>
theorem select_collector_hash_correct:
  "select_collector_hash_verified rs =
     (case filter spec_is_collector_record rs of [] \<Rightarrow> None | cs \<Rightarrow> Some (rv_hash (last cs)))"
  by (simp add: select_collector_hash_verified_def select_loop_filter)

end
