(* ===== verification/Attribution.thy ===== *)
theory Attribution
  imports RustStd
begin

text \<open>
  The apportioning of a measured total to workloads by weight, \<open>attribute_by_weight\<close> of
  \<open>src/verified/src/lib.rs\<close>: floor shares in 128-bit arithmetic, the remainder to the heaviest.
  Every addition and subtraction of the source is checked for overflow, as in the release build;
  the theorems show that no check ever fails and that the shares add up to the total.
\<close>

function tw_loop :: "u64 list \<Rightarrow> u128 \<Rightarrow> nat \<Rightarrow> u128 exec" where
  "tw_loop weights total_weight i =
     (if i < length weights then
        (if unat total_weight + unat (weights ! i) < 2 ^ 128
         then tw_loop weights (total_weight + ucast (weights ! i)) (i + 1) else Panic)
      else Done total_weight)"
  by pat_completeness auto
termination by (relation "measure (\<lambda>(weights, total_weight, i). length weights - i)") auto

definition share_of :: "u64 \<Rightarrow> u64 \<Rightarrow> u128 \<Rightarrow> u64" where
  "share_of tot w total_weight =
     (let share128 = (ucast tot * ucast w) div total_weight in ucast share128)"

function share_loop :: "u64 \<Rightarrow> u64 list \<Rightarrow> u128 \<Rightarrow> u64 list \<Rightarrow> nat \<Rightarrow> u64 list" where
  "share_loop tot weights total_weight shares k =
     (if k < length weights then
        share_loop tot weights total_weight
          (shares @ [share_of tot (weights ! k) total_weight]) (k + 1)
      else shares)"
  by pat_completeness auto
termination by (relation "measure (\<lambda>(tot, weights, tw, shares, k). length weights - k)") auto

function assign_loop :: "u64 list \<Rightarrow> u64 \<Rightarrow> nat \<Rightarrow> u64 exec" where
  "assign_loop shares assigned m =
     (if m < length shares then
        (case checked_add assigned (shares ! m) of
           Panic \<Rightarrow> Panic
         | Done a \<Rightarrow> assign_loop shares a (m + 1))
      else Done assigned)"
  by pat_completeness auto
termination by (relation "measure (\<lambda>(shares, assigned, m). length shares - m)") auto

function heavy_loop :: "u64 list \<Rightarrow> nat \<Rightarrow> nat \<Rightarrow> nat" where
  "heavy_loop weights heaviest n =
     (if n < length weights then
        heavy_loop weights (if weights ! n \<ge> weights ! heaviest then n else heaviest) (n + 1)
      else heaviest)"
  by pat_completeness auto
termination by (relation "measure (\<lambda>(weights, heaviest, n). length weights - n)") auto

declare tw_loop.simps [simp del] share_loop.simps [simp del] assign_loop.simps [simp del]
  heavy_loop.simps [simp del]

definition give_remainder :: "u64 list \<Rightarrow> u64 list \<Rightarrow> u64 \<Rightarrow> u64 list exec" where
  "give_remainder weights shares remainder =
     (if remainder > 0 then
        (let heaviest = heavy_loop weights 0 1;
             old_share = shares ! heaviest
         in and_then (checked_add old_share remainder)
              (\<lambda>new_share. Done (shares[heaviest := new_share])))
      else Done shares)"

definition attribute_by_weight :: "u64 \<Rightarrow> u64 list \<Rightarrow> u64 list option exec" where
  "attribute_by_weight tot weights =
     (if length weights = 0 then Done None
      else and_then (tw_loop weights 0 0) (\<lambda>total_weight.
        if total_weight = 0 then Done None
        else
          (let shares = share_loop tot weights total_weight [] 0
           in and_then (assign_loop shares 0 0) (\<lambda>assigned.
                if assigned > tot then Panic
                else and_then (give_remainder weights shares (tot - assigned))
                       (\<lambda>s. Done (Some s))))))"

section \<open>The loops\<close>

lemma unat_u64_128: "unat (ucast (x :: u64) :: u128) = unat x"
  using unat_u64_less [of x] by (simp add: unsigned_ucast_eq take_bit_nat_eq_self)

lemma tw_loop_sum:
  "unat tw + sum_list (map unat (drop i ws)) < 2 ^ 128 \<Longrightarrow>
   \<exists>t. tw_loop ws tw i = Done t \<and> unat t = unat tw + sum_list (map unat (drop i ws))"
proof (induction ws tw i rule: tw_loop.induct)
  case (1 ws tw i)
  show ?case
  proof (cases "i < length ws")
    case True
    then have d: "drop i ws = ws ! i # drop (i + 1) ws" by (simp add: drop_nth_Cons)
    have b: "unat tw + unat (ws ! i) < 2 ^ 128" using 1(2) unfolding d by simp
    then have "unat (tw + ucast (ws ! i)) = unat tw + unat (ws ! i)"
      by (simp add: unat_word_ariths unat_u64_128)
    then show ?thesis
      using 1(1) [OF True b] 1(2) True b unfolding d by (subst tw_loop.simps) (simp add: add.assoc)
  next
    case False
    then show ?thesis by (subst tw_loop.simps) simp
  qed
qed

lemma share_loop_map:
  "share_loop t ws tw ss k = ss @ map (\<lambda>w. share_of t w tw) (drop k ws)"
proof (induction t ws tw ss k rule: share_loop.induct)
  case (1 t ws tw ss k)
  then show ?case by (subst share_loop.simps) (simp add: drop_nth_Cons)
qed

lemma assign_loop_sum:
  "unat a + sum_list (map unat (drop m ss)) < 2 ^ 64 \<Longrightarrow>
   \<exists>t. assign_loop ss a m = Done t \<and> unat t = unat a + sum_list (map unat (drop m ss))"
proof (induction ss a m rule: assign_loop.induct)
  case (1 ss a m)
  show ?case
  proof (cases "m < length ss")
    case True
    then have d: "drop m ss = ss ! m # drop (m + 1) ss" by (simp add: drop_nth_Cons)
    have b: "unat a + unat (ss ! m) < 2 ^ 64" using 1(2) unfolding d by simp
    then have c: "checked_add a (ss ! m) = Done (a + ss ! m)" by (simp add: checked_add_def)
    from b have "unat (a + ss ! m) = unat a + unat (ss ! m)" by (simp add: unat_word_ariths)
    then show ?thesis
      using 1(1) [OF True c] 1(2) True c unfolding d by (subst assign_loop.simps) (simp add: add.assoc)
  next
    case False
    then show ?thesis by (subst assign_loop.simps) simp
  qed
qed

definition is_heaviest :: "u64 list \<Rightarrow> nat \<Rightarrow> bool" where
  "is_heaviest ws h \<longleftrightarrow>
     h < length ws \<and> (\<forall>i < length ws. ws ! i \<le> ws ! h) \<and> (\<forall>i < length ws. h < i \<longrightarrow> ws ! i < ws ! h)"

lemma heavy_loop_last_max:
  assumes "h < n" "h < length ws"
    and "\<forall>i < n. i < length ws \<longrightarrow> ws ! i \<le> ws ! h" "\<forall>i < n. i < length ws \<longrightarrow> h < i \<longrightarrow> ws ! i < ws ! h"
  shows "is_heaviest ws (heavy_loop ws h n)"
  using assms
proof (induction ws h n rule: heavy_loop.induct)
  case (1 ws h n)
  show ?case
  proof (cases "n < length ws")
    case True
    let ?h = "if ws ! n \<ge> ws ! h then n else h"
    have "is_heaviest ws (heavy_loop ws ?h (n + 1))"
      using 1 True by (intro 1(1)) (auto simp: less_Suc_eq not_le)
    then show ?thesis using True by (subst heavy_loop.simps) simp
  next
    case False
    then show ?thesis using 1(2-) by (subst heavy_loop.simps) (simp add: is_heaviest_def)
  qed
qed

section \<open>The shares\<close>

definition floor_share :: "u64 \<Rightarrow> u64 list \<Rightarrow> u64 \<Rightarrow> nat" where
  "floor_share tot ws w = unat tot * unat w div sum_list (map unat ws)"

lemma elem_le_sum: "w \<in> set ws \<Longrightarrow> unat w \<le> sum_list (map unat (ws :: u64 list))"
  by (induction ws) auto

lemma floor_share_le: "w \<in> set ws \<Longrightarrow> floor_share tot ws w \<le> unat tot"
proof (cases "sum_list (map unat ws) = 0")
  case False
  assume "w \<in> set ws"
  then have "unat tot * unat w \<le> unat tot * sum_list (map unat ws)"
    by (intro mult_le_mono2 elem_le_sum)
  then show ?thesis using False
    by (metis div_le_mono floor_share_def nonzero_mult_div_cancel_right)
qed (simp add: floor_share_def)

lemma unat_share_of:
  assumes "unat tw = sum_list (map unat ws)" "w \<in> set ws"
  shows "unat (share_of tot w tw) = floor_share tot ws w"
proof -
  have "unat tot * unat w < 2 ^ 64 * 2 ^ 64"
    using unat_u64_less [of tot] unat_u64_less [of w] by (intro mult_strict_mono) simp_all
  then have "unat (ucast tot * ucast w :: u128) = unat tot * unat w"
    by (simp add: unat_word_ariths unat_u64_128)
  then have "unat (ucast tot * ucast w div tw) = floor_share tot ws w"
    by (simp add: unat_div floor_share_def assms(1))
  moreover have "floor_share tot ws w < 2 ^ 64"
    using floor_share_le [OF assms(2), of tot] unat_u64_less [of tot] by simp
  ultimately show ?thesis by (simp add: share_of_def unsigned_ucast_eq take_bit_nat_eq_self)
qed

lemma sum_floors:
  fixes t T :: nat
  assumes "0 < T"
  shows "T * (\<Sum>w\<leftarrow>ws. t * w div T) \<le> t * sum_list ws \<and>
    t * sum_list ws \<le> T * (\<Sum>w\<leftarrow>ws. t * w div T) + length ws * (T - 1)"
proof (induction ws)
  case (Cons w ws)
  have "T * (t * w div T) + t * w mod T = t * w" by (rule mult_div_mod_eq)
  moreover have "t * w mod T \<le> T - 1" using assms by (simp add: Suc_leI less_Suc_eq_le [symmetric])
  ultimately show ?case using Cons
    by (simp only: list.map sum_list.Cons list.size add_mult_distrib2 add_mult_distrib One_nat_def
        add_0_right add_Suc_right mult_Suc) linarith
qed simp

lemma sum_floor_shares:
  assumes "0 < sum_list (map unat ws)"
  shows "(\<Sum>w\<leftarrow>ws. floor_share tot ws w) \<le> unat tot"
    and "unat tot < (\<Sum>w\<leftarrow>ws. floor_share tot ws w) + length ws"
proof -
  let ?T = "sum_list (map unat ws)" and ?F = "\<Sum>w\<leftarrow>ws. floor_share tot ws w"
  have s: "?T * ?F \<le> unat tot * ?T" "unat tot * ?T \<le> ?T * ?F + length ws * (?T - 1)"
    using sum_floors [OF assms, of "unat tot" "map unat ws"] by (simp_all add: floor_share_def o_def)
  then have "?T * ?F \<le> ?T * unat tot" by (simp only: mult.commute)
  then show "?F \<le> unat tot" using assms by (rule mult_left_le_imp_le)
  have ne: "0 < length ws" using assms by (cases ws) simp_all
  have "length ws * (?T - 1) < length ws * ?T" using assms ne by simp
  then have "unat tot * ?T < ?T * ?F + length ws * ?T" using s(2) by linarith
  also have "\<dots> = (?F + length ws) * ?T" by (simp add: algebra_simps)
  finally show "unat tot < ?F + length ws" by simp
qed

definition spec_shares :: "u64 \<Rightarrow> u64 list \<Rightarrow> u64 list" where
  "spec_shares tot ws =
     (let fs = map (\<lambda>w. of_nat (floor_share tot ws w)) ws;
          r = unat tot - (\<Sum>w\<leftarrow>ws. floor_share tot ws w);
          h = heavy_loop ws 0 1
      in fs[h := of_nat (floor_share tot ws (ws ! h) + r)])"

lemma heaviest_ok: "ws \<noteq> [] \<Longrightarrow> is_heaviest ws (heavy_loop ws 0 1)"
  by (rule heavy_loop_last_max) auto

lemma sum_list_update_add:
  "h < length ns \<Longrightarrow> sum_list (ns[h := ns ! h + r]) = sum_list ns + (r :: nat)"
  by (induction ns arbitrary: h) (auto split: nat.splits simp: less_Suc_eq_0_disj)

lemma unat_floor_share: "w \<in> set ws \<Longrightarrow> unat (of_nat (floor_share tot ws w) :: u64) = floor_share tot ws w"
  using floor_share_le [of w ws tot] unat_u64_less [of tot] by (simp add: unat_of_nat_u64)

lemma spec_shares_nats:
  assumes "0 < sum_list (map unat ws)"
  shows "map unat (spec_shares tot ws) =
    (let fs = map (floor_share tot ws) ws; h = heavy_loop ws 0 1
     in fs[h := fs ! h + (unat tot - sum_list fs)])"
proof -
  let ?h = "heavy_loop ws 0 1" and ?fs = "map (floor_share tot ws) ws"
  have h: "?h < length ws" using heaviest_ok [of ws] assms by (cases ws) (auto simp: is_heaviest_def)
  have "?fs ! ?h \<le> sum_list ?fs" using h by (intro member_le_sum_list) simp_all
  moreover have "sum_list ?fs \<le> unat tot" by (rule sum_floor_shares(1) [OF assms])
  ultimately have "?fs ! ?h + (unat tot - sum_list ?fs) \<le> unat tot" by simp
  then have "unat (of_nat (floor_share tot ws (ws ! ?h) + (unat tot - sum_list ?fs)) :: u64) =
      ?fs ! ?h + (unat tot - sum_list ?fs)"
    using h unat_u64_less [of tot] by (subst unat_of_nat_u64) simp_all
  then show ?thesis
    by (simp add: spec_shares_def Let_def map_update o_def unat_floor_share cong: map_cong)
qed

lemma sum_weights_zero: "sum_list (map unat ws) = 0 \<longleftrightarrow> (\<forall>w \<in> set (ws :: u64 list). w = 0)"
  by (induction ws) (auto simp: unat_eq_0)

lemma sum_weights_bound:
  "length ws < 2 ^ 32 \<Longrightarrow> sum_list (map unat (ws :: u64 list)) < 2 ^ 128"
proof -
  assume l: "length ws < 2 ^ 32"
  have "sum_list (map unat ws) \<le> length ws * 2 ^ 64"
    using unat_u64_less by (induction ws) (auto intro: add_mono less_imp_le)
  also have "\<dots> < 2 ^ 32 * 2 ^ 64" using l by simp
  also have "\<dots> < (2 ^ 128 :: nat)" by simp
  finally show ?thesis .
qed

lemma give_remainder_Done:
  assumes ne: "ws \<noteq> []" and l: "length ss = length ws"
    and b: "unat (ss ! heavy_loop ws 0 1) + unat r < 2 ^ 64"
  shows "give_remainder ws ss r = Done (ss[heavy_loop ws 0 1 := of_nat (unat (ss ! heavy_loop ws 0 1) + unat r)])"
proof (cases "0 < r")
  case True
  then show ?thesis using b by (simp add: give_remainder_def checked_add_def Let_def)
next
  case False
  then have "r = 0" by (simp add: word_gt_0)
  then show ?thesis by (simp add: give_remainder_def)
qed

lemma attribute_by_weight_shares:
  assumes len: "length ws < 2 ^ 32" and pos: "0 < sum_list (map unat ws)"
  shows "attribute_by_weight tot ws = Done (Some (spec_shares tot ws))"
proof -
  let ?fs = "map (floor_share tot ws) ws" and ?h = "heavy_loop ws 0 1"
  have ne: "ws \<noteq> []" using pos by auto
  then have h: "?h < length ws" using heaviest_ok by (simp add: is_heaviest_def)
  obtain tw where tw: "tw_loop ws 0 0 = Done tw" "unat tw = sum_list (map unat ws)"
    using tw_loop_sum [of 0 0 ws] sum_weights_bound [OF len] by auto
  let ?ss = "map (\<lambda>w. share_of tot w tw) ws"
  have ss: "map unat ?ss = ?fs" using unat_share_of [OF tw(2)] by simp
  have le: "sum_list ?fs \<le> unat tot" by (rule sum_floor_shares(1) [OF pos])
  then have "unat (0 :: u64) + sum_list (map unat (drop 0 ?ss)) < 2 ^ 64"
    using unat_u64_less [of tot] unfolding drop_0 ss by simp
  then obtain a where a: "assign_loop ?ss 0 0 = Done a" "unat a = sum_list ?fs"
    using assign_loop_sum [of 0 0 ?ss] unfolding drop_0 ss by auto
  have r: "\<not> a > tot" "unat (tot - a) = unat tot - sum_list ?fs"
    using a(2) le by (simp_all add: word_less_nat_alt unat_sub word_le_nat_alt)
  have uh: "unat (?ss ! ?h) = ?fs ! ?h" using arg_cong [OF ss, of "\<lambda>l. l ! ?h"] h by simp
  have "?fs ! ?h \<le> sum_list ?fs" using h by (intro member_le_sum_list) simp_all
  then have "unat (?ss ! ?h) + unat (tot - a) < 2 ^ 64"
    using uh r(2) le unat_u64_less [of tot] by simp
  then have "give_remainder ws ?ss (tot - a) = Done (?ss[?h := of_nat (?fs ! ?h + (unat tot - sum_list ?fs))])"
    using give_remainder_Done [OF ne length_map, of "\<lambda>w. share_of tot w tw" "tot - a"]
    unfolding uh r(2) by blast
  moreover have eq: "map (\<lambda>w. of_nat (floor_share tot ws w)) ws = ?ss"
    using unat_share_of [OF tw(2)] by (auto simp: word_unat_eq_iff unat_floor_share)
  have "spec_shares tot ws = ?ss[?h := of_nat (?fs ! ?h + (unat tot - sum_list ?fs))]"
    unfolding spec_shares_def Let_def eq using h by simp
  ultimately have "give_remainder ws ?ss (tot - a) = Done (spec_shares tot ws)" by (simp only:)
  moreover have "tw \<noteq> 0" by (metis tw(2) pos unsigned_0 less_irrefl)
  ultimately show ?thesis using ne tw(1) a(1) r(1)
    by (simp add: attribute_by_weight_def share_loop_map Let_def)
qed

lemma attribute_by_weight_none:
  assumes "length ws < 2 ^ 32" "sum_list (map unat ws) = 0"
  shows "attribute_by_weight tot ws = Done None"
proof (cases "ws = []")
  case False
  obtain tw where "tw_loop ws 0 0 = Done tw" "unat tw = sum_list (map unat ws)"
    using tw_loop_sum [of 0 0 ws] sum_weights_bound [OF assms(1)] by auto
  moreover from this have "tw = 0" using assms(2) by (simp add: unat_eq_0)
  ultimately show ?thesis using False by (simp add: attribute_by_weight_def)
qed (simp add: attribute_by_weight_def)

lemma attribution_total:
  assumes "length ws < 2 ^ 32"
  shows "\<exists>r. attribute_by_weight tot ws = Done r \<and> (r = None \<longleftrightarrow> (\<forall>w \<in> set ws. w = 0)) \<and>
    (\<forall>ss. r = Some ss \<longrightarrow> length ss = length ws \<and> sum_list (map unat ss) = unat tot \<and>
      (\<forall>i < length ws. ws ! i = 0 \<longrightarrow> ss ! i = 0))"
proof (cases "sum_list (map unat ws) = 0")
  case True
  then have "\<forall>w \<in> set ws. w = 0" by (simp only: sum_weights_zero)
  then show ?thesis using attribute_by_weight_none [OF assms True] by blast
next
  case False
  let ?h = "heavy_loop ws 0 1" and ?fs = "map (floor_share tot ws) ws"
  have nz: "\<not> (\<forall>w \<in> set ws. w = 0)" using False by (simp only: sum_weights_zero not_False_eq_True)
  then have ne: "ws \<noteq> []" by auto
  have h: "is_heaviest ws ?h" using heaviest_ok ne .
  have nats: "map unat (spec_shares tot ws) = ?fs[?h := ?fs ! ?h + (unat tot - sum_list ?fs)]"
    using spec_shares_nats [of ws tot] False by (simp add: Let_def)
  have "sum_list (map unat (spec_shares tot ws)) = unat tot"
    unfolding nats using h sum_floor_shares(1) [of ws tot] False
    by (subst sum_list_update_add) (simp_all add: is_heaviest_def)
  moreover have "spec_shares tot ws ! i = 0" if i: "i < length ws" "ws ! i = 0" for i
  proof -
    from nz obtain k where "k < length ws" "ws ! k \<noteq> 0" by (metis in_set_conv_nth)
    then have "i \<noteq> ?h" using h i by (auto simp: is_heaviest_def)
    then have "unat (spec_shares tot ws ! i) = floor_share tot ws (ws ! i)"
      using arg_cong [OF nats, of "\<lambda>l. l ! i"] i by (simp add: spec_shares_def Let_def)
    then show ?thesis using i(2) by (simp add: floor_share_def unat_eq_0)
  qed
  moreover have "length (spec_shares tot ws) = length ws" by (simp add: spec_shares_def Let_def)
  ultimately show ?thesis
    using attribute_by_weight_shares [OF assms, of tot] False nz by blast
qed

text \<open>C30: Attribution by weight conserves energy. It never overflows; it declines exactly when there is no
  positive weight; otherwise it returns one share per weight, the shares add up to the total exactly, and a
  workload of weight zero gets nothing.\<close>
theorem attribution_conserves:
  assumes "length ws < 2 ^ 32"
  shows "\<exists>r. attribute_by_weight tot ws = Done r \<and> (r = None \<longleftrightarrow> (\<forall>w \<in> set ws. w = 0)) \<and>
    (\<forall>ss. r = Some ss \<longrightarrow> length ss = length ws \<and> sum_list (map unat ss) = unat tot \<and>
      (\<forall>i < length ws. ws ! i = 0 \<longrightarrow> ss ! i = 0))"
  using assms by (rule attribution_total)

lemma attribution_conserves_witness:
  "length [1, 0, 2 :: u64] < 2 ^ 32 \<and>
   (\<exists>ss. attribute_by_weight 10 [1, 0, 2] = Done (Some ss) \<and> sum_list (map unat ss) = 10 \<and> ss ! 1 = 0)"
proof -
  have len: "length [1, 0, 2 :: u64] < 2 ^ 32" by simp
  obtain r where r: "attribute_by_weight 10 [1, 0, 2] = Done r"
      "r = None \<longleftrightarrow> (\<forall>w \<in> set [1, 0, 2 :: u64]. w = 0)"
      "\<And>ss. r = Some ss \<Longrightarrow> sum_list (map unat ss) = unat (10 :: u64) \<and>
        (\<forall>i < length [1, 0, 2 :: u64]. [1, 0, 2 :: u64] ! i = 0 \<longrightarrow> ss ! i = 0)"
    using attribution_conserves [OF len, of 10] by blast
  from r(2) obtain ss where "r = Some ss" by auto
  with r(1) r(3) [of ss] show ?thesis by (intro conjI len exI [of _ ss]) simp_all
qed

text \<open>No share is off by more than rounding: every share but the heaviest workload's is the floor of its
  exact proportional share, and the heaviest (the last of the heaviest, on ties) gets its floor plus a
  remainder smaller than the number of workloads.\<close>
theorem attribution_bounds:
  assumes "length ws < 2 ^ 32" "attribute_by_weight tot ws = Done (Some ss)" "i < length ws"
  shows "is_heaviest ws (heavy_loop ws 0 1) \<and>
    (if i = heavy_loop ws 0 1
     then floor_share tot ws (ws ! i) \<le> unat (ss ! i) \<and>
          unat (ss ! i) < floor_share tot ws (ws ! i) + length ws
     else unat (ss ! i) = floor_share tot ws (ws ! i))"
proof -
  let ?h = "heavy_loop ws 0 1" and ?fs = "map (floor_share tot ws) ws"
  have pos: "0 < sum_list (map unat ws)"
    using attribute_by_weight_none [OF assms(1), of tot] assms(2) by (intro gr0I) simp
  then have ss: "ss = spec_shares tot ws"
    using attribute_by_weight_shares [OF assms(1) pos, of tot] assms(2) by simp
  let ?ns = "?fs[?h := ?fs ! ?h + (unat tot - sum_list ?fs)]"
  have "map unat ss = ?ns" using spec_shares_nats [OF pos, of tot] by (simp add: Let_def ss)
  moreover have "length ss = length ws" by (simp add: ss spec_shares_def Let_def)
  ultimately have "unat (ss ! i) = ?ns ! i" using assms(3) nth_map [of i ss unat] by simp
  also have "\<dots> = (if i = ?h then floor_share tot ws (ws ! i) + (unat tot - sum_list ?fs)
      else floor_share tot ws (ws ! i))"
    using assms(3) by (simp add: nth_list_update)
  finally have "unat (ss ! i) = (if i = ?h then floor_share tot ws (ws ! i) + (unat tot - sum_list ?fs)
      else floor_share tot ws (ws ! i))" .
  moreover have "ws \<noteq> []" using pos by auto
  ultimately show ?thesis
    using heaviest_ok [of ws] sum_floor_shares(2) [OF pos, of tot] assms(3) by auto
qed

lemma attribution_bounds_witness:
  "attribute_by_weight 10 [1, 0, 2] = Done (Some [3, 0, 7]) \<and> is_heaviest [1, 0, 2] 2"
proof -
  have a: "attribute_by_weight 10 [1, 0, 2] = Done (Some [3, 0, 7])"
    by (simp add: attribute_by_weight_def tw_loop.simps share_loop.simps assign_loop.simps share_of_def
        checked_add_def give_remainder_def heavy_loop.simps)
  moreover have "heavy_loop [1, 0, 2] 0 1 = 2" by (simp add: heavy_loop.simps)
  ultimately show ?thesis using attribution_bounds [OF _ a, of 2] by simp
qed

end
