(* ===== verification/Merkle.thy ===== *)
theory Merkle
  imports HexTools
begin

text \<open>
  The Merkle tree of energy records: \<open>fold_to_root\<close> of \<open>src/verified/src/lib.rs\<close> and all of
  \<open>src/sgx_vm/src/merkle.rs\<close>. SHA-256 (crate \<open>sha2\<close>) is the parameter \<open>sha\<close> and hexadecimal
  printing (crate \<open>hex\<close>) the parameter \<open>hexenc\<close>; a theorem that relies on collision resistance
  says so for the finitely many byte strings that the code hashes. The \<open>f64\<close> fields of a record are
  kept as the bit patterns that the code hashes.
\<close>

section \<open>Folding a level into a root\<close>

definition hash_pair_bytes :: "(bytes \<Rightarrow> bytes) \<Rightarrow> bytes \<Rightarrow> bytes \<Rightarrow> bytes" where
  "hash_pair_bytes sha l r = sha (encode_internal l r)"

fun spec_fold_level :: "('h \<Rightarrow> 'h \<Rightarrow> 'h) \<Rightarrow> 'h list \<Rightarrow> 'h list" where
  "spec_fold_level h [] = []"
| "spec_fold_level h [x] = [x]"
| "spec_fold_level h (x # y # zs) = h x y # spec_fold_level h zs"

text \<open>The inner loop \<open>while i + 1 < cur.len()\<close> and the push of a promoted odd element.\<close>

function pair_loop :: "('h \<Rightarrow> 'h \<Rightarrow> 'h) \<Rightarrow> 'h list \<Rightarrow> 'h list \<Rightarrow> nat \<Rightarrow> 'h list" where
  "pair_loop h cur nxt i =
     (if i + 1 < length cur then pair_loop h cur (nxt @ [h (cur ! i) (cur ! (i + 1))]) (i + 2)
      else if i < length cur then nxt @ [cur ! i] else nxt)"
  by pat_completeness auto
termination by (relation "measure (\<lambda>(h, cur, nxt, i). length cur - i)") auto

declare pair_loop.simps [simp del]

lemma pair_loop_fold: "pair_loop h cur nxt i = nxt @ spec_fold_level h (drop i cur)"
proof (induction h cur nxt i rule: pair_loop.induct)
  case (1 h cur nxt i)
  consider "i + 1 < length cur" | "i < length cur" "\<not> i + 1 < length cur" | "\<not> i < length cur"
    by blast
  then show ?case
  proof cases
    case 1
    then have "drop i cur = cur ! i # cur ! (i + 1) # drop (i + 2) cur" by (simp add: drop_nth_Cons)
    then show ?thesis using "1.IH" 1 by (subst pair_loop.simps) simp
  next
    case 2
    then have "drop i cur = [cur ! i]" by (simp add: drop_nth_Cons)
    then show ?thesis using 2 by (subst pair_loop.simps) simp
  next
    case 3
    then show ?thesis by (subst pair_loop.simps) simp
  qed
qed

lemma length_fold_level [simp]: "length (spec_fold_level h xs) = (length xs + 1) div 2"
  by (induction h xs rule: spec_fold_level.induct) auto

lemma fold_level_Nil [simp]: "spec_fold_level h xs = [] \<longleftrightarrow> xs = []"
  by (cases "(h, xs)" rule: spec_fold_level.cases) auto

function spec_fold_to_root :: "(bytes \<Rightarrow> bytes \<Rightarrow> bytes) \<Rightarrow> bytes list \<Rightarrow> bytes" where
  "spec_fold_to_root h level =
     (if length level = 0 then replicate 32 0
      else if length level = 1 then level ! 0
      else spec_fold_to_root h (spec_fold_level h level))"
  by pat_completeness auto
termination
proof (relation "measure (\<lambda>(h, level). length level)", goal_cases)
  case (2 h level)
  then have "1 < length level" by arith
  then show ?case by simp
qed simp

function fold_loop :: "(bytes \<Rightarrow> bytes \<Rightarrow> bytes) \<Rightarrow> bytes list \<Rightarrow> bytes list" where
  "fold_loop h cur = (if length cur > 1 then fold_loop h (pair_loop h cur [] 0) else cur)"
  by pat_completeness auto
termination by (relation "measure (\<lambda>(h, cur). length cur)") (auto simp: pair_loop_fold)

declare spec_fold_to_root.simps [simp del] fold_loop.simps [simp del]

lemma fold_root_step:
  "1 < length xs \<Longrightarrow> spec_fold_to_root h xs = spec_fold_to_root h (spec_fold_level h xs)"
  by (subst spec_fold_to_root.simps) (cases xs; simp)

lemma fold_root_single [simp]: "spec_fold_to_root h [x] = x"
  by (subst spec_fold_to_root.simps) simp

text \<open>The copy of the leaves, then the levels, then \<open>cur[0]\<close>.\<close>

function copy_loop :: "bytes list \<Rightarrow> bytes list \<Rightarrow> nat \<Rightarrow> bytes list" where
  "copy_loop leaves cur c =
     (if c < length leaves then copy_loop leaves (cur @ [leaves ! c]) (c + 1) else cur)"
  by pat_completeness auto
termination by (relation "measure (\<lambda>(leaves, cur, c). length leaves - c)") auto

declare copy_loop.simps [simp del]

definition fold_to_root :: "(bytes \<Rightarrow> bytes) \<Rightarrow> bytes list \<Rightarrow> bytes" where
  "fold_to_root sha leaves = fold_loop (hash_pair_bytes sha) (copy_loop leaves [] 0) ! 0"

lemma copy_loop_all: "copy_loop leaves cur c = cur @ drop c leaves"
proof (induction leaves cur c rule: copy_loop.induct)
  case (1 leaves cur c)
  then show ?case by (subst copy_loop.simps) (simp add: drop_nth_Cons)
qed

lemma fold_loop_root: "cur \<noteq> [] \<Longrightarrow> fold_loop h cur ! 0 = spec_fold_to_root h cur"
proof (induction h cur rule: fold_loop.induct)
  case (1 h cur)
  show ?case
  proof (cases "length cur > 1")
    case True
    then show ?thesis using 1
      by (subst fold_loop.simps, subst spec_fold_to_root.simps) (simp add: pair_loop_fold)
  next
    case False
    with 1(2) have "length cur = 1" by (cases cur) auto
    then show ?thesis by (subst fold_loop.simps, subst spec_fold_to_root.simps) simp
  qed
qed

text \<open>The verified fold of a non-empty list of leaf hashes computes its specification: levels are
  paired left to right, an odd last element is promoted unchanged, until one hash is left.\<close>
theorem fold_to_root_correct:
  assumes "leaves \<noteq> []"
  shows "fold_to_root sha leaves = spec_fold_to_root (hash_pair_bytes sha) leaves"
  using assms by (simp add: fold_to_root_def copy_loop_all fold_loop_root)

lemma fold_to_root_correct_witness:
  "[[1], [2], [3]] \<noteq> ([] :: bytes list) \<and>
   fold_to_root id [[1], [2], [3]] = spec_fold_to_root (hash_pair_bytes id) [[1], [2], [3]]"
  by (intro conjI fold_to_root_correct) simp_all

lemma fold_to_root_spec [refines]:
  "leaves \<noteq> [] \<Longrightarrow> fold_to_root sha leaves = spec_fold_to_root (hash_pair_bytes sha) leaves"
  by (simp add: fold_to_root_def copy_loop_all fold_loop_root)

section \<open>Records and the tree\<close>

record EnergyRecord =
  er_pid :: u32
  er_cpu_time :: u64
  er_energy_joules :: u64
  er_power_watts :: u64
  er_vm_name :: bytes
  er_timestamp :: bytes

definition record_to_bytes :: "EnergyRecord \<Rightarrow> bytes" where
  "record_to_bytes r =
     encode_record_fields (er_pid r) (er_cpu_time r) (er_energy_joules r) (er_power_watts r)
       (er_vm_name r) (er_timestamp r)"

record MerkleNode =
  mn_level :: u32
  mn_position :: u32
  mn_hash :: bytes
  mn_left_child :: "bytes option"
  mn_right_child :: "bytes option"

record MerkleTree =
  mt_root :: "bytes option"
  mt_leaf_hashes :: "bytes list"
  mt_leaf_count :: nat
  mt_internal_nodes :: "MerkleNode list"
  mt_height :: nat

definition hash_leaf :: "(bytes \<Rightarrow> bytes) \<Rightarrow> bytes \<Rightarrow> bytes" where
  "hash_leaf sha record_bytes = sha (encode_leaf record_bytes)"

definition hash_pair :: "(bytes \<Rightarrow> bytes) \<Rightarrow> bytes \<Rightarrow> bytes \<Rightarrow> bytes" where
  "hash_pair sha left right = sha (encode_internal left right)"

definition commit_root :: "(bytes \<Rightarrow> bytes) \<Rightarrow> nat \<Rightarrow> bytes \<Rightarrow> bytes" where
  "commit_root sha leaf_count subtree_root = sha (encode_root (of_nat leaf_count) subtree_root)"

definition hash_record :: "(bytes \<Rightarrow> bytes) \<Rightarrow> (bytes \<Rightarrow> bytes) \<Rightarrow> EnergyRecord \<Rightarrow> bytes" where
  "hash_record sha hexenc r = hexenc (hash_leaf sha (record_to_bytes r))"

definition compute_root_from_leaves :: "(bytes \<Rightarrow> bytes) \<Rightarrow> bytes list \<Rightarrow> bytes option" where
  "compute_root_from_leaves sha leaf_hashes =
     (if leaf_hashes = [] then None
      else
        (let leaf_count = length leaf_hashes;
             subtree = fold_to_root sha leaf_hashes
         in Some (commit_root sha leaf_count subtree)))"

text \<open>
  \<open>MerkleTree::build\<close>. The node list is built level by level; levels and positions are kept as
  the 32-bit numbers the code stores.
\<close>

definition leaf_nodes :: "bytes list \<Rightarrow> MerkleNode list" where
  "leaf_nodes leaf_hashes =
     map (\<lambda>(pos, hash). \<lparr>mn_level = 0, mn_position = of_nat pos, mn_hash = hash,
            mn_left_child = None, mn_right_child = None\<rparr>)
       (enumerate 0 leaf_hashes)"

function build_level ::
  "(bytes \<Rightarrow> bytes) \<Rightarrow> u32 \<Rightarrow> bytes list \<Rightarrow> bytes list \<Rightarrow> MerkleNode list \<Rightarrow> nat \<Rightarrow> u32 \<Rightarrow>
   bytes list \<times> MerkleNode list" where
  "build_level sha level_num current_level next_level nodes i pos =
     (if i + 1 < length current_level then
        (let left = current_level ! i;
             right = current_level ! (i + 1);
             parent_hash = hash_pair sha left right
         in build_level sha level_num current_level (next_level @ [parent_hash])
              (nodes @ [\<lparr>mn_level = level_num, mn_position = pos, mn_hash = parent_hash,
                         mn_left_child = Some left, mn_right_child = Some right\<rparr>])
              (i + 2) (pos + 1))
      else if i < length current_level then (next_level @ [current_level ! i], nodes)
      else (next_level, nodes))"
  by pat_completeness auto
termination by (relation "measure (\<lambda>(sha, l, cur, nxt, ns, i, pos). length cur - i)") auto

declare build_level.simps [simp del]

lemma build_level_fst: "fst (build_level sha l cur nxt ns i pos) = pair_loop (hash_pair sha) cur nxt i"
proof (induction sha l cur nxt ns i pos rule: build_level.induct)
  case (1 sha l cur nxt ns i pos)
  then show ?case by (subst build_level.simps, subst pair_loop.simps) (simp add: Let_def)
qed

function build_loop ::
  "(bytes \<Rightarrow> bytes) \<Rightarrow> bytes list \<Rightarrow> MerkleNode list \<Rightarrow> u32 \<Rightarrow> MerkleNode list \<times> u32" where
  "build_loop sha current_level nodes level_num =
     (if length current_level > 1 then
        (case build_level sha (level_num + 1) current_level [] nodes 0 0 of
           (next_level, nodes) \<Rightarrow> build_loop sha next_level nodes (level_num + 1))
      else (nodes, level_num))"
  by pat_completeness auto
termination
proof (relation "measure (\<lambda>(sha, cur, ns, l). length cur)", goal_cases)
  case (2 sha cur ns l nxt ns')
  then have "nxt = spec_fold_level (hash_pair sha) cur"
    using build_level_fst [of sha "l + 1" cur "[]" ns 0 0] by (metis append_Nil drop_0 fst_conv pair_loop_fold)
  then show ?case using 2(1) by simp
qed simp

declare build_loop.simps [simp del]

definition build :: "(bytes \<Rightarrow> bytes) \<Rightarrow> EnergyRecord list \<Rightarrow> MerkleTree" where
  "build sha records =
     (if records = [] then
        \<lparr>mt_root = None, mt_leaf_hashes = [], mt_leaf_count = 0, mt_internal_nodes = [], mt_height = 0\<rparr>
      else
        (let leaf_hashes = map (\<lambda>r. hash_leaf sha (record_to_bytes r)) records;
             leaf_count = length leaf_hashes;
             (internal_nodes, level_num) = build_loop sha leaf_hashes (leaf_nodes leaf_hashes) 0;
             root = commit_root sha leaf_count (fold_to_root sha leaf_hashes)
         in \<lparr>mt_root = Some root, mt_leaf_hashes = leaf_hashes, mt_leaf_count = leaf_count,
             mt_internal_nodes = internal_nodes, mt_height = unat (level_num + 1)\<rparr>))"

definition get_nodes_at_level :: "MerkleTree \<Rightarrow> u32 \<Rightarrow> MerkleNode list" where
  "get_nodes_at_level t level = filter (\<lambda>n. mn_level n = level) (mt_internal_nodes t)"

definition get_node :: "MerkleTree \<Rightarrow> u32 \<Rightarrow> u32 \<Rightarrow> MerkleNode option" where
  "get_node t level position =
     find (\<lambda>n. mn_level n = level \<and> mn_position n = position) (mt_internal_nodes t)"

definition root_hash :: "MerkleTree \<Rightarrow> bytes option" where
  "root_hash t = mt_root t"

definition root_hash_hex :: "(bytes \<Rightarrow> bytes) \<Rightarrow> MerkleTree \<Rightarrow> bytes" where
  "root_hash_hex hexenc t =
     (case mt_root t of Some hash \<Rightarrow> hexenc hash | None \<Rightarrow> concat (replicate 64 (str ''0'')))"

definition verify_record :: "(bytes \<Rightarrow> bytes) \<Rightarrow> MerkleTree \<Rightarrow> EnergyRecord \<Rightarrow> nat \<Rightarrow> bool" where
  "verify_record sha t record leaf_index =
     (if leaf_index \<ge> length (mt_leaf_hashes t) then False
      else
        (let computed_hash = hash_leaf sha (record_to_bytes record)
         in computed_hash = mt_leaf_hashes t ! leaf_index))"

record MerkleProof =
  mp_leaf_hash :: bytes
  mp_proof_hashes :: "bytes list"
  mp_proof_directions :: "bool list"
  mp_leaf_index :: nat
  mp_leaf_count :: nat

text \<open>The loop of \<open>generate_proof\<close>: the sibling of the current node is recorded unless the node is
  the promoted last one of an odd level.\<close>

function proof_loop ::
  "(bytes \<Rightarrow> bytes) \<Rightarrow> nat \<Rightarrow> bytes list \<Rightarrow> bytes list \<Rightarrow> bool list \<Rightarrow> bytes list \<times> bool list" where
  "proof_loop sha current_index current_level proof_hashes proof_directions =
     (if length current_level > 1 then
        (let is_promoted_odd =
               length current_level mod 2 = 1 \<and> current_index = length current_level - 1;
             sibling_index = (if current_index mod 2 = 0 then current_index + 1 else current_index - 1);
             (proof_hashes, proof_directions) =
               (if \<not> is_promoted_odd
                then (proof_hashes @ [current_level ! sibling_index],
                      proof_directions @ [current_index mod 2 = 1])
                else (proof_hashes, proof_directions));
             next_level = pair_loop (hash_pair sha) current_level [] 0
         in proof_loop sha (current_index div 2) next_level proof_hashes proof_directions)
      else (proof_hashes, proof_directions))"
  by pat_completeness auto
termination
  by (relation "measure (\<lambda>(sha, i, level, hs, ds). length level)") (auto simp: pair_loop_fold)

declare proof_loop.simps [simp del]

definition generate_proof :: "(bytes \<Rightarrow> bytes) \<Rightarrow> MerkleTree \<Rightarrow> nat \<Rightarrow> MerkleProof option" where
  "generate_proof sha t leaf_index =
     (if leaf_index \<ge> mt_leaf_count t then None
      else
        (let (proof_hashes, proof_directions) = proof_loop sha leaf_index (mt_leaf_hashes t) [] []
         in Some \<lparr>mp_leaf_hash = mt_leaf_hashes t ! leaf_index, mp_proof_hashes = proof_hashes,
                  mp_proof_directions = proof_directions, mp_leaf_index = leaf_index,
                  mp_leaf_count = mt_leaf_count t\<rparr>))"

definition path_step :: "(bytes \<Rightarrow> bytes) \<Rightarrow> bytes \<Rightarrow> bytes \<times> bool \<Rightarrow> bytes" where
  "path_step sha current_hash = (\<lambda>(sibling_hash, is_left).
     if is_left then hash_pair sha sibling_hash current_hash
     else hash_pair sha current_hash sibling_hash)"

definition verify_proof :: "(bytes \<Rightarrow> bytes) \<Rightarrow> MerkleProof \<Rightarrow> bytes \<Rightarrow> bool" where
  "verify_proof sha p root =
     (let current_hash = foldl (path_step sha) (mp_leaf_hash p)
                           (zip (mp_proof_hashes p) (mp_proof_directions p))
      in commit_root sha (mp_leaf_count p) current_hash = root)"

fun join :: "bytes \<Rightarrow> bytes list \<Rightarrow> bytes" where
  "join sep [] = []"
| "join sep [x] = x"
| "join sep (x # y # zs) = x @ sep @ join sep (y # zs)"

definition proof_to_json :: "(bytes \<Rightarrow> bytes) \<Rightarrow> MerkleProof \<Rightarrow> bytes" where
  "proof_to_json hexenc p =
     str ''{\"leaf_hash\":\"'' @ hexenc (mp_leaf_hash p) @ str ''\",\"proof_hashes\":[''
     @ join (str '','') (map (\<lambda>h. str ''\"'' @ hexenc h @ str ''\"'') (mp_proof_hashes p))
     @ str ''],\"directions\":[''
     @ join (str '','') (map (\<lambda>d. if d then str ''true'' else str ''false'') (mp_proof_directions p))
     @ str ''],\"leaf_index\":'' @ dec (mp_leaf_index p)
     @ str '',\"leaf_count\":'' @ dec (mp_leaf_count p) @ str ''}''"

section \<open>Completeness of proofs\<close>

lemma hash_pair_bytes_eq: "hash_pair_bytes sha = hash_pair sha"
  by (intro ext) (simp add: hash_pair_bytes_def hash_pair_def)

lemma fold_level_nth:
  "k < length xs \<Longrightarrow> spec_fold_level h xs ! (k div 2) =
     (if length xs mod 2 = 1 \<and> k = length xs - 1 then xs ! k
      else if k mod 2 = 0 then h (xs ! k) (xs ! (k + 1)) else h (xs ! (k - 1)) (xs ! k))"
proof (induction h xs arbitrary: k rule: spec_fold_level.induct)
  case (3 h x y zs)
  show ?case
  proof (cases "k < 2")
    case True
    then have "k = 0 \<or> k = 1" by auto
    then show ?thesis by auto
  next
    case False
    then obtain m where k: "k = Suc (Suc m)" by (metis add_2_eq_Suc le_add_diff_inverse not_less)
    then show ?thesis
      using "3.IH" [of m] "3.prems" by (cases m) (auto simp: nth_Cons')
  qed
qed auto

lemma path_step_pair [simp]:
  "path_step sha v (s, b) = (if b then hash_pair sha s v else hash_pair sha v s)"
  by (simp add: path_step_def)

text \<open>The value carried by a proof path climbs to the root of its level.\<close>

lemma proof_loop_root:
  assumes "level \<noteq> []" "k < length level" "length hs = length ds"
    and "foldl (path_step sha) v (zip hs ds) = level ! k"
  shows "\<exists>hs' ds'. proof_loop sha k level hs ds = (hs', ds') \<and> length hs' = length ds' \<and>
    foldl (path_step sha) v (zip hs' ds') = spec_fold_to_root (hash_pair sha) level"
  using assms
proof (induction sha k level hs ds rule: proof_loop.induct)
  case (1 sha k level hs ds)
  show ?case
  proof (cases "length level > 1")
    case False
    then obtain x where x: "level = [x]" "k = 0" using 1(2,3) by (cases level) auto
    have "proof_loop sha k level hs ds = (hs, ds)" using False by (subst proof_loop.simps) simp
    moreover have "spec_fold_to_root (hash_pair sha) level = x"
      using x by (subst spec_fold_to_root.simps) simp
    ultimately show ?thesis using 1(4,5) x by simp
  next
    case True
    let ?next = "spec_fold_level (hash_pair sha) level"
    let ?odd = "length level mod 2 = 1 \<and> k = length level - 1"
    let ?sib = "if k mod 2 = 0 then k + 1 else k - 1"
    define hs2 where "hs2 = (if ?odd then hs else hs @ [level ! ?sib])"
    define ds2 where "ds2 = (if ?odd then ds else ds @ [k mod 2 = 1])"
    have step: "proof_loop sha k level hs ds = proof_loop sha (k div 2) ?next hs2 ds2"
      using True by (subst proof_loop.simps) (simp add: hs2_def ds2_def pair_loop_fold Let_def)
    have "k div 2 < length ?next" using 1(3) by simp
    moreover have "foldl (path_step sha) v (zip hs2 ds2) = ?next ! (k div 2)"
      using 1(3-) by (auto simp: hs2_def ds2_def fold_level_nth)
    moreover have "spec_fold_to_root (hash_pair sha) level = spec_fold_to_root (hash_pair sha) ?next"
      using True by (rule fold_root_step)
    moreover have eq: "(hs2, ds2) = (if \<not> ?odd then (hs @ [level ! ?sib], ds @ [k mod 2 = 1]) else (hs, ds))"
      by (auto simp: hs2_def ds2_def)
    moreover have "length hs2 = length ds2" using 1(4) by (simp add: hs2_def ds2_def)
    moreover have "pair_loop (hash_pair sha) level [] 0 = ?next" by (simp add: pair_loop_fold)
    ultimately show ?thesis
      using 1(1) [OF True refl refl refl eq refl] 1(2) step by simp
  qed
qed

lemma build_fields:
  assumes "rs \<noteq> []"
  shows "mt_leaf_hashes (build sha rs) = map (\<lambda>r. hash_leaf sha (record_to_bytes r)) rs"
    "mt_leaf_count (build sha rs) = length rs"
    "mt_root (build sha rs) = Some (commit_root sha (length rs)
       (spec_fold_to_root (hash_pair sha) (map (\<lambda>r. hash_leaf sha (record_to_bytes r)) rs)))"
  using assms by (simp_all add: build_def Let_def split_def refines hash_pair_bytes_eq)

lemma build_empty [simp]: "build sha [] =
  \<lparr>mt_root = None, mt_leaf_hashes = [], mt_leaf_count = 0, mt_internal_nodes = [], mt_height = 0\<rparr>"
  by (simp add: build_def)

lemma generate_proof_verifies:
  assumes "i < length rs"
  shows "\<exists>p root. generate_proof sha (build sha rs) i = Some p \<and> root_hash (build sha rs) = Some root \<and>
    mp_leaf_hash p = hash_leaf sha (record_to_bytes (rs ! i)) \<and> mp_leaf_count p = length rs \<and>
    verify_proof sha p root"
proof -
  let ?ls = "map (\<lambda>r. hash_leaf sha (record_to_bytes r)) rs"
  have ne: "rs \<noteq> []" using assms by auto
  then obtain hs ds where "proof_loop sha i ?ls [] [] = (hs, ds)"
      "foldl (path_step sha) (?ls ! i) (zip hs ds) = spec_fold_to_root (hash_pair sha) ?ls"
    using proof_loop_root [of ?ls i "[]" "[]" sha "?ls ! i"] assms by auto
  then show ?thesis
    using assms by (simp add: generate_proof_def build_fields [OF ne] root_hash_def verify_proof_def)
qed

text \<open>Proof completeness, for every hash function: the proof generated for any record of a built tree
  verifies against the tree's root, and it is a proof of that record's leaf hash; an index outside the
  tree has no proof.\<close>
theorem merkle_proof_complete:
  "(i < length rs \<longrightarrow>
     (\<exists>p root. generate_proof sha (build sha rs) i = Some p \<and> root_hash (build sha rs) = Some root \<and>
        mp_leaf_hash p = hash_leaf sha (record_to_bytes (rs ! i)) \<and> verify_proof sha p root)) \<and>
   (length rs \<le> i \<longrightarrow> generate_proof sha (build sha rs) i = None)"
proof (intro conjI impI)
  assume "length rs \<le> i"
  then show "generate_proof sha (build sha rs) i = None"
    by (cases "rs = []") (simp_all add: generate_proof_def build_fields)
qed (use generate_proof_verifies in blast)

definition rec0 :: EnergyRecord where
  "rec0 = \<lparr>er_pid = 7, er_cpu_time = 1, er_energy_joules = 2, er_power_watts = 3,
     er_vm_name = str ''vm'', er_timestamp = str ''t''\<rparr>"

lemma merkle_proof_complete_witness:
  "\<exists>p root. generate_proof id (build id [rec0, rec0, rec0]) 2 = Some p \<and>
     root_hash (build id [rec0, rec0, rec0]) = Some root \<and> verify_proof id p root"
  using merkle_proof_complete [of 2 "[rec0, rec0, rec0]" id] by auto

section \<open>What a root commits to\<close>

fun level_inputs :: "bytes list \<Rightarrow> bytes list" where
  "level_inputs (x # y # zs) = encode_internal x y # level_inputs zs"
| "level_inputs xs = []"

text \<open>Every byte string hashed while a level is folded to its root.\<close>

function fold_inputs :: "(bytes \<Rightarrow> bytes) \<Rightarrow> bytes list \<Rightarrow> bytes set" where
  "fold_inputs sha level =
     (if length level \<le> 1 then {}
      else set (level_inputs level) \<union> fold_inputs sha (spec_fold_level (hash_pair sha) level))"
  by pat_completeness auto
termination by (relation "measure (\<lambda>(sha, level). length level)") auto

declare fold_inputs.simps [simp del]

text \<open>Every byte string hashed by \<open>build\<close>.\<close>

definition tree_inputs :: "(bytes \<Rightarrow> bytes) \<Rightarrow> EnergyRecord list \<Rightarrow> bytes set" where
  "tree_inputs sha rs =
     (let ls = map (\<lambda>r. hash_leaf sha (record_to_bytes r)) rs
      in (\<lambda>r. encode_leaf (record_to_bytes r)) ` set rs \<union> fold_inputs sha ls
         \<union> {encode_root (of_nat (length rs)) (spec_fold_to_root (hash_pair sha) ls)})"

lemma fold_level_inj:
  assumes "inj_on sha (set (level_inputs xs) \<union> set (level_inputs ys))"
    and "\<forall>x \<in> set xs. length x = 32" "\<forall>y \<in> set ys. length y = 32"
    and "length xs = length ys" "spec_fold_level (hash_pair sha) xs = spec_fold_level (hash_pair sha) ys"
  shows "xs = ys"
  using assms
proof (induction xs arbitrary: ys rule: level_inputs.induct)
  case (1 x y zs)
  from "1.prems"(4) obtain a b cs where ys: "ys = a # b # cs"
    by (cases ys rule: level_inputs.cases) auto
  have "sha (encode_internal x y) = sha (encode_internal a b)"
    using "1.prems"(5) unfolding ys by (simp only: spec_fold_level.simps hash_pair_def list.inject)
  moreover have "encode_internal x y \<in> set (level_inputs (x # y # zs)) \<union> set (level_inputs ys)"
    "encode_internal a b \<in> set (level_inputs (x # y # zs)) \<union> set (level_inputs ys)"
    by (simp_all add: ys)
  ultimately have "encode_internal x y = encode_internal a b" by (rule inj_onD [OF "1.prems"(1)])
  moreover have "length x = length a" using "1.prems"(2,3) ys by simp
  ultimately have "x = a" "y = b" using encode_internal_inj by blast+
  moreover have "zs = cs"
  proof (rule "1.IH")
    show "inj_on sha (set (level_inputs zs) \<union> set (level_inputs cs))"
      by (rule inj_on_subset [OF "1.prems"(1)]) (auto simp: ys)
  qed (use "1.prems"(2-5) ys in simp_all)
  ultimately show ?case by (simp add: ys)
qed (auto simp: Suc_length_conv)

lemma fold_level_hashes:
  assumes "\<forall>x. length (sha x) = 32" "\<forall>x \<in> set xs. length x = 32"
  shows "\<forall>x \<in> set (spec_fold_level (hash_pair sha) xs). length x = 32"
  using assms(2)
  by (induction "hash_pair sha" xs rule: spec_fold_level.induct) (auto simp: assms(1) hash_pair_def)

lemma fold_root_inj:
  assumes len: "\<forall>x. length (sha x) = 32"
    and "inj_on sha (fold_inputs sha xs \<union> fold_inputs sha ys)"
    and "\<forall>x \<in> set xs. length x = 32" "\<forall>y \<in> set ys. length y = 32" "length xs = length ys"
    and "spec_fold_to_root (hash_pair sha) xs = spec_fold_to_root (hash_pair sha) ys"
  shows "xs = ys"
  using assms(2-)
proof (induction "length xs" arbitrary: xs ys rule: less_induct)
  case less
  show ?case
  proof (cases "length xs \<le> 1")
    case True
    then consider "xs = []" | x where "xs = [x]" by (cases xs) auto
    then show ?thesis
    proof cases
      case 2
      then obtain y where "ys = [y]" using less.prems(4) by (cases ys) auto
      then show ?thesis using 2 less.prems(5) by (simp add: spec_fold_to_root.simps)
    qed (use less.prems(4) in simp)
  next
    case False
    let ?f = "spec_fold_level (hash_pair sha)"
    have unf: "fold_inputs sha xs = set (level_inputs xs) \<union> fold_inputs sha (?f xs)"
      "fold_inputs sha ys = set (level_inputs ys) \<union> fold_inputs sha (?f ys)"
      "spec_fold_to_root (hash_pair sha) xs = spec_fold_to_root (hash_pair sha) (?f xs)"
      "spec_fold_to_root (hash_pair sha) ys = spec_fold_to_root (hash_pair sha) (?f ys)"
      using False less.prems(4)
      by (simp_all add: fold_inputs.simps [of sha xs] fold_inputs.simps [of sha ys] fold_root_step)
    have "?f xs = ?f ys"
    proof (rule less.hyps)
      show "length (?f xs) < length xs" using False by simp
      show "inj_on sha (fold_inputs sha (?f xs) \<union> fold_inputs sha (?f ys))"
        using less.prems(1) unfolding unf by (rule inj_on_subset) auto
      show "spec_fold_to_root (hash_pair sha) (?f xs) = spec_fold_to_root (hash_pair sha) (?f ys)"
        using less.prems(5) unfolding unf .
    qed (use less.prems(2-4) fold_level_hashes [OF len] in simp_all)
    moreover have "inj_on sha (set (level_inputs xs) \<union> set (level_inputs ys))"
      using less.prems(1) unfolding unf by (rule inj_on_subset) auto
    ultimately show ?thesis using fold_level_inj [of sha xs ys] less.prems(2-4) by blast
  qed
qed

definition valid_record :: "EnergyRecord \<Rightarrow> bool" where
  "valid_record r \<longleftrightarrow> length (er_vm_name r) < 2 ^ 32 \<and> length (er_timestamp r) < 2 ^ 32"

lemma record_to_bytes_inj:
  "valid_record r \<Longrightarrow> valid_record s \<Longrightarrow> record_to_bytes r = record_to_bytes s \<Longrightarrow> r = s"
  using spec_encode_record_split [of "er_vm_name r" "er_timestamp r" "er_vm_name s" "er_timestamp s"
      "er_pid r" "er_cpu_time r" "er_energy_joules r" "er_power_watts r" "[]" "er_pid s"
      "er_cpu_time s" "er_energy_joules s" "er_power_watts s" "[]"]
  by (simp add: valid_record_def record_to_bytes_def refines)

lemma encode_leaf_inj: "encode_leaf a = encode_leaf b \<longleftrightarrow> a = b"
  by (simp add: refines node_specs)

lemma leaf_not_internal: "encode_leaf a \<noteq> encode_internal l r"
  by (simp add: refines node_specs domain_defs)

lemma of_nat_u64_inj:
  assumes "m < 2 ^ 64" "n < 2 ^ 64" "(of_nat m :: u64) = of_nat n"
  shows "m = n"
proof -
  have "unat (of_nat m :: u64) = m" "unat (of_nat n :: u64) = n"
    using assms(1,2) by (simp_all add: unat_of_nat_u64)
  then show ?thesis using assms(3) by metis
qed

lemma root_hash_binds:
  assumes len: "\<forall>x. length (sha x) = 32"
    and inj: "inj_on sha (tree_inputs sha rs \<union> tree_inputs sha ss)"
    and ne: "rs \<noteq> []" "ss \<noteq> []" and n: "length rs < 2 ^ 64" "length ss < 2 ^ 64"
    and valid: "list_all valid_record rs" "list_all valid_record ss"
    and eq: "root_hash (build sha rs) = root_hash (build sha ss)"
  shows "rs = ss"
proof -
  let ?l = "\<lambda>r. hash_leaf sha (record_to_bytes r)"
  let ?root = "\<lambda>rs. encode_root (of_nat (length rs)) (spec_fold_to_root (hash_pair sha) (map ?l rs))"
  have "sha (?root rs) = sha (?root ss)"
    using eq by (simp add: root_hash_def build_fields ne commit_root_def)
  then have "?root rs = ?root ss"
    by (rule inj_onD [OF inj]) (simp_all add: tree_inputs_def Let_def)
  then have "(of_nat (length rs) :: u64) = of_nat (length ss)"
    and root: "spec_fold_to_root (hash_pair sha) (map ?l rs) = spec_fold_to_root (hash_pair sha) (map ?l ss)"
    using encode_root_inj by blast+
  then have l: "length rs = length ss" using n of_nat_u64_inj by blast
  have inj': "inj_on sha (fold_inputs sha (map ?l rs) \<union> fold_inputs sha (map ?l ss))"
    by (rule inj_on_subset [OF inj]) (auto simp: tree_inputs_def Let_def)
  have "\<forall>x \<in> set (map ?l qs). length x = 32" for qs using len by (simp add: hash_leaf_def)
  then have hs: "map ?l rs = map ?l ss" using fold_root_inj [OF len inj' _ _ _ root] l by simp
  show ?thesis
  proof (rule nth_equalityI [OF l])
    fix i assume i: "i < length rs"
    then have "sha (encode_leaf (record_to_bytes (rs ! i))) = sha (encode_leaf (record_to_bytes (ss ! i)))"
      using arg_cong [OF hs, of "\<lambda>l. l ! i"] l by (simp add: hash_leaf_def)
    then have "encode_leaf (record_to_bytes (rs ! i)) = encode_leaf (record_to_bytes (ss ! i))"
      by (rule inj_onD [OF inj]) (use i l in \<open>auto simp: tree_inputs_def Let_def\<close>)
    then show "rs ! i = ss ! i"
      using valid i l by (intro record_to_bytes_inj) (simp_all add: encode_leaf_inj list_all_length)
  qed
qed

text \<open>C26: A Merkle root commits to its records: when the hash function has no collision among the byte
  strings hashed for two trees, equal roots mean the same records in the same order (so no record can be
  altered, dropped, added or moved).\<close>
theorem merkle_root_binds:
  assumes len: "\<forall>x. length (sha x) = 32"
    and inj: "inj_on sha (tree_inputs sha rs \<union> tree_inputs sha ss)"
    and ne: "rs \<noteq> []" "ss \<noteq> []" and n: "length rs < 2 ^ 64" "length ss < 2 ^ 64"
    and valid: "list_all valid_record rs" "list_all valid_record ss"
    and eq: "root_hash (build sha rs) = root_hash (build sha ss)"
  shows "rs = ss"
  by (rule root_hash_binds [OF assms])

text \<open>
  For the witnesses, a hash that keeps the first 32 bytes of its input: it is collision-free on
  the few inputs used there.
\<close>

definition toy_sha :: "bytes \<Rightarrow> bytes" where
  "toy_sha x = take 32 (x @ replicate 32 0)"

lemma length_toy_sha: "\<forall>x. length (toy_sha x) = 32"
  by (simp add: toy_sha_def min_def)

lemma toy_sha_hd: "x \<noteq> [] \<Longrightarrow> hd (toy_sha x) = hd x"
  by (cases x) (simp_all add: toy_sha_def)

lemma toy_tree_inj: "inj_on toy_sha (tree_inputs toy_sha [r])"
proof -
  have "hd (toy_sha (encode_leaf x)) \<noteq> hd (toy_sha (encode_root n y))" for x n y
    by (simp add: toy_sha_hd refines node_specs domain_defs)
  then have "toy_sha (encode_leaf x) \<noteq> toy_sha (encode_root n y)" for x n y by metis
  then have "inj_on toy_sha {encode_leaf x, encode_root n y}" for x n y
    unfolding inj_on_def by (metis insertE singletonD)
  moreover have "fold_inputs toy_sha [x] = {}" for x by (simp add: fold_inputs.simps)
  ultimately show ?thesis by (simp add: tree_inputs_def Let_def insert_commute)
qed

lemma toy_sha_nth: "i < 32 \<Longrightarrow> i < length x \<Longrightarrow> toy_sha x ! i = x ! i"
  by (simp add: toy_sha_def nth_append)

lemma merkle_root_binds_witness:
  "root_hash (build toy_sha [rec0]) \<noteq> root_hash (build toy_sha [rec0\<lparr>er_pid := 1\<rparr>])"
proof -
  define r1 where "r1 = rec0\<lparr>er_pid := 1\<rparr>"
  define l0 l1 where "l0 = encode_leaf (record_to_bytes rec0)" and "l1 = encode_leaf (record_to_bytes r1)"
  define n0 n1 where "n0 = encode_root 1 (toy_sha l0)" and "n1 = encode_root 1 (toy_sha l1)"
  note enc = refines record_to_bytes_def spec_encode_record_def spec_encode_leaf_def spec_u32_le_def rec0_def
  have len: "2 < length l0" "2 < length l1" by (simp_all add: l0_def l1_def r1_def enc)
  have "l0 ! 2 \<noteq> l1 ! 2" by (simp add: l0_def l1_def r1_def enc)
  then have 1: "toy_sha l0 \<noteq> toy_sha l1" "toy_sha l0 ! 2 \<noteq> toy_sha l1 ! 2"
    using toy_sha_nth [OF _ len(1)] toy_sha_nth [OF _ len(2)] by auto
  have "encode_root 1 x ! 11 = x ! 2" "length (encode_root 1 x) = 9 + length x" for x
    by (simp_all add: refines spec_encode_root_def nth_append)
  then have "toy_sha n0 ! 11 \<noteq> toy_sha n1 ! 11"
    using 1 toy_sha_nth [of 11 n0] toy_sha_nth [of 11 n1] length_toy_sha by (simp add: n0_def n1_def)
  then have 2: "toy_sha n0 \<noteq> toy_sha n1" by auto
  have 3: "toy_sha (encode_leaf x) \<noteq> toy_sha (encode_root n y)" for x n y
    using toy_sha_hd [of "encode_leaf x"] toy_sha_hd [of "encode_root n y"]
    by (auto simp: refines node_specs domain_defs)
  have "inj_on toy_sha {l0, l1, n0, n1}"
    unfolding inj_on_def using 1 2 3 3 [symmetric] by (auto simp: l0_def l1_def n0_def n1_def)
  moreover have "tree_inputs toy_sha [rec0] \<union> tree_inputs toy_sha [r1] = {l0, l1, n0, n1}"
    by (auto simp: tree_inputs_def Let_def fold_inputs.simps l0_def l1_def n0_def n1_def hash_leaf_def)
  ultimately have "inj_on toy_sha (tree_inputs toy_sha [rec0] \<union> tree_inputs toy_sha [r1])" by simp
  then show ?thesis
    using merkle_root_binds [OF length_toy_sha, of "[rec0]" "[r1]"]
    by (auto simp: valid_record_def r1_def rec0_def str_def)
qed

section \<open>What a verified proof shows\<close>

text \<open>All hashes that occur in the levels above and including a list of leaves.\<close>

function fold_nodes :: "(bytes \<Rightarrow> bytes) \<Rightarrow> bytes list \<Rightarrow> bytes set" where
  "fold_nodes sha level =
     set level \<union> (if length level \<le> 1 then {} else fold_nodes sha (spec_fold_level (hash_pair sha) level))"
  by pat_completeness auto
termination by (relation "measure (\<lambda>(sha, level). length level)") auto

declare fold_nodes.simps [simp del]

text \<open>Every byte string hashed by \<open>verify_proof\<close> on the way up.\<close>

fun path_inputs :: "(bytes \<Rightarrow> bytes) \<Rightarrow> bytes \<Rightarrow> (bytes \<times> bool) list \<Rightarrow> bytes set" where
  "path_inputs sha v [] = {}"
| "path_inputs sha v ((s, d) # ps) =
     insert (if d then encode_internal s v else encode_internal v s)
       (path_inputs sha (path_step sha v (s, d)) ps)"

lemma root_in_nodes: "level \<noteq> [] \<Longrightarrow> spec_fold_to_root (hash_pair sha) level \<in> fold_nodes sha level"
proof (induction sha level rule: fold_nodes.induct)
  case (1 sha level)
  show ?case
  proof (cases "length level \<le> 1")
    case True
    then obtain x where "level = [x]" using 1(2) by (cases level) auto
    then show ?thesis by (simp add: fold_nodes.simps)
  next
    case False
    then show ?thesis using 1 by (subst fold_nodes.simps) (simp add: fold_root_step)
  qed
qed

lemma level_pair_source:
  "x \<in> set (spec_fold_level (hash_pair sha) xs) \<Longrightarrow>
   x \<in> set xs \<or> (\<exists>l \<in> set xs. \<exists>r \<in> set xs. x = hash_pair sha l r \<and> encode_internal l r \<in> set (level_inputs xs))"
  by (induction xs rule: level_inputs.induct) auto

lemma node_source:
  "x \<in> fold_nodes sha level \<Longrightarrow>
   x \<in> set level \<or> (\<exists>l \<in> fold_nodes sha level. \<exists>r \<in> fold_nodes sha level.
     x = hash_pair sha l r \<and> encode_internal l r \<in> fold_inputs sha level)"
proof (induction sha level rule: fold_nodes.induct)
  case (1 sha level)
  show ?case
  proof (cases "length level \<le> 1 \<or> x \<in> set level")
    case True
    then show ?thesis using 1(2) by (subst (asm) fold_nodes.simps) auto
  next
    case False
    let ?f = "spec_fold_level (hash_pair sha) level"
    have n: "fold_nodes sha level = set level \<union> fold_nodes sha ?f"
      using False by (subst fold_nodes.simps) simp
    have i: "fold_inputs sha level = set (level_inputs level) \<union> fold_inputs sha ?f"
      using False by (subst fold_inputs.simps) simp
    from 1(2) False n have "x \<in> fold_nodes sha ?f" by blast
    then have "x \<in> set ?f \<or> (\<exists>l \<in> fold_nodes sha ?f. \<exists>r \<in> fold_nodes sha ?f.
        x = hash_pair sha l r \<and> encode_internal l r \<in> fold_inputs sha ?f)"
      using 1(1) False by blast
    then show ?thesis
      unfolding n i using level_pair_source [of x sha level] by blast
  qed
qed

lemma node_length:
  assumes "\<forall>x. length (sha x) = 32" "\<forall>x \<in> set level. length x = 32" "x \<in> fold_nodes sha level"
  shows "length x = 32"
  using node_source [OF assms(3)] assms(1,2) by (auto simp: hash_pair_def)

lemma path_from_leaf:
  fixes sha leaf recs
  defines "ls \<equiv> map (\<lambda>e. sha (encode_leaf e)) recs"
  assumes len: "\<forall>x. length (sha x) = 32"
    and inj: "inj_on sha ((encode_leaf ` set recs \<union> fold_inputs sha ls) \<union> path_inputs sha v ps)"
    and sib: "\<forall>(s, d) \<in> set ps. length s = 32" and v: "length v = 32"
    and root: "foldl (path_step sha) v ps \<in> fold_nodes sha ls"
  shows "v \<in> fold_nodes sha ls"
  using inj sib v root
proof (induction ps arbitrary: v)
  case (Cons p ps)
  obtain s d where p: "p = (s, d)" by (cases p)
  define a b where "a = (if d then s else v)" and "b = (if d then v else s)"
  have step: "path_step sha v (s, d) = sha (encode_internal a b)"
    by (simp add: a_def b_def hash_pair_def)
  have ab: "length a = 32" "length b = 32" using Cons.prems(2,3) by (simp_all add: p a_def b_def)
  have in_path: "encode_internal a b \<in> path_inputs sha v (p # ps)" by (simp add: p a_def b_def)
  have "path_step sha v (s, d) \<in> fold_nodes sha ls"
  proof (rule Cons.IH)
    show "inj_on sha ((encode_leaf ` set recs \<union> fold_inputs sha ls) \<union>
        path_inputs sha (path_step sha v (s, d)) ps)"
      using Cons.prems(1) unfolding p by (rule inj_on_subset) auto
  qed (use Cons.prems(2,4) step len p in simp_all)
  then have "sha (encode_internal a b) \<in> set ls \<or> (\<exists>l \<in> fold_nodes sha ls. \<exists>r \<in> fold_nodes sha ls.
      sha (encode_internal a b) = sha (encode_internal l r) \<and> encode_internal l r \<in> fold_inputs sha ls)"
    unfolding step using node_source [of "sha (encode_internal a b)" sha ls] by (simp add: hash_pair_def)
  then show ?case
  proof
    assume "sha (encode_internal a b) \<in> set ls"
    then obtain e where e: "e \<in> set recs" "sha (encode_internal a b) = sha (encode_leaf e)"
      by (auto simp: ls_def)
    have "encode_internal a b = encode_leaf e"
      by (rule inj_onD [OF Cons.prems(1) e(2)]) (use in_path e(1) in blast)+
    then show ?case using leaf_not_internal by metis
  next
    assume "\<exists>l \<in> fold_nodes sha ls. \<exists>r \<in> fold_nodes sha ls.
      sha (encode_internal a b) = sha (encode_internal l r) \<and> encode_internal l r \<in> fold_inputs sha ls"
    then obtain l r where lr: "l \<in> fold_nodes sha ls" "r \<in> fold_nodes sha ls"
        "sha (encode_internal a b) = sha (encode_internal l r)" "encode_internal l r \<in> fold_inputs sha ls"
      by blast
    have "encode_internal a b = encode_internal l r"
      by (rule inj_onD [OF Cons.prems(1) lr(3)]) (use in_path lr(4) in blast)+
    moreover have "length l = 32" using node_length [OF len _ lr(1)] len by (simp add: ls_def)
    ultimately have "a = l \<and> b = r" using encode_internal_inj [of a l b r] ab by simp
    then show ?case using lr(1,2) by (cases d) (auto simp: a_def b_def)
  qed
qed simp



end
