(* ===== verification/Calendar.thy ===== *)
theory Calendar
  imports RustStd
begin

text \<open>
  The three date computations of the guest enclave: \<open>get_timestamp\<close> of \<open>src/sgx_vm/src/blockchain.rs\<close>,
  \<open>get_timestamp\<close> of \<open>src/sgx_vm/src/main.rs\<close> and \<open>sgx_get_timestamp\<close> of
  \<open>src/sgx_vm/src/lib.rs\<close>. The clock is a parameter, the number of seconds since the epoch. Years are
  unbounded here; in the code they are at least 32 bits wide, enough for two thousand million years.
  The interface \<open>calendar\<close> states what a split of a day number into year and month must satisfy, and
  proves that the date is the proleptic Gregorian one.
\<close>

section \<open>The Gregorian calendar\<close>

definition leap :: "nat \<Rightarrow> bool" where
  "leap y \<longleftrightarrow> (4 dvd y \<and> \<not> 100 dvd y) \<or> 400 dvd y"

definition year_length :: "nat \<Rightarrow> nat" where
  "year_length y = (if leap y then 366 else 365)"

definition month_length :: "nat \<Rightarrow> nat \<Rightarrow> nat" where
  "month_length y m =
     (if m = 2 then (if leap y then 29 else 28) else if m \<in> {4, 6, 9, 11} then 30 else 31)"

definition days_before_year :: "nat \<Rightarrow> nat" where
  "days_before_year y = sum_list (map year_length [1970..<y])"

definition days_before_month :: "nat \<Rightarrow> nat \<Rightarrow> nat" where
  "days_before_month y m = sum_list (map (month_length y) [1..<m])"

definition valid_date :: "nat \<Rightarrow> nat \<Rightarrow> nat \<Rightarrow> bool" where
  "valid_date y m d \<longleftrightarrow> 1970 \<le> y \<and> 1 \<le> m \<and> m \<le> 12 \<and> 1 \<le> d \<and> d \<le> month_length y m"

definition day_number :: "nat \<Rightarrow> nat \<Rightarrow> nat \<Rightarrow> nat" where
  "day_number y m d = days_before_year y + days_before_month y m + (d - 1)"

lemma days_before_year_Suc: "1970 \<le> y \<Longrightarrow> days_before_year (Suc y) = days_before_year y + year_length y"
  by (simp add: days_before_year_def)

lemma days_before_month_Suc: "1 \<le> m \<Longrightarrow> days_before_month y (Suc m) = days_before_month y m + month_length y m"
  by (simp add: days_before_month_def)

lemma months_of_year: "days_before_month y 13 = year_length y"
proof -
  have "[1..<13] = [1, 2, 3, 4, 5, 6, 7, 8, 9, 10, 11, 12 :: nat]" by (simp add: upt_rec)
  then show ?thesis by (simp add: days_before_month_def month_length_def year_length_def)
qed

lemma days_before_month_mono: "m \<le> n \<Longrightarrow> days_before_month y m \<le> days_before_month y n"
  by (induction n) (auto simp: days_before_month_def le_Suc_eq upt_Suc)

lemma days_before_year_mono: "1970 \<le> y \<Longrightarrow> y \<le> z \<Longrightarrow> days_before_year y \<le> days_before_year z"
  by (induction z) (auto simp: days_before_year_def le_Suc_eq upt_Suc)

lemma day_in_year:
  assumes "valid_date y m d" shows "days_before_month y m + (d - 1) < year_length y"
proof -
  have "days_before_month y m + (d - 1) < days_before_month y (Suc m)"
    using assms by (simp add: valid_date_def days_before_month_Suc) linarith
  also have "\<dots> \<le> days_before_month y 13"
    using assms by (intro days_before_month_mono) (simp add: valid_date_def)
  finally show ?thesis by (simp only: months_of_year)
qed

text \<open>A day number belongs to one date only.\<close>

lemma day_number_inj:
  assumes v: "valid_date y m d" "valid_date z n e" and eq: "day_number y m d = day_number z n e"
  shows "y = z \<and> m = n \<and> d = e"
proof -
  have year: "a = b" if "valid_date a i k" "valid_date b j l" "day_number a i k = day_number b j l" "a \<le> b"
    for a i k b j l
  proof (rule ccontr)
    assume "a \<noteq> b"
    have "day_number a i k < days_before_year (Suc a)"
      using day_in_year [OF that(1)] that(1) by (simp add: day_number_def days_before_year_Suc valid_date_def)
    also have "\<dots> \<le> days_before_year b"
      using that(1,4) \<open>a \<noteq> b\<close> by (intro days_before_year_mono) (simp_all add: valid_date_def)
    finally show False using that(3) by (simp add: day_number_def)
  qed
  then have y: "y = z" using v eq by (metis nat_le_linear)
  have month: "i = j" if "valid_date a i k" "valid_date a j l" "day_number a i k = day_number a j l" "i \<le> j"
    for a i k j l
  proof (rule ccontr)
    assume "i \<noteq> j"
    have "days_before_month a i + (k - 1) < days_before_month a (Suc i)"
      using that(1) by (simp add: valid_date_def days_before_month_Suc) linarith
    also have "\<dots> \<le> days_before_month a j"
      using that(4) \<open>i \<noteq> j\<close> by (intro days_before_month_mono) simp
    finally show False using that(3) by (simp add: day_number_def)
  qed
  have "m = n" using v eq month [of y m d n e] month [of y n e m d] y by (metis nat_le_linear)
  moreover from this have "d = e" using v eq y by (simp add: day_number_def valid_date_def) linarith
  ultimately show ?thesis using y by simp
qed

section \<open>The interface of a date computation\<close>

locale calendar =
  fixes split_year :: "nat \<Rightarrow> nat \<times> nat"
    and split_month :: "nat \<Rightarrow> nat \<Rightarrow> nat \<times> nat"
  assumes year: "split_year n = (y, r) \<Longrightarrow> 1970 \<le> y \<and> n = days_before_year y + r \<and> r < year_length y"
    and month: "r < year_length y \<Longrightarrow> split_month y r = (m, k) \<Longrightarrow>
      1 \<le> m \<and> m \<le> 12 \<and> r = days_before_month y m + k \<and> k < month_length y m"
begin

definition date :: "nat \<Rightarrow> nat \<times> nat \<times> nat" where
  "date n = (case split_year n of (y, r) \<Rightarrow> case split_month y r of (m, k) \<Rightarrow> (y, m, k + 1))"

lemma date_correct: "date n = (y, m, d) \<Longrightarrow> valid_date y m d \<and> day_number y m d = n"
  using year month by (fastforce simp: date_def valid_date_def day_number_def split: prod.splits)

lemma date_unique: "valid_date y m d \<Longrightarrow> day_number y m d = n \<Longrightarrow> date n = (y, m, d)"
  using date_correct [of n] day_number_inj [of y m d] by (metis prod_cases3)

lemma date_iff: "date n = (y, m, d) \<longleftrightarrow> valid_date y m d \<and> day_number y m d = n"
  using date_correct date_unique by blast

end

section \<open>\<open>blockchain.rs\<close>\<close>

definition is_leap_year :: "nat \<Rightarrow> bool" where
  "is_leap_year year \<longleftrightarrow> (year mod 4 = 0 \<and> year mod 100 \<noteq> 0) \<or> year mod 400 = 0"

function bc_year_loop :: "nat \<Rightarrow> nat \<Rightarrow> nat \<times> nat" where
  "bc_year_loop year remaining_days =
     (let days_in_year = (if is_leap_year year then 366 else 365)
      in if remaining_days < days_in_year then (year, remaining_days)
         else bc_year_loop (year + 1) (remaining_days - days_in_year))"
  by pat_completeness auto
termination by (relation "measure snd") auto

declare bc_year_loop.simps [simp del]

fun month_scan :: "nat list \<Rightarrow> nat \<Rightarrow> nat \<Rightarrow> nat \<times> nat" where
  "month_scan [] remaining_days month = (month, remaining_days)"
| "month_scan (days_in_month # rest) remaining_days month =
     (if remaining_days < days_in_month then (month, remaining_days)
      else month_scan rest (remaining_days - days_in_month) (month + 1))"

definition bc_month :: "nat \<Rightarrow> nat \<Rightarrow> nat \<times> nat" where
  "bc_month year remaining_days =
     month_scan
       (if is_leap_year year then [31, 29, 31, 30, 31, 30, 31, 31, 30, 31, 30, 31]
        else [31, 28, 31, 30, 31, 30, 31, 31, 30, 31, 30, 31]) remaining_days 1"

definition bc_get_timestamp :: "nat \<Rightarrow> bytes" where
  "bc_get_timestamp secs =
     (let days = secs div 86400; time_secs = secs mod 86400;
          hours = time_secs div 3600; minutes = (time_secs mod 3600) div 60; seconds = time_secs mod 60;
          (year, remaining_days) = bc_year_loop 1970 days;
          (month, remaining_days) = bc_month year remaining_days;
          day = remaining_days + 1
      in pad0 4 (dec year) @ str ''-'' @ pad0 2 (dec month) @ str ''-'' @ pad0 2 (dec day) @ str ''T''
         @ pad0 2 (dec hours) @ str '':'' @ pad0 2 (dec minutes) @ str '':'' @ pad0 2 (dec seconds)
         @ str ''Z'')"

section \<open>\<open>main.rs\<close>, with signed day counts\<close>

function main_year_loop :: "nat \<Rightarrow> int \<Rightarrow> nat \<times> int" where
  "main_year_loop year remaining_days =
     (let days_in_year =
            (if year mod 4 = 0 \<and> (year mod 100 \<noteq> 0 \<or> year mod 400 = 0) then 366 else 365)
      in if remaining_days < days_in_year then (year, remaining_days)
         else main_year_loop (year + 1) (remaining_days - days_in_year))"
  by pat_completeness auto
termination by (relation "measure (\<lambda>(y, r). nat r)") auto

declare main_year_loop.simps [simp del]

fun main_month_scan :: "int list \<Rightarrow> int \<Rightarrow> nat \<Rightarrow> nat \<times> int" where
  "main_month_scan [] remaining_days month = (month, remaining_days)"
| "main_month_scan (days # rest) remaining_days month =
     (if remaining_days < days then (month, remaining_days)
      else main_month_scan rest (remaining_days - days) (month + 1))"

definition main_month :: "nat \<Rightarrow> int \<Rightarrow> nat \<times> int" where
  "main_month year remaining_days =
     (let is_leap = year mod 4 = 0 \<and> (year mod 100 \<noteq> 0 \<or> year mod 400 = 0)
      in main_month_scan
           (if is_leap then [31, 29, 31, 30, 31, 30, 31, 31, 30, 31, 30, 31]
            else [31, 28, 31, 30, 31, 30, 31, 31, 30, 31, 30, 31]) remaining_days 1)"

definition main_get_timestamp :: "nat \<Rightarrow> bytes" where
  "main_get_timestamp secs =
     (let days_since_epoch = secs div 86400; time_of_day = secs mod 86400;
          hours = time_of_day div 3600; minutes = (time_of_day mod 3600) div 60;
          seconds = time_of_day mod 60;
          (year, remaining_days) = main_year_loop 1970 (int days_since_epoch);
          (month, remaining_days) = main_month year remaining_days;
          day = remaining_days + 1
      in pad0 4 (dec year) @ str ''-'' @ pad0 2 (dec month) @ str ''-'' @ pad0 2 (dec (nat day)) @ str '' ''
         @ pad0 2 (dec hours) @ str '':'' @ pad0 2 (dec minutes) @ str '':'' @ pad0 2 (dec seconds))"

section \<open>\<open>lib.rs\<close>, with a loop over the months\<close>

definition sgx_days_in_month :: "nat \<Rightarrow> nat \<Rightarrow> nat" where
  "sgx_days_in_month year m =
     (if m \<in> {1, 3, 5, 7, 8, 10, 12} then 31 else if m \<in> {4, 6, 9, 11} then 30
      else if m = 2 then (if (year mod 4 = 0 \<and> year mod 100 \<noteq> 0) \<or> year mod 400 = 0 then 29 else 28)
      else 0)"

fun sgx_month_loop :: "nat \<Rightarrow> nat list \<Rightarrow> nat \<Rightarrow> nat \<Rightarrow> nat \<times> nat" where
  "sgx_month_loop year [] day_count month = (month, day_count)"
| "sgx_month_loop year (m # ms) day_count month =
     (let days_in_month = sgx_days_in_month year m
      in if day_count < days_in_month then (m, day_count)
         else sgx_month_loop year ms (day_count - days_in_month) month)"

definition sgx_month :: "nat \<Rightarrow> nat \<Rightarrow> nat \<times> nat" where
  "sgx_month year day_count = sgx_month_loop year [1..<13] day_count 1"

definition sgx_get_timestamp :: "nat \<Rightarrow> bytes" where
  "sgx_get_timestamp secs =
     (let days = secs div 86400; remaining = secs mod 86400;
          hour = remaining div 3600; min = (remaining mod 3600) div 60; sec = remaining mod 60;
          (year, day_count) = bc_year_loop 1970 days;
          (month, day_count) = sgx_month year day_count;
          day = day_count + 1
      in pad0 4 (dec year) @ str ''-'' @ pad0 2 (dec month) @ str ''-'' @ pad0 2 (dec day) @ str ''T''
         @ pad0 2 (dec hour) @ str '':'' @ pad0 2 (dec min) @ str '':'' @ pad0 2 (dec sec) @ str ''Z'')"

section \<open>All three compute the Gregorian date\<close>

lemma is_leap_year_leap [refines]: "is_leap_year y = leap y"
  by (simp add: is_leap_year_def leap_def dvd_eq_mod_eq_0)

lemma main_leap [refines]:
  "(y mod 4 = 0 \<and> (y mod 100 \<noteq> 0 \<or> y mod 400 = 0)) = leap y" for y :: nat
proof -
  have "400 dvd y \<Longrightarrow> 4 dvd y" by (rule dvd_trans [of 4 400]) simp_all
  then show ?thesis by (auto simp: leap_def dvd_eq_mod_eq_0)
qed

lemma bc_year_loop_unfold:
  "bc_year_loop y r =
     (if r < year_length y then (y, r) else bc_year_loop (y + 1) (r - year_length y))"
  by (subst bc_year_loop.simps) (simp add: is_leap_year_leap year_length_def Let_def)

lemma main_year_loop_unfold:
  "main_year_loop y r =
     (if r < int (year_length y) then (y, r) else main_year_loop (y + 1) (r - int (year_length y)))"
  by (subst main_year_loop.simps, simp only: main_leap) (simp add: year_length_def Let_def)

lemma bc_year_loop_split:
  "1970 \<le> y \<Longrightarrow> bc_year_loop y r = (z, k) \<Longrightarrow>
   1970 \<le> z \<and> days_before_year y + r = days_before_year z + k \<and> k < year_length z"
proof (induction y r rule: bc_year_loop.induct)
  case (1 y r)
  show ?case
  proof (cases "r < year_length y")
    case True
    then have "bc_year_loop y r = (y, r)"
      by (subst bc_year_loop.simps) (simp add: refines year_length_def Let_def)
    then show ?thesis using 1(2,3) True by simp
  next
    case False
    then have "bc_year_loop y r = bc_year_loop (y + 1) (r - year_length y)"
      by (subst bc_year_loop.simps) (simp add: refines year_length_def Let_def)
    then show ?thesis
      using 1(1) [OF refl] 1(2,3) False by (simp add: refines year_length_def days_before_year_Suc)
  qed
qed

lemma month_scan_split:
  assumes "1 \<le> m" "days_before_month y m + r < year_length y" "m + length ds = 13"
    and "\<And>i. i < length ds \<Longrightarrow> ds ! i = month_length y (m + i)"
    and "month_scan ds r m = (n, k)"
  shows "m \<le> n \<and> n \<le> 12 \<and> days_before_month y m + r = days_before_month y n + k \<and> k < month_length y n"
  using assms
proof (induction ds arbitrary: m r)
  case Nil
  then have "m = 13" by simp
  then show ?case using Nil.prems(2) by (simp add: months_of_year)
next
  case (Cons d ds)
  have d: "d = month_length y m" using Cons.prems(4) [of 0] by simp
  show ?case
  proof (cases "r < d")
    case True
    then show ?thesis using Cons.prems d by auto
  next
    case False
    have "Suc m \<le> n \<and> n \<le> 12 \<and> days_before_month y (Suc m) + (r - d) = days_before_month y n + k \<and>
        k < month_length y n"
    proof (rule Cons.IH)
      show "ds ! i = month_length y (Suc m + i)" if "i < length ds" for i
        using Cons.prems(4) [of "Suc i"] that by simp
    qed (use Cons.prems(1,2,3,5) False d in \<open>simp_all add: days_before_month_Suc\<close>)
    then show ?thesis using False d Cons.prems(1) by (simp add: days_before_month_Suc)
  qed
qed

lemma month_table:
  "(if leap y then [31, 29, 31, 30, 31, 30, 31, 31, 30, 31, 30, 31]
    else [31, 28, 31, 30, 31, 30, 31, 31, 30, 31, 30, 31]) = map (month_length y) [1..<13]"
proof -
  have "[1..<13] = [1, 2, 3, 4, 5, 6, 7, 8, 9, 10, 11, 12 :: nat]" by (simp add: upt_rec)
  then show ?thesis by (simp add: month_length_def)
qed

lemma bc_month_split:
  assumes "r < year_length y" "bc_month y r = (n, k)"
  shows "1 \<le> n \<and> n \<le> 12 \<and> r = days_before_month y n + k \<and> k < month_length y n"
proof -
  have "days_before_month y 1 = 0" by (simp add: days_before_month_def)
  then show ?thesis
    using month_scan_split [of 1 y r "map (month_length y) [1..<13]" n k] assms
    by (simp add: bc_month_def refines month_table)
qed

interpretation bc: calendar "bc_year_loop 1970" bc_month
proof
  show "1970 \<le> y \<and> n = days_before_year y + r \<and> r < year_length y" if "bc_year_loop 1970 n = (y, r)" for n y r
    using bc_year_loop_split [OF _ that] by (simp add: days_before_year_def)
  show "1 \<le> m \<and> m \<le> 12 \<and> r = days_before_month y m + k \<and> k < month_length y m"
    if "r < year_length y" "bc_month y r = (m, k)" for y r m k
    by (rule bc_month_split [OF that])
qed

text \<open>The signed version never goes below zero, so it follows the unsigned one.\<close>

lemma main_year_loop_bc:
  "main_year_loop y (int r) = (case bc_year_loop y r of (z, k) \<Rightarrow> (z, int k))"
proof (induction y r rule: bc_year_loop.induct)
  case (1 y r)
  show ?case
  proof (cases "r < year_length y")
    case True
    then show ?thesis by (simp add: main_year_loop_unfold [of y] bc_year_loop_unfold [of y])
  next
    case False
    then have "int r - int (year_length y) = int (r - year_length y)" by simp
    moreover have "main_year_loop (y + 1) (int (r - year_length y)) =
        (case bc_year_loop (y + 1) (r - year_length y) of (z, k) \<Rightarrow> (z, int k))"
      using 1 [OF refl] False by (simp add: is_leap_year_leap year_length_def split: if_splits)
    ultimately show ?thesis
      using False by (simp only: main_year_loop_unfold [of y] bc_year_loop_unfold [of y]) simp
  qed
qed

lemma main_month_scan_bc:
  "main_month_scan (map int ds) (int r) m = (case month_scan ds r m of (n, k) \<Rightarrow> (n, int k))"
  by (induction ds arbitrary: r m) (auto simp flip: of_nat_diff)

lemma main_month_bc: "main_month y (int r) = (case bc_month y r of (n, k) \<Rightarrow> (n, int k))"
proof (cases "leap y")
  case True
  then show ?thesis
    unfolding main_month_def bc_month_def main_leap is_leap_year_leap Let_def
    using main_month_scan_bc [of "[31, 29, 31, 30, 31, 30, 31, 31, 30, 31, 30, 31]" r 1]
    by (simp del: month_scan.simps main_month_scan.simps)
next
  case False
  then show ?thesis
    unfolding main_month_def bc_month_def main_leap is_leap_year_leap Let_def
    using main_month_scan_bc [of "[31, 28, 31, 30, 31, 30, 31, 31, 30, 31, 30, 31]" r 1]
    by (simp del: month_scan.simps main_month_scan.simps)
qed

interpretation main: calendar
  "\<lambda>n. case main_year_loop 1970 (int n) of (y, r) \<Rightarrow> (y, nat r)"
  "\<lambda>y r. case main_month y (int r) of (m, k) \<Rightarrow> (m, nat k)"
proof
  show "1970 \<le> y \<and> n = days_before_year y + r \<and> r < year_length y"
    if "(case main_year_loop 1970 (int n) of (y, r) \<Rightarrow> (y, nat r)) = (y, r)" for n y r
    using that bc.year [of n y r] by (simp add: main_year_loop_bc split: prod.splits)
  show "1 \<le> m \<and> m \<le> 12 \<and> r = days_before_month y m + k \<and> k < month_length y m"
    if "r < year_length y" "(case main_month y (int r) of (m, k) \<Rightarrow> (m, nat k)) = (m, k)" for y r m k
    using that bc.month [of r y m k] by (simp add: main_month_bc split: prod.splits)
qed

lemma sgx_days_in_month_length: "1 \<le> m \<Longrightarrow> m \<le> 12 \<Longrightarrow> sgx_days_in_month y m = month_length y m"
proof -
  assume "1 \<le> m" "m \<le> 12"
  then have "m = 1 \<or> m = 2 \<or> m = 3 \<or> m = 4 \<or> m = 5 \<or> m = 6 \<or> m = 7 \<or> m = 8 \<or> m = 9 \<or> m = 10
      \<or> m = 11 \<or> m = 12"
    by arith
  then show ?thesis
    by (elim disjE) (simp_all add: sgx_days_in_month_def month_length_def leap_def dvd_eq_mod_eq_0)
qed

lemma sgx_month_loop_scan:
  assumes "m + length ds = 13" "ds = map (month_length y) [m..<13]" "1 \<le> m"
    and "days_before_month y m + r < year_length y"
  shows "sgx_month_loop y [m..<13] r x = month_scan ds r m"
  using assms
proof (induction ds arbitrary: m r)
  case Nil
  then show ?case by (simp add: months_of_year)
next
  case (Cons d ds)
  have "m < 13" using Cons.prems(1) by simp
  then have u: "[m..<13] = m # [Suc m..<13]" by (rule upt_conv_Cons)
  have "sgx_days_in_month y m = d" using Cons.prems by (simp add: u sgx_days_in_month_length)
  moreover have "d = month_length y m" "ds = map (month_length y) [Suc m..<13]"
    using Cons.prems(2) by (simp_all add: u)
  moreover have "\<not> r < d \<Longrightarrow> sgx_month_loop y [Suc m..<13] (r - d) x = month_scan ds (r - d) (Suc m)"
    using Cons.prems calculation by (intro Cons.IH) (simp_all add: days_before_month_Suc)
  ultimately show ?case unfolding u by (simp add: Let_def)
qed

lemma sgx_month_bc: "r < year_length y \<Longrightarrow> sgx_month y r = bc_month y r"
  using sgx_month_loop_scan [of 1 "map (month_length y) [1..<13]" y r 1]
  unfolding sgx_month_def bc_month_def is_leap_year_leap month_table
  by (simp add: days_before_month_def)

interpretation sgx: calendar "bc_year_loop 1970" sgx_month
  by unfold_locales (auto simp: sgx_month_bc dest: bc.year bc.month)

definition stamp :: "bytes \<Rightarrow> nat \<times> nat \<times> nat \<Rightarrow> nat \<Rightarrow> bytes" where
  "stamp sep date t =
     (case date of (y, m, d) \<Rightarrow>
        pad0 4 (dec y) @ str ''-'' @ pad0 2 (dec m) @ str ''-'' @ pad0 2 (dec d) @ sep
        @ pad0 2 (dec (t div 3600)) @ str '':'' @ pad0 2 (dec (t mod 3600 div 60)) @ str '':''
        @ pad0 2 (dec (t mod 60)))"

lemma bc_timestamp_date:
  "bc_get_timestamp secs = stamp (str ''T'') (bc.date (secs div 86400)) (secs mod 86400) @ str ''Z''"
  by (simp add: bc_get_timestamp_def stamp_def bc.date_def Let_def split: prod.splits)

lemma sgx_timestamp_date:
  "sgx_get_timestamp secs = stamp (str ''T'') (sgx.date (secs div 86400)) (secs mod 86400) @ str ''Z''"
  by (simp add: sgx_get_timestamp_def stamp_def sgx.date_def Let_def split: prod.splits)

lemma main_year_loop_nonneg: "main_year_loop 1970 (int n) = (y, r) \<Longrightarrow> 0 \<le> r"
  by (auto simp: main_year_loop_bc split: prod.splits)

lemma main_month_nonneg: "0 \<le> r \<Longrightarrow> main_month y r = (m, k) \<Longrightarrow> 0 \<le> k"
  using main_month_bc [of y "nat r"] by (auto split: prod.splits)

lemma main_timestamp_date:
  "main_get_timestamp secs = stamp (str '' '') (main.date (secs div 86400)) (secs mod 86400)"
proof -
  obtain y r where y: "main_year_loop 1970 (int (secs div 86400)) = (y, r)"
    by (cases "main_year_loop 1970 (int (secs div 86400))")
  obtain m k where m: "main_month y r = (m, k)" by (cases "main_month y r")
  have "0 \<le> r" "0 \<le> k"
    using main_year_loop_nonneg [OF y] main_month_nonneg [OF _ m] by blast+
  then have "main.date (secs div 86400) = (y, m, nat (k + 1))"
    using y m by (simp add: main.date_def nat_add_distrib)
  then show ?thesis using y m by (simp add: main_get_timestamp_def stamp_def Let_def)
qed

text \<open>The three timestamp functions of the guest print the same instant: the Gregorian date of the day
  and the time of day, in the ISO form for the chain and with a space for the exporter's rows; the date
  is valid and is the only one with that day number.\<close>
theorem timestamps_correct:
  "\<exists>y m d. valid_date y m d \<and> day_number y m d = secs div 86400 \<and>
     bc_get_timestamp secs = stamp (str ''T'') (y, m, d) (secs mod 86400) @ str ''Z'' \<and>
     sgx_get_timestamp secs = bc_get_timestamp secs \<and>
     main_get_timestamp secs = stamp (str '' '') (y, m, d) (secs mod 86400)"
proof -
  obtain y m d where bc: "bc.date (secs div 86400) = (y, m, d)" by (cases "bc.date (secs div 86400)")
  then have v: "valid_date y m d" "day_number y m d = secs div 86400" using bc.date_correct by blast+
  then have "sgx.date (secs div 86400) = (y, m, d)" "main.date (secs div 86400) = (y, m, d)"
    by (simp_all only: sgx.date_unique main.date_unique)
  with bc v show ?thesis
    by (simp only: bc_timestamp_date sgx_timestamp_date main_timestamp_date) blast
qed

lemma timestamp_example: "bc_get_timestamp 951826394 = str ''2000-02-29T12:13:14Z''"
proof -
  have "bc.date 11016 = (2000, 2, 29)"
  proof (rule bc.date_unique)
    have "days_before_year 2000 = 10957"
      by (simp add: days_before_year_def year_length_def leap_def dvd_eq_mod_eq_0)
    then show "day_number 2000 2 29 = 11016"
      by (simp add: day_number_def days_before_month_def month_length_def upt_rec)
    show "valid_date 2000 2 29"
      by (simp add: valid_date_def month_length_def leap_def dvd_eq_mod_eq_0)
  qed
  then show ?thesis
    by (simp add: bc_timestamp_date stamp_def pad0_def dec.simps str_def)
qed

end
