(* ===== verification/Blockchain.thy ===== *)
theory Blockchain
  imports Merkle Calendar
begin

text \<open>
  The tamper-evident chain of energy blocks, \<open>src/sgx_vm/src/blockchain.rs\<close>: a block holds a batch
  of records, their Merkle root and the chained root that binds it to its predecessor. SHA-256 and
  hexadecimal printing are parameters, and so is the clock (seconds since the epoch) of each new block.
\<close>

record Block =
  bk_block_number :: u64
  bk_vm_name :: bytes
  bk_merkle_root :: bytes
  bk_prev_chained_root :: bytes
  bk_chained_root :: bytes
  bk_record_count :: u32
  bk_timestamp :: bytes
  bk_records :: "EnergyRecord list"
  bk_leaf_hashes :: "bytes list"
  bk_internal_nodes :: "MerkleNode list"
  bk_tree_height :: nat

definition zero_hash :: bytes where
  "zero_hash = replicate 32 0"

definition compute_chained_root :: "(bytes \<Rightarrow> bytes) \<Rightarrow> bytes \<Rightarrow> bytes \<Rightarrow> bytes" where
  "compute_chained_root sha prev merkle = sha (encode_chained_root prev merkle)"

definition unwrap_root :: "bytes option \<Rightarrow> bytes" where
  "unwrap_root r = (case r of Some h \<Rightarrow> h | None \<Rightarrow> zero_hash)"

definition new_block ::
  "(bytes \<Rightarrow> bytes) \<Rightarrow> u64 \<Rightarrow> bytes \<Rightarrow> bytes \<Rightarrow> EnergyRecord list \<Rightarrow> bytes \<Rightarrow> Block" where
  "new_block sha block_number vm_name prev_chained_root records timestamp =
     (let tree = build sha records;
          merkle_root = unwrap_root (root_hash tree);
          record_count = of_nat (length records);
          chained_root = compute_chained_root sha prev_chained_root merkle_root
      in \<lparr>bk_block_number = block_number, bk_vm_name = vm_name, bk_merkle_root = merkle_root,
          bk_prev_chained_root = prev_chained_root, bk_chained_root = chained_root,
          bk_record_count = record_count, bk_timestamp = timestamp, bk_records = records,
          bk_leaf_hashes = mt_leaf_hashes tree, bk_internal_nodes = mt_internal_nodes tree,
          bk_tree_height = mt_height tree\<rparr>)"

definition genesis :: "(bytes \<Rightarrow> bytes) \<Rightarrow> bytes \<Rightarrow> EnergyRecord list \<Rightarrow> bytes \<Rightarrow> Block" where
  "genesis sha vm_name records timestamp = new_block sha 0 vm_name zero_hash records timestamp"

datatype BlockVerifyResult =
    BlockValid
  | MerkleRootMismatch bytes bytes
  | ChainedRootMismatch bytes bytes
  | RecordCountMismatch u32 u32

definition block_valid :: "BlockVerifyResult \<Rightarrow> bool" where
  "block_valid r \<longleftrightarrow> r = BlockValid"

definition verify_block :: "(bytes \<Rightarrow> bytes) \<Rightarrow> (bytes \<Rightarrow> bytes) \<Rightarrow> Block \<Rightarrow> BlockVerifyResult" where
  "verify_block sha hexenc b =
     (let tree = build sha (bk_records b);
          computed_merkle_root = unwrap_root (root_hash tree)
      in if computed_merkle_root \<noteq> bk_merkle_root b then
           MerkleRootMismatch (hexenc (bk_merkle_root b)) (hexenc computed_merkle_root)
         else
           (let computed_chained = compute_chained_root sha (bk_prev_chained_root b) (bk_merkle_root b)
            in if computed_chained \<noteq> bk_chained_root b then
                 ChainedRootMismatch (hexenc (bk_chained_root b)) (hexenc computed_chained)
               else if of_nat (length (bk_records b)) \<noteq> bk_record_count b then
                 RecordCountMismatch (bk_record_count b) (of_nat (length (bk_records b)))
               else BlockValid))"

definition verify_chain_link :: "Block \<Rightarrow> Block \<Rightarrow> bool" where
  "verify_chain_link b prev_block \<longleftrightarrow> bk_prev_chained_root b = bk_chained_root prev_block"

text \<open>The derived \<open>Debug\<close> printing that \<open>verify_blockchain\<close> puts in its result.\<close>

fun debug_result :: "BlockVerifyResult \<Rightarrow> bytes" where
  "debug_result BlockValid = str ''Valid''"
| "debug_result (MerkleRootMismatch s c) =
     str ''MerkleRootMismatch { stored: \"'' @ s @ str ''\", computed: \"'' @ c @ str ''\" }''"
| "debug_result (ChainedRootMismatch s c) =
     str ''ChainedRootMismatch { stored: \"'' @ s @ str ''\", computed: \"'' @ c @ str ''\" }''"
| "debug_result (RecordCountMismatch s a) =
     str ''RecordCountMismatch { stored: '' @ dec (unat s) @ str '', actual: '' @ dec (unat a) @ str '' }''"

datatype ChainVerifyResult =
    ChainValid u64
  | BlockInvalid u64 bytes
  | ChainBroken u64 bytes bytes
  | BlockNumberGap u64 u64

definition chain_valid :: "ChainVerifyResult \<Rightarrow> bool" where
  "chain_valid r = (case r of ChainValid _ \<Rightarrow> True | _ \<Rightarrow> False)"

fun verify_loop ::
  "(bytes \<Rightarrow> bytes) \<Rightarrow> (bytes \<Rightarrow> bytes) \<Rightarrow> nat \<Rightarrow> bytes \<Rightarrow> Block list \<Rightarrow> ChainVerifyResult option" where
  "verify_loop sha hexenc i prev_chained_root [] = None"
| "verify_loop sha hexenc i prev_chained_root (block # blocks) =
     (let block_result = verify_block sha hexenc block in
      if \<not> block_valid block_result then
        Some (BlockInvalid (bk_block_number block) (debug_result block_result))
      else if bk_prev_chained_root block \<noteq> prev_chained_root then
        Some (ChainBroken (bk_block_number block) (hexenc prev_chained_root)
                (hexenc (bk_prev_chained_root block)))
      else if bk_block_number block \<noteq> of_nat i then
        Some (BlockNumberGap (of_nat i) (bk_block_number block))
      else verify_loop sha hexenc (i + 1) (bk_chained_root block) blocks)"

definition verify_blockchain ::
  "(bytes \<Rightarrow> bytes) \<Rightarrow> (bytes \<Rightarrow> bytes) \<Rightarrow> Block list \<Rightarrow> ChainVerifyResult" where
  "verify_blockchain sha hexenc blocks =
     (if blocks = [] then ChainValid 0
      else case verify_loop sha hexenc 0 zero_hash blocks of
             Some r \<Rightarrow> r
           | None \<Rightarrow> ChainValid (of_nat (length blocks)))"

section \<open>The producer\<close>

record Blockchain =
  bc_vm_name :: bytes
  bc_current_block_number :: u64
  bc_latest_chained_root :: bytes
  bc_accumulated_records :: "EnergyRecord list"
  bc_batch_size :: nat

definition blockchain_new :: "bytes \<Rightarrow> nat \<Rightarrow> Blockchain" where
  "blockchain_new vm_name batch_size =
     \<lparr>bc_vm_name = vm_name, bc_current_block_number = 0, bc_latest_chained_root = zero_hash,
      bc_accumulated_records = [], bc_batch_size = batch_size\<rparr>"

definition from_checkpoint :: "bytes \<Rightarrow> u64 \<Rightarrow> bytes \<Rightarrow> nat \<Rightarrow> Blockchain" where
  "from_checkpoint vm_name block_number latest_chained_root batch_size =
     \<lparr>bc_vm_name = vm_name, bc_current_block_number = block_number,
      bc_latest_chained_root = latest_chained_root, bc_accumulated_records = [],
      bc_batch_size = batch_size\<rparr>"

definition create_block ::
  "(bytes \<Rightarrow> bytes) \<Rightarrow> nat \<Rightarrow> Blockchain \<Rightarrow> (Block \<times> Blockchain) exec" where
  "create_block sha now c =
     (let records = bc_accumulated_records c;
          timestamp = bc_get_timestamp now;
          block = new_block sha (bc_current_block_number c) (bc_vm_name c)
                    (bc_latest_chained_root c) records timestamp
      in case checked_add (bc_current_block_number c) 1 of
           Panic \<Rightarrow> Panic
         | Done n \<Rightarrow>
             Done (block, c\<lparr>bc_accumulated_records := [], bc_latest_chained_root := bk_chained_root block,
                            bc_current_block_number := n\<rparr>))"

definition add_record ::
  "(bytes \<Rightarrow> bytes) \<Rightarrow> nat \<Rightarrow> EnergyRecord \<Rightarrow> Blockchain \<Rightarrow> (Block option \<times> Blockchain) exec" where
  "add_record sha now r c =
     (let c = c\<lparr>bc_accumulated_records := bc_accumulated_records c @ [r]\<rparr>
      in if length (bc_accumulated_records c) \<ge> bc_batch_size c then
           and_then (create_block sha now c) (\<lambda>(b, c). Done (Some b, c))
         else Done (None, c))"

definition flush ::
  "(bytes \<Rightarrow> bytes) \<Rightarrow> nat \<Rightarrow> Blockchain \<Rightarrow> (Block option \<times> Blockchain) exec" where
  "flush sha now c =
     (if bc_accumulated_records c = [] then Done (None, c)
      else and_then (create_block sha now c) (\<lambda>(b, c). Done (Some b, c)))"

definition accumulated_count :: "Blockchain \<Rightarrow> nat" where
  "accumulated_count c = length (bc_accumulated_records c)"

section \<open>Every block verifies, and every honest chain\<close>

lemma verify_new_block: "verify_block sha hexenc (new_block sha n v p rs t) = BlockValid"
  by (simp add: verify_block_def new_block_def Let_def)

lemma new_block_fields [simp]:
  "bk_block_number (new_block sha n v p rs t) = n" "bk_prev_chained_root (new_block sha n v p rs t) = p"
  "bk_records (new_block sha n v p rs t) = rs" "bk_vm_name (new_block sha n v p rs t) = v"
  by (simp_all add: new_block_def Let_def)

fun chain_ok :: "(bytes \<Rightarrow> bytes) \<Rightarrow> nat \<Rightarrow> bytes \<Rightarrow> Block list \<Rightarrow> bool" where
  "chain_ok sha i p [] = True"
| "chain_ok sha i p (b # bs) =
     (verify_block sha id b = BlockValid \<and> bk_prev_chained_root b = p \<and> bk_block_number b = of_nat i \<and>
      chain_ok sha (i + 1) (bk_chained_root b) bs)"

definition tip :: "bytes \<Rightarrow> Block list \<Rightarrow> bytes" where
  "tip p bs = (if bs = [] then p else bk_chained_root (last bs))"

lemma tip_simps [simp]: "tip p [] = p" "tip p (b # bs) = tip (bk_chained_root b) bs"
  "tip p (bs @ [b]) = bk_chained_root b"
  by (simp_all add: tip_def)

lemma verify_block_hexenc: "verify_block sha hexenc b = BlockValid \<longleftrightarrow> verify_block sha id b = BlockValid"
  by (simp add: verify_block_def Let_def)

lemma verify_loop_ok: "verify_loop sha hexenc i p bs = None \<longleftrightarrow> chain_ok sha i p bs"
proof (induction bs arbitrary: i p)
  case (Cons b bs)
  then show ?case
    by (simp add: block_valid_def verify_block_hexenc [of sha hexenc] Let_def)
qed simp

lemma chain_ok_append:
  "chain_ok sha i p (xs @ ys) \<longleftrightarrow> chain_ok sha i p xs \<and> chain_ok sha (i + length xs) (tip p xs) ys"
  by (induction xs arbitrary: i p) auto

lemma verify_loop_invalid: "verify_loop sha hexenc i p bs = Some r \<Longrightarrow> \<not> chain_valid r"
proof (induction bs arbitrary: i p)
  case (Cons b bs)
  then show ?case
    by (simp add: Let_def chain_valid_def split: if_split_asm) auto
qed simp

lemma verify_blockchain_ok:
  "chain_valid (verify_blockchain sha hexenc bs) \<longleftrightarrow> chain_ok sha 0 zero_hash bs"
proof (cases "verify_loop sha hexenc 0 zero_hash bs")
  case None
  then show ?thesis
    using verify_loop_ok [of sha hexenc 0 zero_hash bs] by (simp add: verify_blockchain_def chain_valid_def)
next
  case (Some r)
  then show ?thesis
    using verify_loop_ok [of sha hexenc 0 zero_hash bs] verify_loop_invalid [OF Some]
    by (cases bs) (simp_all add: verify_blockchain_def)
qed

lemma chain_ok_count: "chain_ok sha 0 zero_hash bs \<Longrightarrow>
  verify_blockchain sha hexenc bs = ChainValid (of_nat (length bs))"
  using verify_loop_ok [of sha hexenc 0 zero_hash bs] by (simp add: verify_blockchain_def)

text \<open>The producer as a machine that collects the blocks it emits.\<close>

datatype chain_event = Add nat EnergyRecord | Flush nat

definition chain_op ::
  "(bytes \<Rightarrow> bytes) \<Rightarrow> chain_event \<Rightarrow> Blockchain \<Rightarrow> (Block option \<times> Blockchain) exec" where
  "chain_op sha e c = (case e of Add now r \<Rightarrow> add_record sha now r c | Flush now \<Rightarrow> flush sha now c)"

definition chain_step ::
  "(bytes \<Rightarrow> bytes) \<Rightarrow> (Blockchain \<times> Block list) exec \<Rightarrow> chain_event \<Rightarrow> (Blockchain \<times> Block list) exec" where
  "chain_step sha s e =
     and_then s (\<lambda>(c, bs). and_then (chain_op sha e c) (\<lambda>(ob, c'). Done (c', bs @ (case ob of None \<Rightarrow> [] | Some b \<Rightarrow> [b]))))"

definition chain_inv :: "(bytes \<Rightarrow> bytes) \<Rightarrow> (Blockchain \<times> Block list) exec \<Rightarrow> bool" where
  "chain_inv sha s =
     (case s of Panic \<Rightarrow> True
      | Done (c, bs) \<Rightarrow> chain_ok sha 0 zero_hash bs \<and> length bs = unat (bc_current_block_number c) \<and>
          bc_latest_chained_root c = tip zero_hash bs)"

lemma create_block_Done:
  "create_block sha now c = Done (b, c') \<Longrightarrow>
     b = new_block sha (bc_current_block_number c) (bc_vm_name c) (bc_latest_chained_root c)
           (bc_accumulated_records c) (bc_get_timestamp now) \<and>
     c' = c\<lparr>bc_accumulated_records := [], bc_latest_chained_root := bk_chained_root b,
            bc_current_block_number := bc_current_block_number c + 1\<rparr> \<and>
     unat (bc_current_block_number c + 1) = unat (bc_current_block_number c) + 1"
  by (auto simp: create_block_def Let_def checked_add_def unat_word_ariths split: exec.splits if_splits)

text \<open>Both operations either only change the pending records, or emit the block of all of them.\<close>

lemma chain_op_cases:
  assumes "chain_op sha e c = Done (ob, c')"
  defines "pending \<equiv> bc_accumulated_records c @ (case e of Add _ r \<Rightarrow> [r] | Flush _ \<Rightarrow> [])"
  obtains (Keep) "ob = None" "c' = c\<lparr>bc_accumulated_records := pending\<rparr>"
    "case e of Add _ r \<Rightarrow> length pending < bc_batch_size c | Flush _ \<Rightarrow> pending = []"
  | (Emit) t where "ob = Some (new_block sha (bc_current_block_number c) (bc_vm_name c)
        (bc_latest_chained_root c) pending t)"
    "c' = c\<lparr>bc_accumulated_records := [], bc_latest_chained_root := bk_chained_root (the ob),
        bc_current_block_number := bc_current_block_number c + 1\<rparr>"
    "unat (bc_current_block_number c + 1) = unat (bc_current_block_number c) + 1" "pending \<noteq> []"
proof (cases e)
  case (Add now r)
  let ?c = "c\<lparr>bc_accumulated_records := bc_accumulated_records c @ [r]\<rparr>"
  show ?thesis
  proof (cases "length (bc_accumulated_records ?c) \<ge> bc_batch_size ?c")
    case True
    then obtain b where b: "create_block sha now ?c = Done (b, c')" "ob = Some b"
      using assms(1) Add by (cases "create_block sha now ?c") (auto simp: chain_op_def add_record_def Let_def)
    from create_block_Done [OF b(1)] b(2) show ?thesis
      using Add by (intro Emit [of "bc_get_timestamp now"]) (auto simp: pending_def)
  next
    case False
    then show ?thesis using assms(1) Add by (intro Keep) (auto simp: chain_op_def add_record_def pending_def)
  qed
next
  case (Flush now)
  show ?thesis
  proof (cases "bc_accumulated_records c = []")
    case True
    then show ?thesis using assms(1) Flush by (intro Keep) (auto simp: chain_op_def flush_def pending_def)
  next
    case False
    then obtain b where b: "create_block sha now c = Done (b, c')" "ob = Some b"
      using assms(1) Flush by (cases "create_block sha now c") (auto simp: chain_op_def flush_def)
    from create_block_Done [OF b(1)] b(2) False show ?thesis
      using Flush by (intro Emit [of "bc_get_timestamp now"]) (auto simp: pending_def)
  qed
qed

lemma chain_inv_step: "chain_inv sha s \<Longrightarrow> chain_inv sha (chain_step sha s e)"
proof (cases s)
  case (Done x)
  obtain c bs where x: "x = (c, bs)" by (cases x)
  assume inv: "chain_inv sha s"
  show ?thesis
  proof (cases "chain_op sha e c")
    case Panic
    then show ?thesis using Done x by (simp add: chain_step_def chain_inv_def)
  next
    case op: (Done y)
    obtain ob c' where y: "y = (ob, c')" by (cases y)
    from op y have "chain_op sha e c = Done (ob, c')" by simp
    then show ?thesis
    proof (cases rule: chain_op_cases)
      case Keep
      then show ?thesis using inv Done x op y by (simp add: chain_step_def chain_inv_def)
    next
      case (Emit t)
      from inv Done x have n: "bc_current_block_number c = of_nat (length bs)"
        by (simp add: chain_inv_def)
      show ?thesis
        using inv Done x op y Emit n
        by (simp add: chain_step_def chain_inv_def chain_ok_append verify_new_block)
    qed
  qed
qed (simp add: chain_step_def chain_inv_def)

interpretation producer: stepper "chain_step sha" "chain_inv sha" for sha
  by unfold_locales (rule chain_inv_step)

definition added :: "chain_event list \<Rightarrow> EnergyRecord list" where
  "added es = concat (map (\<lambda>e. case e of Add _ r \<Rightarrow> [r] | Flush _ \<Rightarrow> []) es)"

definition run_chain :: "(bytes \<Rightarrow> bytes) \<Rightarrow> Blockchain \<Rightarrow> chain_event list \<Rightarrow> (Blockchain \<times> Block list) exec" where
  "run_chain sha c es = foldl (chain_step sha) (Done (c, [])) es"

lemma run_chain_snoc: "run_chain sha c (es @ [e]) = chain_step sha (run_chain sha c es) e"
  by (simp add: run_chain_def)

lemma chain_step_Done:
  assumes "chain_step sha (Done (c, bs)) e = Done (c', bs')"
  obtains ob where "chain_op sha e c = Done (ob, c')" "bs' = bs @ (case ob of None \<Rightarrow> [] | Some b \<Rightarrow> [b])"
  using assms by (cases "chain_op sha e c") (auto simp: chain_step_def)

lemma run_chain_records:
  "run_chain sha (blockchain_new v n) es = Done (c, bs) \<Longrightarrow>
   concat (map bk_records bs) @ bc_accumulated_records c = added es \<and> bc_batch_size c = n \<and>
   (0 < n \<longrightarrow> length (bc_accumulated_records c) < n) \<and> (\<forall>b \<in> set bs. bk_records b \<noteq> [])"
proof (induction es arbitrary: c bs rule: rev_induct)
  case Nil
  then show ?case by (auto simp: run_chain_def blockchain_new_def added_def)
next
  case (snoc e es)
  then obtain c0 bs0 where r: "run_chain sha (blockchain_new v n) es = Done (c0, bs0)"
    by (cases "run_chain sha (blockchain_new v n) es") (auto simp: run_chain_snoc chain_step_def)
  with snoc.prems have "chain_step sha (Done (c0, bs0)) e = Done (c, bs)" by (simp add: run_chain_snoc)
  then obtain ob where ob: "chain_op sha e c0 = Done (ob, c)" "bs = bs0 @ (case ob of None \<Rightarrow> [] | Some b \<Rightarrow> [b])"
    by (rule chain_step_Done)
  note IH = snoc.IH [OF r]
  from ob(1) show ?case
  proof (cases rule: chain_op_cases)
    case Keep
    then show ?thesis using IH ob(2) by (cases e) (auto simp: added_def)
  next
    case (Emit t)
    then show ?thesis using IH ob(2) by (cases e) (auto simp: added_def)
  qed
qed

lemma run_chain_no_panic:
  "length es < 2 ^ 64 - 1 \<Longrightarrow>
   \<exists>c bs. run_chain sha (blockchain_new v n) es = Done (c, bs) \<and> length bs \<le> length es"
proof (induction es rule: rev_induct)
  case Nil
  then show ?case by (simp add: run_chain_def)
next
  case (snoc e es)
  then obtain c bs where r: "run_chain sha (blockchain_new v n) es = Done (c, bs)" "length bs \<le> length es"
    by auto
  have "chain_inv sha (Done (blockchain_new v n, []))"
    by (simp add: chain_inv_def blockchain_new_def)
  then have "chain_inv sha (run_chain sha (blockchain_new v n) es)"
    unfolding run_chain_def by (rule producer.inv_run)
  then have "unat (bc_current_block_number c) = length bs" by (simp add: r(1) chain_inv_def)
  then have "unat (bc_current_block_number c) + 1 < 2 ^ 64" using r(2) snoc.prems by simp
  then have nopanic: "create_block sha now (c\<lparr>bc_accumulated_records := rs\<rparr>) \<noteq> Panic" "create_block sha now c \<noteq> Panic" for now rs
    by (simp_all add: create_block_def Let_def checked_add_def)
  have "chain_op sha e c \<noteq> Panic"
    using nopanic by (cases e)
      (auto simp: chain_op_def add_record_def flush_def Let_def elim!: and_then.elims)
  then obtain ob c' where "chain_op sha e c = Done (ob, c')" by (cases "chain_op sha e c") auto
  then show ?case using r by (auto simp: run_chain_snoc chain_step_def split: option.splits)
qed

text \<open>C29: A chain producer never loses, duplicates or reorders a record, and everything it emits verifies:
  after any sequence of additions and flushes (fewer than 2^64 - 1), the emitted blocks pass
  \<open>verify_blockchain\<close>, the records of the blocks followed by the pending ones are exactly the added
  records in order, no block is empty, and fewer than a batch are pending.\<close>
theorem producer_correct:
  assumes "length es < 2 ^ 64 - 1"
  shows "\<exists>c bs. run_chain sha (blockchain_new v n) es = Done (c, bs) \<and>
    verify_blockchain sha hexenc bs = ChainValid (of_nat (length bs)) \<and>
    concat (map bk_records bs) @ bc_accumulated_records c = added es \<and>
    (\<forall>b \<in> set bs. bk_records b \<noteq> []) \<and>
    (0 < n \<longrightarrow> accumulated_count c < n)"
proof -
  obtain c bs where r: "run_chain sha (blockchain_new v n) es = Done (c, bs)"
    using run_chain_no_panic [OF assms] by blast
  have "chain_inv sha (Done (blockchain_new v n, []))"
    by (simp add: chain_inv_def blockchain_new_def)
  then have "chain_inv sha (run_chain sha (blockchain_new v n) es)"
    unfolding run_chain_def by (rule producer.inv_run)
  then have "chain_ok sha 0 zero_hash bs" by (simp add: r chain_inv_def)
  then show ?thesis
    using r run_chain_records [OF r] chain_ok_count by (auto simp: accumulated_count_def)
qed

lemma producer_correct_witness:
  "\<exists>c bs. run_chain id (blockchain_new (str ''vm'') 2) [Add 0 rec0, Add 1 rec0, Add 2 rec0] = Done (c, bs) \<and>
     verify_blockchain id id bs = ChainValid (of_nat (length bs)) \<and>
     concat (map bk_records bs) @ bc_accumulated_records c = [rec0, rec0, rec0]"
  using producer_correct [of "[Add 0 rec0, Add 1 rec0, Add 2 rec0]" id "str ''vm''" 2 id]
  by (auto simp: added_def)

section \<open>The tip of a chain commits to its history\<close>

text \<open>Every byte string hashed while the blocks of a chain are verified.\<close>

definition block_inputs :: "(bytes \<Rightarrow> bytes) \<Rightarrow> Block \<Rightarrow> bytes set" where
  "block_inputs sha b =
     insert (encode_chained_root (bk_prev_chained_root b) (bk_merkle_root b))
       (if bk_records b = [] then {} else tree_inputs sha (bk_records b))"

definition chain_inputs :: "(bytes \<Rightarrow> bytes) \<Rightarrow> Block list \<Rightarrow> bytes set" where
  "chain_inputs sha bs = \<Union> (block_inputs sha ` set bs)"

definition valid_records :: "Block \<Rightarrow> bool" where
  "valid_records b \<longleftrightarrow> length (bk_records b) < 2 ^ 64 \<and> list_all valid_record (bk_records b)"

lemma verify_block_valid:
  "verify_block sha hexenc b = BlockValid \<longleftrightarrow>
     unwrap_root (root_hash (build sha (bk_records b))) = bk_merkle_root b \<and>
     compute_chained_root sha (bk_prev_chained_root b) (bk_merkle_root b) = bk_chained_root b \<and>
     of_nat (length (bk_records b)) = bk_record_count b"
  by (simp add: verify_block_def Let_def)

lemma block_chained:
  "verify_block sha hexenc b = BlockValid \<Longrightarrow>
   bk_chained_root b = sha (encode_chained_root (bk_prev_chained_root b) (bk_merkle_root b))"
  by (simp add: verify_block_valid compute_chained_root_def)

lemma root_input: "rs \<noteq> [] \<Longrightarrow> \<exists>x \<in> tree_inputs sha rs. root_hash (build sha rs) = Some (sha x)"
  by (simp add: root_hash_def build_fields commit_root_def tree_inputs_def Let_def)

lemma merkle_root_binds_blocks:
  assumes len: "\<forall>x. length (sha x) = 32"
    and inj: "inj_on sha (block_inputs sha b \<union> block_inputs sha c)"
    and zero: "zero_hash \<notin> sha ` (block_inputs sha b \<union> block_inputs sha c)"
    and valid: "valid_records b" "valid_records c"
    and eq: "unwrap_root (root_hash (build sha (bk_records b))) = unwrap_root (root_hash (build sha (bk_records c)))"
  shows "bk_records b = bk_records c"
proof -
  have z: "unwrap_root (root_hash (build sha [])) = zero_hash" by (simp add: root_hash_def unwrap_root_def)
  have nz: "unwrap_root (root_hash (build sha (bk_records x))) \<noteq> zero_hash"
    if x: "bk_records x \<noteq> []" "x \<in> {b, c}" for x
  proof -
    obtain y where y: "y \<in> tree_inputs sha (bk_records x)" "root_hash (build sha (bk_records x)) = Some (sha y)"
      using root_input [OF x(1)] by blast
    then have "y \<in> block_inputs sha b \<union> block_inputs sha c" using x by (auto simp: block_inputs_def)
    then have "sha y \<noteq> zero_hash" using zero by (metis image_eqI)
    then show ?thesis using y(2) by (simp add: unwrap_root_def)
  qed
  show ?thesis
  proof (cases "bk_records b = [] \<or> bk_records c = []")
    case True
    then show ?thesis using nz [of b] nz [of c] eq z by (metis insertCI)
  next
    case False
    then have ne: "bk_records b \<noteq> []" "bk_records c \<noteq> []" by simp_all
    show ?thesis
    proof (rule root_hash_binds [OF len _ ne])
      show "inj_on sha (tree_inputs sha (bk_records b) \<union> tree_inputs sha (bk_records c))"
        by (rule inj_on_subset [OF inj]) (use ne in \<open>auto simp: block_inputs_def\<close>)
      show "root_hash (build sha (bk_records b)) = root_hash (build sha (bk_records c))"
        using eq ne by (simp add: root_hash_def build_fields unwrap_root_def)
    qed (use valid in \<open>simp_all add: valid_records_def\<close>)
  qed
qed

lemma block_link_inj:
  assumes inj: "inj_on sha (block_inputs sha b \<union> block_inputs sha c)"
    and ok: "verify_block sha id b = BlockValid" "verify_block sha id c = BlockValid"
    and len: "length (bk_prev_chained_root b) = 32" "length (bk_prev_chained_root c) = 32"
    and eq: "bk_chained_root b = bk_chained_root c"
  shows "bk_prev_chained_root b = bk_prev_chained_root c \<and> bk_merkle_root b = bk_merkle_root c"
proof -
  have "sha (encode_chained_root (bk_prev_chained_root b) (bk_merkle_root b)) =
      sha (encode_chained_root (bk_prev_chained_root c) (bk_merkle_root c))"
    using ok eq by (metis verify_block_valid compute_chained_root_def)
  then have "encode_chained_root (bk_prev_chained_root b) (bk_merkle_root b) =
      encode_chained_root (bk_prev_chained_root c) (bk_merkle_root c)"
    by (rule inj_onD [OF inj]) (simp_all add: block_inputs_def)
  then show ?thesis using encode_chained_root_inj len by metis
qed

lemma tip_length:
  assumes "\<forall>x. length (sha x) = 32" "chain_ok sha 0 zero_hash bs"
  shows "length (tip zero_hash bs) = 32"
  using assms
  by (cases bs rule: rev_cases) (auto simp: zero_hash_def chain_ok_append dest: block_chained)

lemma chain_tip_records:
  assumes len: "\<forall>x. length (sha x) = 32"
  shows "\<lbrakk>inj_on sha (chain_inputs sha bs \<union> chain_inputs sha cs);
     zero_hash \<notin> sha ` (chain_inputs sha bs \<union> chain_inputs sha cs);
     \<forall>b \<in> set bs \<union> set cs. valid_records b;
     chain_ok sha 0 zero_hash bs; chain_ok sha 0 zero_hash cs; tip zero_hash bs = tip zero_hash cs\<rbrakk>
   \<Longrightarrow> map bk_records bs = map bk_records cs"
proof (induction bs arbitrary: cs rule: rev_induct)
  case Nil
  show ?case
  proof (cases cs rule: rev_cases)
    case (snoc cs' c)
    then have "zero_hash = sha (encode_chained_root (bk_prev_chained_root c) (bk_merkle_root c))"
      using Nil(5,6) block_chained [of sha id c] by (simp add: snoc chain_ok_append)
    moreover have "encode_chained_root (bk_prev_chained_root c) (bk_merkle_root c) \<in> chain_inputs sha cs"
      using snoc by (simp add: chain_inputs_def block_inputs_def)
    ultimately show ?thesis using Nil(2) by blast
  qed simp
next
  case (snoc b bs)
  show ?case
  proof (cases cs rule: rev_cases)
    case Nil
    have "zero_hash = sha (encode_chained_root (bk_prev_chained_root b) (bk_merkle_root b))"
      using snoc.prems(4,6) block_chained [of sha id b] by (simp add: Nil chain_ok_append)
    moreover have "encode_chained_root (bk_prev_chained_root b) (bk_merkle_root b) \<in> chain_inputs sha (bs @ [b])"
      by (simp add: chain_inputs_def block_inputs_def)
    ultimately show ?thesis using snoc.prems(2) by blast
  next
    case c: (snoc cs' c)
    have sub: "block_inputs sha b \<union> block_inputs sha c \<subseteq> chain_inputs sha (bs @ [b]) \<union> chain_inputs sha cs"
      "chain_inputs sha bs \<union> chain_inputs sha cs' \<subseteq> chain_inputs sha (bs @ [b]) \<union> chain_inputs sha cs"
      by (auto simp: chain_inputs_def c)
    have ok: "chain_ok sha 0 zero_hash bs" "chain_ok sha 0 zero_hash cs'"
      "verify_block sha id b = BlockValid" "verify_block sha id c = BlockValid"
      "bk_prev_chained_root b = tip zero_hash bs" "bk_prev_chained_root c = tip zero_hash cs'"
      using snoc.prems(4,5) by (simp_all add: c chain_ok_append)
    have link: "bk_prev_chained_root b = bk_prev_chained_root c \<and> bk_merkle_root b = bk_merkle_root c"
    proof (rule block_link_inj [OF _ ok(3,4)])
      show "inj_on sha (block_inputs sha b \<union> block_inputs sha c)"
        by (rule inj_on_subset [OF snoc.prems(1) sub(1)])
      show "bk_chained_root b = bk_chained_root c" using snoc.prems(6) by (simp add: c)
    qed (simp_all only: ok(5,6) tip_length [OF len] ok(1,2))
    have "bk_records b = bk_records c"
    proof (rule merkle_root_binds_blocks [OF len])
      show "inj_on sha (block_inputs sha b \<union> block_inputs sha c)"
        by (rule inj_on_subset [OF snoc.prems(1) sub(1)])
      show "zero_hash \<notin> sha ` (block_inputs sha b \<union> block_inputs sha c)"
        using snoc.prems(2) sub(1) by blast
      show "unwrap_root (root_hash (build sha (bk_records b))) = unwrap_root (root_hash (build sha (bk_records c)))"
        using link ok(3,4) by (simp add: verify_block_valid)
    qed (use snoc.prems(3) c in simp_all)
    moreover have "map bk_records bs = map bk_records cs'"
    proof (rule snoc.IH [OF _ _ _ ok(1,2)])
      show "inj_on sha (chain_inputs sha bs \<union> chain_inputs sha cs')"
        by (rule inj_on_subset [OF snoc.prems(1) sub(2)])
      show "zero_hash \<notin> sha ` (chain_inputs sha bs \<union> chain_inputs sha cs')"
        using snoc.prems(2) sub(2) by blast
      show "tip zero_hash bs = tip zero_hash cs'" using link ok(5,6) by simp
    qed (use snoc.prems(3) c in simp)
    ultimately show ?thesis by (simp add: c)
  qed
qed

text \<open>C28: Tamper evidence: when the hash function has no collision and no preimage of the zero hash among
  the byte strings hashed for two chains, two chains that pass verification and end in the same chained
  root hold the same records, block by block; in particular a chain cannot be shortened, extended, split
  differently or altered without changing its last chained root.\<close>
theorem chain_tip_binds:
  assumes "\<forall>x. length (sha x) = 32"
    and "inj_on sha (chain_inputs sha bs \<union> chain_inputs sha cs)"
    and "zero_hash \<notin> sha ` (chain_inputs sha bs \<union> chain_inputs sha cs)"
    and "\<forall>b \<in> set bs \<union> set cs. valid_records b"
    and "chain_valid (verify_blockchain sha hexenc bs)" "chain_valid (verify_blockchain sha hexenc cs)"
    and "tip zero_hash bs = tip zero_hash cs"
  shows "map bk_records bs = map bk_records cs"
  using chain_tip_records [OF assms(1-4)] assms(5-7) by (simp add: verify_blockchain_ok)

lemma toy_node_hd:
  "hd (toy_sha (encode_leaf r)) = 0" "hd (toy_sha (encode_root n x)) = 2"
  "hd (toy_sha (encode_chained_root p m)) = 3"
  by (simp_all add: toy_sha_hd refines node_specs domain_defs)

lemma toy_leaf_not_zero: "toy_sha (encode_leaf (record_to_bytes r)) \<noteq> zero_hash"
proof
  assume "toy_sha (encode_leaf (record_to_bytes r)) = zero_hash"
  then have "toy_sha (encode_leaf (record_to_bytes r)) ! 1 = 0" by (simp add: zero_hash_def)
  then show False
    by (simp add: toy_sha_def refines node_specs record_to_bytes_def spec_encode_record_def RECORD_FORMAT_V2_def)
qed

lemma toy_chain_ok:
  assumes "A = {encode_leaf (record_to_bytes r), encode_root n x, encode_chained_root p m}"
  shows "inj_on toy_sha A" "zero_hash \<notin> toy_sha ` A"
proof -
  have h: "hd zero_hash = 0" by (simp add: zero_hash_def)
  have "hd (toy_sha (encode_root n x)) \<noteq> hd zero_hash" "hd (toy_sha (encode_chained_root p m)) \<noteq> hd zero_hash"
    by (simp_all add: h toy_node_hd)
  then have "toy_sha (encode_root n x) \<noteq> zero_hash" "toy_sha (encode_chained_root p m) \<noteq> zero_hash"
    by metis+
  then show "zero_hash \<notin> toy_sha ` A" using toy_leaf_not_zero [of r] assms by auto
  have "distinct (map hd [toy_sha (encode_leaf (record_to_bytes r)), toy_sha (encode_root n x),
      toy_sha (encode_chained_root p m)])"
    by (simp add: toy_node_hd)
  then show "inj_on toy_sha A" unfolding assms by (intro inj_onI) auto
qed

lemma chain_tip_binds_witness:
  "\<exists>b c. chain_valid (verify_blockchain toy_sha id [b]) \<and> chain_valid (verify_blockchain toy_sha id [c]) \<and>
     bk_vm_name b \<noteq> bk_vm_name c \<and> tip zero_hash [b] = tip zero_hash [c] \<and> bk_records b = [rec0] \<and>
     map bk_records [b] = map bk_records [c]"
proof -
  let ?b = "genesis toy_sha (str ''vm'') [rec0] (str ''t'')"
  let ?c = "genesis toy_sha (str ''other'') [rec0] (str ''u'')"
  let ?r = "hash_leaf toy_sha (record_to_bytes rec0)"
  have v: "valid_records ?b" "valid_records ?c"
    by (simp_all add: genesis_def valid_records_def valid_record_def rec0_def str_def)
  have root: "bk_merkle_root ?b = bk_merkle_root ?c" by (simp add: genesis_def new_block_def Let_def)
  have i: "chain_inputs toy_sha [?b] \<union> chain_inputs toy_sha [?c] =
      {encode_leaf (record_to_bytes rec0), encode_root 1 ?r, encode_chained_root zero_hash (bk_merkle_root ?b)}"
    using root
    by (auto simp: chain_inputs_def block_inputs_def tree_inputs_def Let_def genesis_def fold_inputs.simps)
  have ok: "chain_valid (verify_blockchain toy_sha id [?b])" "chain_valid (verify_blockchain toy_sha id [?c])"
    by (simp_all add: verify_blockchain_ok genesis_def verify_new_block)
  have tips: "tip zero_hash [?b] = tip zero_hash [?c]" by (simp add: genesis_def new_block_def Let_def)
  have "map bk_records [?b] = map bk_records [?c]"
    using v ok tips by (intro chain_tip_binds [OF length_toy_sha toy_chain_ok [OF i]]) simp_all
  moreover have "bk_records ?b = [rec0]" "bk_vm_name ?b \<noteq> bk_vm_name ?c"
    by (simp_all add: genesis_def str_def)
  ultimately show ?thesis using ok tips by (intro exI [of _ ?b] exI [of _ ?c]) simp
qed

end
