(* ===== verification/Checkpoint.thy ===== *)
theory Checkpoint
  imports Admission Blockchain
begin

text \<open>
  Enclave keys (\<open>enclave_master_key\<close> and its variants in \<open>src/sgx_vm/src/lib.rs\<close>) and the sealed
  and signed checkpoints of \<open>src/sgx_vm/src/checkpoint.rs\<close>. Parameters: \<open>sha\<close> and \<open>hmac\<close> (SHA-256
  and HMAC-SHA-256 of the crates), \<open>hexenc\<close> (crate \<open>hex\<close>), \<open>egetkey\<close> (the processor's key
  derivation), the elliptic-curve operations of mbedtls, the clock, and the outcome of each file
  operation. \<open>master\<close> is the enclave's \<open>enclave_master_key\<close>, in either build.
\<close>

section \<open>Enclave keys\<close>

datatype Keypolicy = MRSIGNER | MRENCLAVE

text \<open>The hardware build. The cache only avoids repeated derivations of the same key.\<close>

definition enclave_master_key_with_policy ::
  "(bytes \<Rightarrow> bytes) \<Rightarrow> (Keypolicy \<Rightarrow> bytes \<Rightarrow> bytes) \<Rightarrow> bytes \<Rightarrow> Keypolicy \<Rightarrow> bytes" where
  "enclave_master_key_with_policy sha egetkey label policy =
     (let keyid = sha label;
          k16 = egetkey policy keyid
      in sha (str ''vpma-enclave-key-v1'' @ k16 @ label))"

definition enclave_master_key ::
  "(bytes \<Rightarrow> bytes) \<Rightarrow> (Keypolicy \<Rightarrow> bytes \<Rightarrow> bytes) \<Rightarrow> bytes \<Rightarrow> bytes" where
  "enclave_master_key sha egetkey label =
     (if label = str ''chain''
      then sha (str ''VPMA-NON-SGX-TEST-KEY-NOT-FOR-PRODUCTION'' @ label)
      else enclave_master_key_with_policy sha egetkey label MRSIGNER)"

definition enclave_build_bound_key ::
  "(bytes \<Rightarrow> bytes) \<Rightarrow> (Keypolicy \<Rightarrow> bytes \<Rightarrow> bytes) \<Rightarrow> bytes \<Rightarrow> bytes" where
  "enclave_build_bound_key sha egetkey label =
     enclave_master_key_with_policy sha egetkey label MRENCLAVE"

text \<open>The build without the hardware.\<close>

definition sim_master_key :: "(bytes \<Rightarrow> bytes) \<Rightarrow> bytes \<Rightarrow> bytes" where
  "sim_master_key sha label = sha (str ''VPMA-NON-SGX-TEST-KEY-NOT-FOR-PRODUCTION'' @ label)"

definition sim_build_bound_key :: "(bytes \<Rightarrow> bytes) \<Rightarrow> bytes \<Rightarrow> bytes" where
  "sim_build_bound_key sha label = sim_master_key sha (str ''build-bound:'' @ label)"

text \<open>\<open>derive_vm_key\<close>: one key per virtual machine.\<close>

definition derive_vm_key :: "(bytes \<Rightarrow> bytes \<Rightarrow> bytes) \<Rightarrow> bytes \<Rightarrow> bytes \<Rightarrow> bytes" where
  "derive_vm_key hmac master_key vm_name = hmac master_key (str ''vm:'' @ vm_name)"

section \<open>Checkpoints\<close>

record Checkpoint =
  cp_latest_chained_root :: bytes
  cp_block_count :: u64
  cp_vm_name :: bytes
  cp_last_updated :: u64

definition checkpoint_new :: "u64 \<Rightarrow> bytes \<Rightarrow> Checkpoint" where
  "checkpoint_new now vm_name =
     \<lparr>cp_latest_chained_root = zero_hash, cp_block_count = 0, cp_vm_name = vm_name, cp_last_updated = now\<rparr>"

definition checkpoint_update :: "u64 \<Rightarrow> bytes \<Rightarrow> u64 \<Rightarrow> Checkpoint \<Rightarrow> Checkpoint" where
  "checkpoint_update now chained_root block_count c =
     c\<lparr>cp_latest_chained_root := chained_root, cp_block_count := block_count, cp_last_updated := now\<rparr>"

definition to_bytes :: "Checkpoint \<Rightarrow> bytes" where
  "to_bytes c =
     cp_latest_chained_root c @ le_bytes 8 (unat (cp_block_count c))
     @ le_bytes 8 (unat (cp_last_updated c)) @ cp_vm_name c"

definition from_bytes :: "bytes \<Rightarrow> Checkpoint option" where
  "from_bytes bs =
     (if length bs < 48 then None
      else
        (let root = slice bs 0 32;
             count = u64_from_le (slice bs 32 40);
             timestamp = u64_from_le (slice bs 40 48);
             vm_name = utf8_lossy (drop 48 bs)
         in Some \<lparr>cp_latest_chained_root = root, cp_block_count = count, cp_vm_name = vm_name,
                  cp_last_updated = timestamp\<rparr>))"

section \<open>Sealed storage\<close>

datatype SealError = IoError bytes | InvalidData bytes | TamperingDetected

definition derive_seal_key :: "(bytes \<Rightarrow> bytes) \<Rightarrow> bytes" where
  "derive_seal_key master = master (str ''seal'')"

text \<open>\<open>save\<close> returns the bytes it hands to \<open>fs::write\<close>; the outcome of the write is given.\<close>

definition sealed_bytes :: "(bytes \<Rightarrow> bytes \<Rightarrow> bytes) \<Rightarrow> bytes \<Rightarrow> Checkpoint \<Rightarrow> bytes" where
  "sealed_bytes hmac seal_key c =
     (let plaintext = to_bytes c;
          mac = hmac seal_key plaintext
      in mac @ plaintext)"

definition save ::
  "(bytes \<Rightarrow> bytes \<Rightarrow> bytes) \<Rightarrow> bytes \<Rightarrow> Checkpoint \<Rightarrow> (bytes \<Rightarrow> (bytes, unit) result) \<Rightarrow> (SealError, unit) result" where
  "save hmac seal_key c write =
     (case write (sealed_bytes hmac seal_key c) of Err e \<Rightarrow> Err (IoError e) | Ok _ \<Rightarrow> Ok ())"

text \<open>\<open>load\<close>: \<open>None\<close> for a file that does not exist, otherwise the outcome of \<open>fs::read\<close>.\<close>

definition load ::
  "(bytes \<Rightarrow> bytes \<Rightarrow> bytes) \<Rightarrow> bytes \<Rightarrow> (bytes, bytes) result option \<Rightarrow> (SealError, Checkpoint option) result" where
  "load hmac seal_key file =
     (case file of
        None \<Rightarrow> Ok None
      | Some (Err e) \<Rightarrow> Err (IoError e)
      | Some (Ok sealed) \<Rightarrow>
          if length sealed < 32 then Err (InvalidData (str ''Too short''))
          else
            (let stored_mac = slice sealed 0 32;
                 plaintext = drop 32 sealed;
                 computed_mac = hmac seal_key plaintext
             in if stored_mac \<noteq> computed_mac then Err TamperingDetected
                else case from_bytes plaintext of
                       None \<Rightarrow> Err (InvalidData (str ''Parse failed''))
                     | Some c \<Rightarrow> Ok (Some c)))"

text \<open>The printed error inside \<open>LoadError\<close> is represented by the error itself.\<close>

datatype VerifyResult =
    CheckpointValid
  | NoCheckpoint
  | LoadError SealError
  | BlockCountMismatch u64 u64
  | RootMismatch bytes bytes

definition verify_against_db ::
  "(bytes \<Rightarrow> bytes \<Rightarrow> bytes) \<Rightarrow> (bytes \<Rightarrow> bytes) \<Rightarrow> bytes \<Rightarrow> (bytes, bytes) result option \<Rightarrow>
   u64 \<Rightarrow> bytes \<Rightarrow> VerifyResult" where
  "verify_against_db hmac hexenc seal_key file db_block_count db_latest_root =
     (case load hmac seal_key file of
        Err e \<Rightarrow> LoadError e
      | Ok None \<Rightarrow> NoCheckpoint
      | Ok (Some c) \<Rightarrow>
          if db_block_count \<noteq> cp_block_count c then BlockCountMismatch (cp_block_count c) db_block_count
          else
            (let cp_root = hexenc (cp_latest_chained_root c)
             in if db_latest_root \<noteq> cp_root then RootMismatch cp_root db_latest_root
                else CheckpointValid))"

section \<open>Signed anchor lines\<close>

definition sign_checkpoint ::
  "(bytes \<Rightarrow> bytes \<Rightarrow> bytes) \<Rightarrow> (bytes \<Rightarrow> bytes) \<Rightarrow> bytes \<Rightarrow> u64 \<Rightarrow> bytes \<Rightarrow> bytes" where
  "sign_checkpoint hmac master tenant block_number chained_root =
     (let derive_msg = str ''vm:'' @ tenant;
          key = hmac (master (str ''anchor'')) derive_msg;
          msg = encode_checkpoint_msg tenant block_number chained_root
      in hmac key msg)"

definition checkpoint_line ::
  "(bytes \<Rightarrow> bytes \<Rightarrow> bytes) \<Rightarrow> (bytes \<Rightarrow> bytes) \<Rightarrow> (bytes \<Rightarrow> bytes) \<Rightarrow> bytes \<Rightarrow> u64 \<Rightarrow> bytes \<Rightarrow> bytes" where
  "checkpoint_line hmac hexenc master tenant block_number chained_root =
     (let sig = sign_checkpoint hmac master tenant block_number chained_root
      in str ''checkpoint-v1|'' @ tenant @ str ''|'' @ dec_u64 block_number @ str ''|''
         @ hexenc chained_root @ str ''|'' @ hexenc sig)"

definition verify_checkpoint_line ::
  "(bytes \<Rightarrow> bytes \<Rightarrow> bytes) \<Rightarrow> (bytes \<Rightarrow> bytes) \<Rightarrow> bytes \<Rightarrow> bytes \<Rightarrow> (u64 \<times> bytes) option" where
  "verify_checkpoint_line hmac master tenant line =
     (case parse_checkpoint_line (trim line) tenant of
        None \<Rightarrow> None
      | Some parsed \<Rightarrow>
          (let expected = sign_checkpoint hmac master tenant (pa_block_number parsed) (pa_root parsed)
           in if \<not> ct_eq_32 expected (pa_sig parsed) then None
              else Some (pa_block_number parsed, pa_root parsed)))"

text \<open>
  The public signature. \<open>pk_of\<close> stands for the construction of a P-256 key from a scalar: an error
  of the group, no key (not a valid scalar), or a key; \<open>ecdsa\<close> and \<open>der\<close> for signing and printing.
\<close>

fun try_scalar ::
  "(bytes \<Rightarrow> bytes) \<Rightarrow> (bytes \<Rightarrow> (bytes, 'pk option) result) \<Rightarrow> u8 list \<Rightarrow> bytes \<Rightarrow> (bytes, 'pk) result" where
  "try_scalar sha pk_of [] material =
     Err (str ''could not derive a valid P-256 scalar from the enclave key'')"
| "try_scalar sha pk_of (counter # cs) material =
     (case pk_of material of
        Err e \<Rightarrow> Err e
      | Ok (Some pk) \<Rightarrow> Ok pk
      | Ok None \<Rightarrow> try_scalar sha pk_of cs (sha (str ''vpma-anchor-scalar-retry'' @ material @ [counter])))"

definition anchor_signing_key ::
  "(bytes \<Rightarrow> bytes) \<Rightarrow> (bytes \<Rightarrow> bytes) \<Rightarrow> (bytes \<Rightarrow> (bytes, 'pk option) result) \<Rightarrow> (bytes, 'pk) result" where
  "anchor_signing_key sha build_key pk_of =
     try_scalar sha pk_of [0, 1, 2, 3, 4, 5, 6, 7] (build_key (str ''anchor-ecdsa-p256-v2''))"

definition anchor_sig_message :: "(bytes \<Rightarrow> bytes) \<Rightarrow> bytes \<Rightarrow> u64 \<Rightarrow> bytes \<Rightarrow> bytes" where
  "anchor_sig_message sha tenant block_number chained_root =
     sha (str ''VPMA-anchor-ecdsa-p256-v2'' @ [0] @ encode_checkpoint_msg tenant block_number chained_root)"

definition public_anchor_signature ::
  "(bytes \<Rightarrow> bytes) \<Rightarrow> (bytes \<Rightarrow> bytes) \<Rightarrow> (bytes \<Rightarrow> bytes) \<Rightarrow> (bytes \<Rightarrow> (bytes, 'pk option) result) \<Rightarrow>
   ('pk \<Rightarrow> bytes \<Rightarrow> (bytes, bytes) result) \<Rightarrow> ('pk \<Rightarrow> (bytes, bytes) result) \<Rightarrow>
   bytes \<Rightarrow> u64 \<Rightarrow> bytes \<Rightarrow> (bytes, bytes \<times> bytes) result" where
  "public_anchor_signature sha hexenc build_key pk_of ecdsa der tenant block_number chained_root =
     (case anchor_signing_key sha build_key pk_of of
        Err e \<Rightarrow> Err e
      | Ok pk \<Rightarrow>
          (let digest = anchor_sig_message sha tenant block_number chained_root in
           case ecdsa pk digest of
             Err e \<Rightarrow> Err e
           | Ok sig \<Rightarrow> (case der pk of Err e \<Rightarrow> Err e | Ok pubkey \<Rightarrow> Ok (hexenc sig, hexenc pubkey))))"

section \<open>Properties\<close>

lemma u64_from_le_bytes [simp]: "u64_from_le (le_bytes 8 (unat v)) = v"
  by (metis spec_u64_le_bytes u64_from_le_spec)

lemma from_to_bytes:
  assumes "length (cp_latest_chained_root c) = 32" "utf8_valid (cp_vm_name c)"
  shows "from_bytes (to_bytes c) = Some c"
proof -
  let ?r = "cp_latest_chained_root c" and ?n = "le_bytes 8 (unat (cp_block_count c))"
    and ?t = "le_bytes 8 (unat (cp_last_updated c))"
  have "slice (to_bytes c) 0 32 = ?r" using assms(1) by (simp add: to_bytes_def slice_def)
  moreover have "slice (to_bytes c) 32 40 = ?n"
    using assms(1) slice_mid [of 32 ?r 40 ?n] by (simp add: to_bytes_def)
  moreover have "slice (to_bytes c) 40 48 = ?t"
    using assms(1) slice_mid [of 40 "?r @ ?n" 48 ?t] by (simp add: to_bytes_def)
  moreover have "drop 48 (to_bytes c) = cp_vm_name c" using assms(1) by (simp add: to_bytes_def)
  moreover have "\<not> length (to_bytes c) < 48" using assms(1) by (simp add: to_bytes_def)
  ultimately show ?thesis
    by (simp add: from_bytes_def Let_def utf8_lossy_valid [OF assms(2)])
qed

lemma load_sealed_iff:
  "load hmac k (Some (Ok s)) = Ok (Some c) \<longleftrightarrow>
     32 \<le> length s \<and> take 32 s = hmac k (drop 32 s) \<and> from_bytes (drop 32 s) = Some c"
  by (auto simp: load_def slice_def Let_def split: option.splits)

text \<open>C31: A sealed checkpoint survives saving and loading unchanged; whatever a load accepts carries the MAC of
  its content under the enclave's sealing key; and every change of the stored content whose MAC is not the
  stored one is reported as tampering.\<close>
theorem sealed_checkpoint_roundtrip:
  assumes "\<forall>k m. length (hmac k m) = 32"
    and "length (cp_latest_chained_root c) = 32" "utf8_valid (cp_vm_name c)"
  shows "load hmac k (Some (Ok (sealed_bytes hmac k c))) = Ok (Some c) \<and>
    (\<forall>s d. load hmac k (Some (Ok s)) = Ok (Some d) \<longrightarrow> (\<exists>pt. s = hmac k pt @ pt \<and> from_bytes pt = Some d)) \<and>
    (\<forall>mac pt. length mac = 32 \<and> mac \<noteq> hmac k pt \<longrightarrow> load hmac k (Some (Ok (mac @ pt))) = Err TamperingDetected)"
proof (intro conjI allI impI)
  show "load hmac k (Some (Ok (sealed_bytes hmac k c))) = Ok (Some c)"
    using assms(1) from_to_bytes [OF assms(2,3)]
    by (simp add: load_sealed_iff sealed_bytes_def Let_def)
next
  fix s d assume "load hmac k (Some (Ok s)) = Ok (Some d)"
  then have "s = hmac k (drop 32 s) @ drop 32 s" "from_bytes (drop 32 s) = Some d"
    using append_take_drop_id [of 32 s] by (simp_all add: load_sealed_iff)
  then show "\<exists>pt. s = hmac k pt @ pt \<and> from_bytes pt = Some d" by blast
next
  fix mac pt :: bytes assume "length mac = 32 \<and> mac \<noteq> hmac k pt"
  then show "load hmac k (Some (Ok (mac @ pt))) = Err TamperingDetected"
    by (simp add: load_def slice_def)
qed

definition toy_hmac :: "bytes \<Rightarrow> bytes \<Rightarrow> bytes" where
  "toy_hmac k m = toy_sha (m @ k)"

lemma length_toy_hmac: "\<forall>k m. length (toy_hmac k m) = 32"
  using length_toy_sha by (simp add: toy_hmac_def)

lemma sealed_checkpoint_roundtrip_witness:
  "load toy_hmac [1] (Some (Ok (sealed_bytes toy_hmac [1] (checkpoint_new 5 (str ''vm''))))) =
     Ok (Some (checkpoint_new 5 (str ''vm'')))"
  using sealed_checkpoint_roundtrip [OF length_toy_hmac, of "checkpoint_new 5 (str ''vm'')" "[1]"]
  by (simp add: checkpoint_new_def zero_hash_def str_def utf8_valid.simps utf8_step_def utf8_head_def
      utf8_width_def)

lemma line_as_bars:
  "str ''checkpoint-v1|'' @ t @ str ''|'' @ b @ str ''|'' @ r @ str ''|'' @ g = bars anchor_tag_bytes t b r g"
  by (simp add: bars_def anchor_tag_bytes_def str_def)

lemma hex_digit_graphic: "d < 16 \<Longrightarrow> graphic (hex_digit d)"
proof -
  assume d: "d < 16"
  have "unat (0x30 + d) = 48 + unat d" "10 \<le> d \<Longrightarrow> unat (0x61 + (d - 10)) = 87 + unat d"
    using d by (simp_all add: word_less_nat_alt word_le_nat_alt unat_word_ariths unat_sub)
  then show ?thesis using d by (auto simp: hex_digit_def graphic_def word_less_nat_alt word_le_nat_alt)
qed

lemma last_hex_lower: "bs \<noteq> [] \<Longrightarrow> hex_lower bs \<noteq> [] \<and> graphic (last (hex_lower bs))"
proof (induction bs)
  case (Cons b bs)
  then show ?case by (cases bs) (simp_all add: hex_digit_graphic byte_div_mod_16)
qed simp

lemma trim_bars:
  assumes "g \<noteq> []" "graphic (last g)" shows "trim (bars anchor_tag_bytes t b r g) = bars anchor_tag_bytes t b r g"
  using assms by (intro trim_graphic) (simp_all add: bars_def anchor_tag_bytes_def graphic_def)

lemma parse_canonical_line:
  assumes "0x7C \<notin> set t" "length r = 32" "length g = 32"
  shows "parse_checkpoint_line (bars anchor_tag_bytes t (dec_u64 n) (hex_lower r) (hex_lower g)) t =
    Some \<lparr>pa_block_number = n, pa_root = r, pa_sig = g\<rparr>"
proof -
  have "hex_decode_32 (hex_lower r) = Some r" "hex_decode_32 (hex_lower g) = Some g"
    using assms by (simp_all only: hex_decode_32_lower)
  moreover have "0x7C \<notin> set (dec_u64 n)"
    by (intro no_bar_digits) (simp add: dec_u64_def dec_digits)
  ultimately show ?thesis
    using assms(1) parse_bars [of anchor_tag_bytes t "dec_u64 n" "hex_lower r" "hex_lower g" t]
    by (simp add: no_bar_tag no_bar_hex parse_u64_dec_dec)
qed

text \<open>The anchor line an enclave issues for a valid tenant is accepted by its own verification and yields
  the block number and root it was issued for, for every master key and every MAC function with 32-byte
  tags.\<close>
theorem anchor_line_roundtrip:
  assumes "\<forall>k m. length (hmac k m) = 32" "\<forall>b. hexenc b = hex_lower b"
    and "is_valid_tenant_label tenant" "length root = 32"
  shows "verify_checkpoint_line hmac master tenant (checkpoint_line hmac hexenc master tenant n root) = Some (n, root)"
proof -
  let ?sig = "sign_checkpoint hmac master tenant n root"
  have sig: "length ?sig = 32" using assms(1) by (simp add: sign_checkpoint_def Let_def)
  then have "?sig \<noteq> []" by auto
  then have "trim (checkpoint_line hmac hexenc master tenant n root) =
      bars anchor_tag_bytes tenant (dec_u64 n) (hex_lower root) (hex_lower ?sig)"
    using last_hex_lower [of ?sig] assms(2) by (simp add: checkpoint_line_def Let_def line_as_bars trim_bars)
  then show ?thesis
    using parse_canonical_line [OF label_no_bar [OF assms(3)] assms(4) sig] ct_eq_32_spec [OF sig sig]
    by (simp add: verify_checkpoint_line_def Let_def)
qed

lemma anchor_line_roundtrip_witness:
  "verify_checkpoint_line toy_hmac (\<lambda>l. l) (str ''vm-1'')
     (checkpoint_line toy_hmac hex_lower (\<lambda>l. l) (str ''vm-1'') 7 zero_hash) = Some (7, zero_hash)"
proof -
  have "is_valid_tenant_label (str ''vm-1'')"
    by (simp add: refines spec_valid_tenant_label_def str_def spec_safe_label_byte_def MAX_TENANT_LABEL_def)
  then show ?thesis
    using anchor_line_roundtrip [OF length_toy_hmac, of hex_lower "str ''vm-1''" zero_hash]
    by (simp add: zero_hash_def)
qed

lemma verify_line_Some:
  assumes "\<forall>k m. length (hmac k m) = 32" "verify_checkpoint_line hmac master t line = Some (n, r)"
  shows "\<exists>blk rh gh. trim line = bars anchor_tag_bytes t blk rh gh \<and> 0x7C \<notin> set t \<and>
    parse_u64_dec blk = Some n \<and> hex_decode_32 rh = Some r \<and>
    hex_decode_32 gh = Some (sign_checkpoint hmac master t n r)"
proof -
  obtain a where a: "parse_checkpoint_line (trim line) t = Some a" "n = pa_block_number a" "r = pa_root a"
      "ct_eq_32 (sign_checkpoint hmac master t n r) (pa_sig a)"
    using assms(2) by (auto simp: verify_checkpoint_line_def Let_def split: option.splits if_splits)
  obtain blk rh gh where f: "trim line = bars anchor_tag_bytes t blk rh gh" "0x7C \<notin> set t"
      "parse_u64_dec blk = Some n" "hex_decode_32 rh = Some r" "hex_decode_32 gh = Some (pa_sig a)"
    using a(1-3) unfolding parse_checkpoint_line_iff by blast
  have "length (sign_checkpoint hmac master t n r) = 32"
    using assms(1) by (simp add: sign_checkpoint_def Let_def)
  then have "pa_sig a = sign_checkpoint hmac master t n r"
    using a(4) hex_decode_32_length [OF f(5)] by (simp add: ct_eq_32_spec)
  with f show ?thesis by metis
qed

lemma bars_tag_inj:
  assumes "0x7C \<notin> set t" "0x7C \<notin> set u"
    and "bars anchor_tag_bytes t a b c = bars anchor_tag_bytes u d e f"
  shows "t = u"
  using assms(3) bar_split [OF assms(1,2)] by (simp add: bars_def)

text \<open>An accepted anchor line is the signed one for that tenant: the line carries, in hexadecimal, the MAC
  of exactly the block number and root that verification returns, under the tenant's own key, and no line
  is accepted for two different tenants.\<close>
theorem anchor_line_sound:
  assumes "\<forall>k m. length (hmac k m) = 32" "verify_checkpoint_line hmac master t line = Some (n, r)"
  shows "(\<exists>blk rh gh. trim line = bars anchor_tag_bytes t blk rh gh \<and>
      parse_u64_dec blk = Some n \<and> hex_decode_32 rh = Some r \<and>
      hex_decode_32 gh = Some (hmac (hmac (master (str ''anchor'')) (str ''vm:'' @ t)) (encode_checkpoint_msg t n r))) \<and>
    (\<forall>u. verify_checkpoint_line hmac master u line \<noteq> None \<longrightarrow> u = t)"
proof (intro conjI allI impI)
  show "\<exists>blk rh gh. trim line = bars anchor_tag_bytes t blk rh gh \<and>
      parse_u64_dec blk = Some n \<and> hex_decode_32 rh = Some r \<and>
      hex_decode_32 gh = Some (hmac (hmac (master (str ''anchor'')) (str ''vm:'' @ t)) (encode_checkpoint_msg t n r))"
    using verify_line_Some [OF assms] by (auto simp: sign_checkpoint_def Let_def)
next
  fix u assume "verify_checkpoint_line hmac master u line \<noteq> None"
  then obtain m s where u: "verify_checkpoint_line hmac master u line = Some (m, s)" by auto
  obtain a b c where "trim line = bars anchor_tag_bytes t a b c" "0x7C \<notin> set t"
    using verify_line_Some [OF assms] by blast
  moreover obtain d e f where "trim line = bars anchor_tag_bytes u d e f" "0x7C \<notin> set u"
    using verify_line_Some [OF assms(1) u] by blast
  ultimately show "u = t" using bars_tag_inj by metis
qed

lemma anchor_line_sound_witness:
  "\<exists>line. verify_checkpoint_line toy_hmac (\<lambda>l. l) (str ''a'') line = Some (7, zero_hash) \<and>
     verify_checkpoint_line toy_hmac (\<lambda>l. l) (str ''b'') line = None"
proof -
  let ?m = "\<lambda>l :: bytes. l" and ?sig = "sign_checkpoint toy_hmac (\<lambda>l. l) (str ''a'') 7 zero_hash"
  let ?line = "bars anchor_tag_bytes (str ''a'') (dec_u64 7) (hex_lower zero_hash) (hex_lower ?sig)"
  have len: "length ?sig = 32" "length zero_hash = 32"
    by (simp_all add: sign_checkpoint_def Let_def length_toy_hmac zero_hash_def)
  then have "?sig \<noteq> []" by auto
  then have "verify_checkpoint_line toy_hmac ?m (str ''a'') ?line = Some (7, zero_hash)"
    using parse_canonical_line [of "str ''a''" zero_hash ?sig 7] last_hex_lower [of ?sig] len
    by (simp add: verify_checkpoint_line_def trim_bars ct_eq_32_spec str_def)
  moreover have "verify_checkpoint_line toy_hmac ?m (str ''b'') ?line = None"
  proof -
    have "str ''b'' \<noteq> str ''a''" by (simp add: str_def)
    then show ?thesis using anchor_line_sound [OF length_toy_hmac calculation] by blast
  qed
  ultimately show ?thesis by blast
qed

end
