(* ===== verification/Containers.thy ===== *)
theory Containers
  imports Prelude
begin

text \<open>
  Rust's \<open>BTreeMap\<close> with string keys: the association list that its iterator returns, ordered by the
  bytes of the keys. The interface \<open>finite_map\<close> states what the code relies on, and proves once
  what a loop of insertions leaves in the map.
\<close>

fun bytes_less :: "bytes \<Rightarrow> bytes \<Rightarrow> bool" where
  "bytes_less [] ys = (ys \<noteq> [])"
| "bytes_less (x # xs) [] = False"
| "bytes_less (x # xs) (y # ys) = (x < y \<or> x = y \<and> bytes_less xs ys)"

fun bt_insert :: "bytes \<Rightarrow> 'v \<Rightarrow> (bytes \<times> 'v) list \<Rightarrow> (bytes \<times> 'v) list" where
  "bt_insert k v [] = [(k, v)]"
| "bt_insert k v ((a, b) # m) =
     (if k = a then (k, v) # m
      else if bytes_less k a then (k, v) # (a, b) # m
      else (a, b) # bt_insert k v m)"

lemma bytes_less_irrefl [simp]: "\<not> bytes_less a a"
  by (induction a) auto

lemma bytes_less_trans: "bytes_less a b \<Longrightarrow> bytes_less b c \<Longrightarrow> bytes_less a c"
proof (induction a b arbitrary: c rule: bytes_less.induct)
  case (1 ys)
  then show ?case by (cases ys; cases c) auto
next
  case (3 x xs y ys)
  then show ?case by (cases c) (auto intro: less_trans)
qed simp

lemma bytes_less_total: "a = b \<or> bytes_less a b \<or> bytes_less b a"
proof (induction a b rule: bytes_less.induct)
  case (1 ys)
  show ?case by (cases ys) auto
qed auto

definition bt_sorted :: "(bytes \<times> 'v) list \<Rightarrow> bool" where
  "bt_sorted m \<longleftrightarrow> sorted_wrt bytes_less (map fst m)"

lemma bt_insert_keys: "set (map fst (bt_insert k v m)) = insert k (set (map fst m))"
  by (induction k v m rule: bt_insert.induct) auto

lemma bt_insert_sorted: "bt_sorted m \<Longrightarrow> bt_sorted (bt_insert k v m)"
proof (induction k v m rule: bt_insert.induct)
  case (2 k v a b m)
  have a: "\<forall>x \<in> set (map fst m). bytes_less a x" and m: "bt_sorted m"
    using "2.prems" by (auto simp: bt_sorted_def)
  consider "k = a" | "k \<noteq> a" "bytes_less k a" | "k \<noteq> a" "\<not> bytes_less k a" "bytes_less a k"
    using bytes_less_total [of k a] by blast
  then show ?case
  proof cases
    case 1
    then show ?thesis using "2.prems" by (simp add: bt_sorted_def)
  next
    case 2
    then show ?thesis using "2.prems" a by (auto simp: bt_sorted_def intro: bytes_less_trans)
  next
    case 3
    have "bt_sorted (bt_insert k v m)" using "2.IH" 3 m by simp
    moreover have "\<forall>x \<in> set (map fst (bt_insert k v m)). bytes_less a x"
      unfolding bt_insert_keys using a 3(3) by simp
    ultimately show ?thesis using 3 by (simp add: bt_sorted_def)
  qed
qed (simp add: bt_sorted_def)

lemma bt_lookup_insert: "map_of (bt_insert k v m) x = (if x = k then Some v else map_of m x)"
  by (induction k v m rule: bt_insert.induct) auto

locale finite_map =
  fixes lookup :: "'m \<Rightarrow> 'k \<Rightarrow> 'v option"
    and update :: "'k \<Rightarrow> 'v \<Rightarrow> 'm \<Rightarrow> 'm"
    and empty :: 'm
    and inv :: "'m \<Rightarrow> bool"
  assumes inv_empty: "inv empty"
    and inv_update: "inv m \<Longrightarrow> inv (update k v m)"
    and lookup_empty: "lookup empty x = None"
    and lookup_update: "inv m \<Longrightarrow> lookup (update k v m) x = (if x = k then Some v else lookup m x)"
begin

definition inserts :: "('k \<times> 'v) list \<Rightarrow> 'm \<Rightarrow> 'm" where
  "inserts kvs m = foldl (\<lambda>m (k, v). update k v m) m kvs"

lemma inserts_inv: "inv m \<Longrightarrow> inv (inserts kvs m)"
  by (induction kvs arbitrary: m) (auto simp: inserts_def inv_update)

lemma lookup_inserts:
  "inv m \<Longrightarrow> lookup (inserts kvs m) x = (case map_of (rev kvs) x of Some v \<Rightarrow> Some v | None \<Rightarrow> lookup m x)"
proof (induction kvs arbitrary: m)
  case (Cons kv kvs)
  obtain k v where kv: "kv = (k, v)" by (cases kv)
  have "lookup (inserts kvs (update k v m)) x =
      (case map_of (rev kvs) x of Some v \<Rightarrow> Some v | None \<Rightarrow> lookup (update k v m) x)"
    using Cons by (simp add: inv_update)
  then show ?case
    using Cons.prems by (simp add: inserts_def kv lookup_update map_add_def split: option.split)
qed (simp add: inserts_def)

lemma lookup_from_empty: "lookup (inserts kvs empty) x = map_of (rev kvs) x"
  by (simp add: lookup_inserts inv_empty lookup_empty split: option.split)

end

interpretation bt: finite_map map_of bt_insert "[]" bt_sorted
proof
  show "bt_sorted []" by (simp add: bt_sorted_def)
qed (simp_all add: bt_insert_sorted bt_lookup_insert)

text \<open>A map built by insertions lists each key once.\<close>

lemma bt_sorted_distinct: "bt_sorted m \<Longrightarrow> distinct (map fst m)"
proof (induction m)
  case (Cons a m)
  then show ?case by (auto simp: bt_sorted_def)
qed simp

lemma bt_set_lookup: "bt_sorted m \<Longrightarrow> (k, v) \<in> set m \<longleftrightarrow> map_of m k = Some v"
  by (simp add: bt_sorted_distinct)

end
