(* ===== verification/EnergyChain.thy ===== *)
theory EnergyChain
  imports Checkpoint
begin

text \<open>
  The signed chain of energy readings of each virtual machine: the guest's verifier and signer
  (\<open>ecall_verify_energy_chain\<close>, \<open>ecall_sign_energy_chain\<close>, \<open>src/sgx_vm/src/lib.rs\<close>) and the host's
  signer (the chain part of \<open>ecall_compute_vm_energy_simple\<close> and \<open>_cgroup\<close> and the chain queries,
  \<open>src/sgx/src/lib.rs\<close>). A null pointer argument is \<open>None\<close>; the static maps are passed as state.
\<close>

record VmChainState =
  vs_counter :: u64
  vs_last_signature :: bytes
  vs_initialized :: bool
  vs_last_energy_uj :: u64

type_synonym chain_states = "bytes \<rightharpoonup> VmChainState"

definition vm_chain_new :: VmChainState where
  "vm_chain_new =
     \<lparr>vs_counter = 0, vs_last_signature = zero_hash, vs_initialized = False, vs_last_energy_uj = 0\<rparr>"

text \<open>The text that is signed, and its MAC under the machine's key.\<close>

definition chain_data :: "(bytes \<Rightarrow> bytes) \<Rightarrow> u64 \<Rightarrow> bytes \<Rightarrow> u64 \<Rightarrow> u64 \<Rightarrow> bytes \<Rightarrow> bytes" where
  "chain_data hexenc counter vm_name energy_uj energy_delta previous_hash =
     dec_u64 counter @ str ''|'' @ vm_name @ str ''|'' @ dec_u64 energy_uj @ str ''|''
     @ dec_u64 energy_delta @ str ''|'' @ hexenc previous_hash"

definition chain_mac ::
  "(bytes \<Rightarrow> bytes \<Rightarrow> bytes) \<Rightarrow> (bytes \<Rightarrow> bytes) \<Rightarrow> (bytes \<Rightarrow> bytes) \<Rightarrow> bytes \<Rightarrow>
   u64 \<Rightarrow> u64 \<Rightarrow> u64 \<Rightarrow> bytes \<Rightarrow> bytes" where
  "chain_mac hmac hexenc master vm_name counter energy_uj energy_delta previous_hash =
     hmac (derive_vm_key hmac (master (str ''chain'')) vm_name)
       (chain_data hexenc counter vm_name energy_uj energy_delta previous_hash)"

section \<open>The guest\<close>

text \<open>\<open>entry(name).or_insert_with(VmChainState::new)\<close>\<close>

definition entry_or_new :: "chain_states \<Rightarrow> bytes \<Rightarrow> VmChainState" where
  "entry_or_new states vm_name = (case states vm_name of Some s \<Rightarrow> s | None \<Rightarrow> vm_chain_new)"

definition ecall_verify_energy_chain ::
  "(bytes \<Rightarrow> bytes \<Rightarrow> bytes) \<Rightarrow> (bytes \<Rightarrow> bytes) \<Rightarrow> (bytes \<Rightarrow> bytes) \<Rightarrow> bytes option \<Rightarrow> u64 \<Rightarrow> u64 \<Rightarrow>
   u64 \<Rightarrow> bytes option \<Rightarrow> bytes option \<Rightarrow> chain_states \<Rightarrow> int \<times> chain_states" where
  "ecall_verify_energy_chain hmac hexenc master vm_name_ptr energy_uj energy_delta counter
     previous_hash_ptr received_signature_ptr states =
     (case (vm_name_ptr, previous_hash_ptr, received_signature_ptr) of
        (Some vm_name, Some previous_hash, Some received_signature) \<Rightarrow>
          if \<not> utf8_valid vm_name then (-1, states)
          else
            (let expected_signature =
                   chain_mac hmac hexenc master vm_name counter energy_uj energy_delta previous_hash;
                 mac_ok = expected_signature = received_signature;
                 vm_state = entry_or_new states vm_name;
                 states = states(vm_name \<mapsto> vm_state);
                 was_initialized = vs_initialized vm_state;
                 prev_hash_ok = \<not> was_initialized \<or> previous_hash = vs_last_signature vm_state;
                 verdict = admit_chain_step mac_ok prev_hash_ok was_initialized (vs_counter vm_state)
                   (vs_last_energy_uj vm_state) counter energy_uj energy_delta
             in case chain_admitted verdict of
                  Some _ \<Rightarrow>
                    (if was_initialized then 0 else 1,
                     states(vm_name \<mapsto> \<lparr>vs_counter = counter, vs_last_signature = expected_signature,
                                       vs_initialized = True, vs_last_energy_uj = energy_uj\<rparr>))
                | None \<Rightarrow>
                    (case verdict of
                       IdempotentSkip \<Rightarrow> (2, states)
                     | Reject d \<Rightarrow> (chain_denial_code d, states)
                     | Accept \<Rightarrow> (-2, states)))
      | _ \<Rightarrow> (-1, states))"

text \<open>The signer; \<open>out\<close> tells that none of the three output pointers is null.\<close>

definition ecall_sign_energy_chain ::
  "(bytes \<Rightarrow> bytes \<Rightarrow> bytes) \<Rightarrow> (bytes \<Rightarrow> bytes) \<Rightarrow> (bytes \<Rightarrow> bytes) \<Rightarrow> bytes option \<Rightarrow> u64 \<Rightarrow> u64 \<Rightarrow>
   bool \<Rightarrow> chain_states \<Rightarrow> (int \<times> (u64 \<times> bytes \<times> bytes) option \<times> chain_states) exec" where
  "ecall_sign_energy_chain hmac hexenc master tenant_ptr energy_uj energy_delta out states =
     (case tenant_ptr of
        None \<Rightarrow> Done (-1, None, states)
      | Some tenant \<Rightarrow>
          if \<not> out then Done (-1, None, states)
          else if \<not> utf8_valid tenant then Done (-1, None, states)
          else
            (let state = entry_or_new states tenant;
                 is_first = \<not> vs_initialized state
             in case (if is_first then Done 1 else checked_add (vs_counter state) 1) of
                  Panic \<Rightarrow> Panic
                | Done counter \<Rightarrow>
                    (let previous_hash = vs_last_signature state;
                         signature = chain_mac hmac hexenc master tenant counter energy_uj energy_delta
                                       previous_hash
                     in Done (if is_first then 1 else 0, Some (counter, signature, previous_hash),
                          states(tenant \<mapsto> \<lparr>vs_counter = counter, vs_last_signature = signature,
                                           vs_initialized = True, vs_last_energy_uj = energy_uj\<rparr>)))))"

section \<open>The host\<close>

record HostChain =
  hc_hmac_key :: bytes
  hc_chain_state :: bytes
  hc_counter :: u64
  hc_cumulative_energy_uj :: u64

type_synonym host_chains = "bytes \<rightharpoonup> HostChain"

record VmEnergyUpdate =
  vu_vm_name :: bytes
  vu_uj_to_add :: u64

text \<open>
  The values of one signed step, which the write callback gets, and the serialised form of it
  that the call returns.
\<close>

record SignedReading =
  sr_vm_name :: bytes
  sr_uj_to_add :: u64
  sr_counter :: u64
  sr_cumulative :: u64
  sr_previous_hash :: bytes
  sr_signature :: bytes

record SignedVmUpdate =
  su_vm_name :: bytes
  su_uj_value :: u64
  su_counter :: u64
  su_previous_hash :: bytes
  su_signature :: bytes

definition signed_vm_update :: "(bytes \<Rightarrow> bytes) \<Rightarrow> SignedReading \<Rightarrow> SignedVmUpdate" where
  "signed_vm_update hexenc r =
     \<lparr>su_vm_name = sr_vm_name r, su_uj_value = sr_uj_to_add r, su_counter = sr_counter r,
      su_previous_hash = hexenc (sr_previous_hash r), su_signature = hexenc (sr_signature r)\<rparr>"

definition host_chain_entry ::
  "(bytes \<Rightarrow> bytes \<Rightarrow> bytes) \<Rightarrow> (bytes \<Rightarrow> bytes) \<Rightarrow> host_chains \<Rightarrow> bytes \<Rightarrow> HostChain" where
  "host_chain_entry hmac master cs vm_name =
     (case cs vm_name of
        Some s \<Rightarrow> s
      | None \<Rightarrow> \<lparr>hc_hmac_key = derive_vm_key hmac (master (str ''chain'')) vm_name,
                 hc_chain_state = zero_hash, hc_counter = 0, hc_cumulative_energy_uj = 0\<rparr>)"

definition sign_update ::
  "(bytes \<Rightarrow> bytes \<Rightarrow> bytes) \<Rightarrow> (bytes \<Rightarrow> bytes) \<Rightarrow> (bytes \<Rightarrow> bytes) \<Rightarrow> VmEnergyUpdate \<Rightarrow> host_chains \<Rightarrow>
   (SignedReading \<times> host_chains) exec" where
  "sign_update hmac hexenc master update cs =
     (let vm_state = host_chain_entry hmac master cs (vu_vm_name update)
      in case checked_add (hc_counter vm_state) 1 of
           Panic \<Rightarrow> Panic
         | Done counter \<Rightarrow>
             (let cumulative = saturating_add (hc_cumulative_energy_uj vm_state) (vu_uj_to_add update);
                  data_to_sign = chain_data hexenc counter (vu_vm_name update) cumulative
                    (vu_uj_to_add update) (hc_chain_state vm_state);
                  signature = hmac (hc_hmac_key vm_state) data_to_sign;
                  previous_hash = hc_chain_state vm_state
              in Done (\<lparr>sr_vm_name = vu_vm_name update, sr_uj_to_add = vu_uj_to_add update,
                        sr_counter = counter, sr_cumulative = cumulative,
                        sr_previous_hash = previous_hash, sr_signature = signature\<rparr>,
                   cs(vu_vm_name update \<mapsto>
                     \<lparr>hc_hmac_key = hc_hmac_key vm_state, hc_chain_state = signature,
                      hc_counter = counter, hc_cumulative_energy_uj = cumulative\<rparr>))))"

text \<open>The loop over all updates of a cycle.\<close>

fun sign_updates ::
  "(bytes \<Rightarrow> bytes \<Rightarrow> bytes) \<Rightarrow> (bytes \<Rightarrow> bytes) \<Rightarrow> (bytes \<Rightarrow> bytes) \<Rightarrow> VmEnergyUpdate list \<Rightarrow> host_chains \<Rightarrow>
   (SignedReading list \<times> host_chains) exec" where
  "sign_updates hmac hexenc master [] cs = Done ([], cs)"
| "sign_updates hmac hexenc master (u # us) cs =
     and_then (sign_update hmac hexenc master u cs) (\<lambda>(s, cs).
     and_then (sign_updates hmac hexenc master us cs) (\<lambda>(ss, cs). Done (s # ss, cs)))"

definition verify_hmac_signature ::
  "(bytes \<Rightarrow> bytes \<Rightarrow> bytes) \<Rightarrow> host_chains option \<Rightarrow> bytes \<Rightarrow> bytes \<Rightarrow> bytes \<Rightarrow> bool" where
  "verify_hmac_signature hmac vm_chains vm_name data signature =
     (case vm_chains of
        None \<Rightarrow> False
      | Some cs \<Rightarrow>
          (case cs vm_name of
             None \<Rightarrow> False
           | Some vm_state \<Rightarrow> hmac (hc_hmac_key vm_state) data = signature))"

definition ecall_initialize_sealed_key :: "host_chains option \<Rightarrow> int \<times> host_chains option" where
  "ecall_initialize_sealed_key vm_chains = (0, Some (\<lambda>_. None))"

definition ecall_get_chain_state ::
  "bytes option \<Rightarrow> nat option \<Rightarrow> bool \<Rightarrow> host_chains option \<Rightarrow> int \<times> (bytes \<times> u64) option" where
  "ecall_get_chain_state vm_name_ptr chain_buf counter_out vm_chains =
     (case (vm_name_ptr, chain_buf) of
        (Some vm_name_bytes, Some chain_len) \<Rightarrow>
          if chain_len < 32 \<or> \<not> counter_out then (1, None)
          else if \<not> utf8_valid vm_name_bytes then (2, None)
          else (case vm_chains of
                  None \<Rightarrow> (3, None)
                | Some cs \<Rightarrow>
                    (case cs vm_name_bytes of
                       None \<Rightarrow> (4, None)
                     | Some vm_state \<Rightarrow> (0, Some (hc_chain_state vm_state, hc_counter vm_state))))
      | _ \<Rightarrow> (1, None))"

section \<open>The verdict on one reading\<close>

lemma verify_energy_chain_step:
  fixes hmac hexenc master vm e d c p sig st
  defines "s \<equiv> entry_or_new st vm"
  defines "m \<equiv> chain_mac hmac hexenc master vm c e d p"
  defines "v \<equiv> admit_chain_step (m = sig) (\<not> vs_initialized s \<or> p = vs_last_signature s)
    (vs_initialized s) (vs_counter s) (vs_last_energy_uj s) c e d"
  assumes "utf8_valid vm"
  shows "ecall_verify_energy_chain hmac hexenc master (Some vm) e d c (Some p) (Some sig) st =
    (case v of
       Accept \<Rightarrow> (if vs_initialized s then 0 else 1,
         st(vm \<mapsto> \<lparr>vs_counter = c, vs_last_signature = m, vs_initialized = True, vs_last_energy_uj = e\<rparr>))
     | IdempotentSkip \<Rightarrow> (2, st(vm \<mapsto> s))
     | Reject x \<Rightarrow> (chain_denial_code x, st(vm \<mapsto> s)))"
  using assms(4) unfolding ecall_verify_energy_chain_def s_def [symmetric] m_def [symmetric]
  by (simp add: Let_def s_def m_def v_def split: ChainVerdict.splits)

definition in_sequence :: "VmChainState \<Rightarrow> u64 \<Rightarrow> u64 \<Rightarrow> u64 \<Rightarrow> bytes \<Rightarrow> bool" where
  "in_sequence s c e d p \<longleftrightarrow>
     (vs_initialized s \<longrightarrow> unat c = unat (vs_counter s) + 1 \<and>
        unat e = spec_sat_add (vs_last_energy_uj s) d \<and> p = vs_last_signature s)"

lemma verdict_in_sequence:
  "admit_chain_step m (\<not> vs_initialized s \<or> p = vs_last_signature s) (vs_initialized s) (vs_counter s)
     (vs_last_energy_uj s) c e d = Accept \<longleftrightarrow> m \<and> in_sequence s c e d p"
  by (auto simp: refines spec_chain_step_acceptable_def in_sequence_def)

text \<open>C1: The guest accepts a reading (status 0, or 1 for a machine's first) exactly when it carries the MAC
  of its own text under the machine's key and continues that machine's chain: next counter, saturated sum
  of energies, previous signature. On acceptance it stores the reading; otherwise no chain changes. The
  other machines' chains are never touched, and malformed arguments change nothing.\<close>
theorem verify_energy_chain_correct:
  fixes hmac hexenc master vm e d c p sig st
  defines "s \<equiv> entry_or_new st vm"
  defines "m \<equiv> chain_mac hmac hexenc master vm c e d p"
  defines "r \<equiv> ecall_verify_energy_chain hmac hexenc master (Some vm) e d c (Some p) (Some sig) st"
  assumes "utf8_valid vm"
  shows "(fst r \<in> {0, 1} \<longleftrightarrow> sig = m \<and> in_sequence s c e d p) \<and>
    (fst r \<in> {0, 1} \<longrightarrow> (fst r = 1 \<longleftrightarrow> \<not> vs_initialized s) \<and> snd r = st(vm \<mapsto>
        \<lparr>vs_counter = c, vs_last_signature = m, vs_initialized = True, vs_last_energy_uj = e\<rparr>)) \<and>
    (fst r \<notin> {0, 1} \<longrightarrow> fst r \<in> {2, -2, -3, -4} \<and> entry_or_new (snd r) = entry_or_new st) \<and>
    (fst r = 2 \<longleftrightarrow> sig = m \<and> vs_initialized s \<and> c = vs_counter s \<and> e = vs_last_energy_uj s)"
proof -
  let ?v = "admit_chain_step (m = sig) (\<not> vs_initialized s \<or> p = vs_last_signature s) (vs_initialized s)
    (vs_counter s) (vs_last_energy_uj s) c e d"
  have r: "r = (case ?v of
       Accept \<Rightarrow> (if vs_initialized s then 0 else 1,
         st(vm \<mapsto> \<lparr>vs_counter = c, vs_last_signature = m, vs_initialized = True, vs_last_energy_uj = e\<rparr>))
     | IdempotentSkip \<Rightarrow> (2, st(vm \<mapsto> s))
     | Reject x \<Rightarrow> (chain_denial_code x, st(vm \<mapsto> s)))"
    unfolding r_def s_def m_def by (rule verify_energy_chain_step [OF assms(4)])
  have same: "entry_or_new (st(vm \<mapsto> s)) = entry_or_new st" by (auto simp: entry_or_new_def s_def)
  have acc: "?v = Accept \<longleftrightarrow> sig = m \<and> in_sequence s c e d p" using verdict_in_sequence by auto
  have skip: "?v = IdempotentSkip \<longleftrightarrow> sig = m \<and> vs_initialized s \<and> c = vs_counter s \<and> e = vs_last_energy_uj s"
    unfolding admit_chain_step_def Let_def by auto
  have code: "chain_denial_code x \<in> {-2, -3, -4}" for x by (cases x) simp_all
  show ?thesis
  proof (cases ?v)
    case (Reject x)
    then show ?thesis using acc skip code [of x] same by (auto simp: r)
  qed (use acc skip same in \<open>auto simp: r\<close>)
qed

lemma verify_energy_chain_correct_witness:
  "utf8_valid (str ''vm'') \<and>
   fst (ecall_verify_energy_chain toy_hmac hex_lower id (Some (str ''vm'')) 5 5 1 (Some zero_hash)
     (Some (chain_mac toy_hmac hex_lower id (str ''vm'') 1 5 5 zero_hash)) (\<lambda>_. None)) = 1"
proof -
  have u: "utf8_valid (str ''vm'')"
    by (simp add: str_def utf8_valid.simps utf8_step_def utf8_head_def utf8_width_def)
  have "\<not> vs_initialized (entry_or_new (\<lambda>_. None) (str ''vm''))"
    by (simp add: entry_or_new_def vm_chain_new_def)
  then show ?thesis
    using verify_energy_chain_correct [OF u, of toy_hmac hex_lower id 5 5 1 zero_hash
        "chain_mac toy_hmac hex_lower id (str ''vm'') 1 5 5 zero_hash" "\<lambda>_. None"] u
    by (auto simp: in_sequence_def)
qed

text \<open>C19: A replayed reading is never counted twice: once a reading has been accepted, presenting the same
  reading again is answered with status 2 and leaves every chain as it is.\<close>
theorem replay_is_skipped:
  fixes hmac hexenc master vm e d c p sig st
  defines "verify \<equiv> ecall_verify_energy_chain hmac hexenc master (Some vm) e d c (Some p) (Some sig)"
  assumes "utf8_valid vm" "fst (verify st) \<in> {0, 1}"
  shows "verify (snd (verify st)) = (2, snd (verify st))"
proof -
  let ?m = "chain_mac hmac hexenc master vm c e d p" and ?s = "entry_or_new st vm"
  let ?st = "st(vm \<mapsto> \<lparr>vs_counter = c, vs_last_signature = ?m, vs_initialized = True, vs_last_energy_uj = e\<rparr>)"
  let ?v = "admit_chain_step (?m = sig) (\<not> vs_initialized ?s \<or> p = vs_last_signature ?s) (vs_initialized ?s)
    (vs_counter ?s) (vs_last_energy_uj ?s) c e d"
  note step = verify_energy_chain_step [OF assms(2), of hmac hexenc master e d c p sig]
  have code: "chain_denial_code x \<notin> {0, 1}" for x by (cases x) simp_all
  have acc: "?v = Accept"
    using assms(3) code unfolding verify_def step [of st] by (cases ?v) auto
  from acc have v: "snd (verify st) = ?st"
    unfolding verify_def step [of st] by simp
  from verdict_in_sequence [THEN iffD1, OF acc] have sig: "?m = sig" by (rule conjunct1)
  have "entry_or_new ?st vm = \<lparr>vs_counter = c, vs_last_signature = ?m, vs_initialized = True, vs_last_energy_uj = e\<rparr>"
    by (simp add: entry_or_new_def)
  then show ?thesis
    unfolding v unfolding verify_def step [of ?st] by (simp add: sig admit_chain_step_def)
qed

lemma replay_is_skipped_witness:
  "let verify = ecall_verify_energy_chain toy_hmac hex_lower id (Some (str ''vm'')) 5 5 1 (Some zero_hash)
      (Some (chain_mac toy_hmac hex_lower id (str ''vm'') 1 5 5 zero_hash)) in
   verify (snd (verify (\<lambda>_. None))) = (2, snd (verify (\<lambda>_. None)))"
proof -
  have u: "utf8_valid (str ''vm'')"
    by (simp add: str_def utf8_valid.simps utf8_step_def utf8_head_def utf8_width_def)
  have "\<not> vs_initialized (entry_or_new (\<lambda>_. None) (str ''vm''))"
    by (simp add: entry_or_new_def vm_chain_new_def)
  then have "admit_chain_step True True False 0 0 1 5 5 = Accept"
    by (simp add: admit_chain_step_def)
  then show ?thesis unfolding Let_def
    by (intro replay_is_skipped [OF u])
      (simp add: verify_energy_chain_step [OF u] entry_or_new_def vm_chain_new_def)
qed

section \<open>The host's chain against the guest's verifier\<close>

text \<open>The guest, given the readings of a cycle one after the other.\<close>

definition verify_reading ::
  "(bytes \<Rightarrow> bytes \<Rightarrow> bytes) \<Rightarrow> (bytes \<Rightarrow> bytes) \<Rightarrow> (bytes \<Rightarrow> bytes) \<Rightarrow> SignedReading \<Rightarrow> chain_states \<Rightarrow>
   int \<times> chain_states" where
  "verify_reading hmac hexenc master r =
     ecall_verify_energy_chain hmac hexenc master (Some (sr_vm_name r)) (sr_cumulative r)
       (sr_uj_to_add r) (sr_counter r) (Some (sr_previous_hash r)) (Some (sr_signature r))"

fun verify_readings ::
  "(bytes \<Rightarrow> bytes \<Rightarrow> bytes) \<Rightarrow> (bytes \<Rightarrow> bytes) \<Rightarrow> (bytes \<Rightarrow> bytes) \<Rightarrow> SignedReading list \<Rightarrow> chain_states \<Rightarrow>
   int list \<times> chain_states" where
  "verify_readings hmac hexenc master [] st = ([], st)"
| "verify_readings hmac hexenc master (r # rs) st =
     (let (c, st) = verify_reading hmac hexenc master r st;
          (cs, st) = verify_readings hmac hexenc master rs st
      in (c # cs, st))"

text \<open>The guest's view of the host's chains, and the two in step: every host chain holds its own key,
  and the guest knows exactly the same machines.\<close>

definition guest_view :: "host_chains \<Rightarrow> chain_states" where
  "guest_view cs vm = map_option (\<lambda>h. \<lparr>vs_counter = hc_counter h, vs_last_signature = hc_chain_state h,
     vs_initialized = True, vs_last_energy_uj = hc_cumulative_energy_uj h\<rparr>) (cs vm)"

definition host_inv ::
  "(bytes \<Rightarrow> bytes \<Rightarrow> bytes) \<Rightarrow> (bytes \<Rightarrow> bytes) \<Rightarrow> nat \<Rightarrow> host_chains \<Rightarrow> bool" where
  "host_inv hmac master n cs \<longleftrightarrow>
     (\<forall>vm h. cs vm = Some h \<longrightarrow>
        hc_hmac_key h = derive_vm_key hmac (master (str ''chain'')) vm \<and> unat (hc_counter h) \<le> n)"

lemma host_entry_key:
  "host_inv hmac master n cs \<Longrightarrow>
   hc_hmac_key (host_chain_entry hmac master cs vm) = derive_vm_key hmac (master (str ''chain'')) vm \<and>
   unat (hc_counter (host_chain_entry hmac master cs vm)) \<le> n"
  by (auto simp: host_inv_def host_chain_entry_def split: option.split)

lemma sign_update_Done:
  assumes "host_inv hmac master n cs" "n + 1 < 2 ^ 64"
  obtains r cs' where "sign_update hmac hexenc master u cs = Done (r, cs')" "host_inv hmac master (n + 1) cs'"
    "sr_vm_name r = vu_vm_name u" "dom cs' = insert (vu_vm_name u) (dom cs)"
proof -
  let ?h = "host_chain_entry hmac master cs (vu_vm_name u)"
  note key = host_entry_key [OF assms(1), of "vu_vm_name u"]
  have "unat (hc_counter ?h) + unat (1 :: u64) < 2 ^ 64" using key assms(2) by simp
  then have add: "checked_add (hc_counter ?h) 1 = Done (hc_counter ?h + 1)" by (simp add: checked_add_def)
  have "unat (hc_counter ?h + 1) \<le> n + 1"
    using key assms(2) by (simp add: unat_word_ariths)
  then show thesis
    using key assms(1)
    by (intro that) (auto simp: sign_update_def add Let_def host_inv_def split: if_splits, meson le_SucI)
qed

lemma sign_update_accepted:
  assumes "host_inv hmac master n cs" "n + 1 < 2 ^ 64" "utf8_valid (vu_vm_name u)"
    and "sign_update hmac hexenc master u cs = Done (r, cs')"
  shows "verify_reading hmac hexenc master r (guest_view cs) =
    (if vu_vm_name u \<in> dom cs then 0 else 1, guest_view cs')"
proof -
  let ?vm = "vu_vm_name u" and ?d = "vu_uj_to_add u"
  let ?h = "host_chain_entry hmac master cs ?vm"
  note key = host_entry_key [OF assms(1), of ?vm]
  have "unat (hc_counter ?h) + unat (1 :: u64) < 2 ^ 64" using key assms(2) by simp
  then have add: "checked_add (hc_counter ?h) 1 = Done (hc_counter ?h + 1)"
    and succ: "unat (hc_counter ?h + 1) = unat (hc_counter ?h) + 1"
    by (simp_all add: checked_add_def unat_word_ariths)
  let ?c = "hc_counter ?h + 1" and ?e = "saturating_add (hc_cumulative_energy_uj ?h) ?d"
    and ?p = "hc_chain_state ?h"
  let ?m = "chain_mac hmac hexenc master ?vm ?c ?e ?d ?p"
  have r: "r = \<lparr>sr_vm_name = ?vm, sr_uj_to_add = ?d, sr_counter = ?c, sr_cumulative = ?e,
      sr_previous_hash = ?p, sr_signature = ?m\<rparr>"
    and cs': "cs' = cs(?vm \<mapsto> \<lparr>hc_hmac_key = hc_hmac_key ?h, hc_chain_state = ?m, hc_counter = ?c,
      hc_cumulative_energy_uj = ?e\<rparr>)"
    using assms(4) key by (simp_all add: sign_update_def add Let_def chain_mac_def)
  let ?s = "entry_or_new (guest_view cs) ?vm"
  have s: "vs_initialized ?s \<longleftrightarrow> ?vm \<in> dom cs"
    "vs_initialized ?s \<Longrightarrow> vs_counter ?s = hc_counter ?h \<and> vs_last_signature ?s = ?p \<and>
       vs_last_energy_uj ?s = hc_cumulative_energy_uj ?h"
    by (auto simp: entry_or_new_def guest_view_def vm_chain_new_def host_chain_entry_def split: option.splits)
  have "in_sequence ?s ?c ?e ?d ?p"
    using s(2) succ unat_saturating_add [of "hc_cumulative_energy_uj ?h" ?d]
    by (simp add: in_sequence_def spec_sat_add_def)
  then have "admit_chain_step (?m = ?m) (\<not> vs_initialized ?s \<or> ?p = vs_last_signature ?s) (vs_initialized ?s)
      (vs_counter ?s) (vs_last_energy_uj ?s) ?c ?e ?d = Accept"
    by (intro verdict_in_sequence [THEN iffD2] conjI) simp_all
  moreover have "(guest_view cs)(?vm \<mapsto> \<lparr>vs_counter = ?c, vs_last_signature = ?m, vs_initialized = True,
      vs_last_energy_uj = ?e\<rparr>) = guest_view cs'"
    by (auto simp: cs' guest_view_def)
  ultimately show ?thesis
    using s(1) by (simp add: r verify_reading_def verify_energy_chain_step [OF assms(3)])
qed

lemma sign_updates_accepted:
  assumes "host_inv hmac master n cs" "n + length us < 2 ^ 64" "list_all (\<lambda>u. utf8_valid (vu_vm_name u)) us"
  shows "\<exists>rs cs'. sign_updates hmac hexenc master us cs = Done (rs, cs') \<and>
    verify_readings hmac hexenc master rs (guest_view cs) =
      (map (\<lambda>i. if vu_vm_name (us ! i) \<in> dom cs \<union> vu_vm_name ` set (take i us) then 0 else 1)
         [0..<length us], guest_view cs')"
  using assms
proof (induction us arbitrary: n cs)
  case (Cons u us)
  from Cons.prems have b: "n + 1 < 2 ^ 64" by simp
  obtain r cs1 where 1: "sign_update hmac hexenc master u cs = Done (r, cs1)"
    and 2: "host_inv hmac master (n + 1) cs1" "dom cs1 = insert (vu_vm_name u) (dom cs)"
    by (rule sign_update_Done [OF Cons.prems(1) b])
  have 3: "verify_reading hmac hexenc master r (guest_view cs) =
      (if vu_vm_name u \<in> dom cs then 0 else 1, guest_view cs1)"
    using Cons.prems(3) by (intro sign_update_accepted [OF Cons.prems(1) b _ 1]) simp
  obtain rs cs' where 4: "sign_updates hmac hexenc master us cs1 = Done (rs, cs')"
    and 5: "verify_readings hmac hexenc master rs (guest_view cs1) =
      (map (\<lambda>i. if vu_vm_name (us ! i) \<in> dom cs1 \<union> vu_vm_name ` set (take i us) then 0 else 1)
         [0..<length us], guest_view cs')"
    using Cons.IH [OF 2(1)] Cons.prems(2,3) by auto
  have "[0..<length (u # us)] = 0 # map Suc [0..<length us]"
    by (simp add: map_Suc_upt upt_conv_Cons del: upt_Suc)
  then show ?case
    using 1 3 4 5 2(2) by (auto simp del: upt_Suc)
qed simp

text \<open>Whatever a host enclave signs, a guest enclave with the same chain key accepts, in the order it was
  signed: from empty chains, fewer than 2^64 updates never overflow a counter, the guest answers 1 to the
  first reading of each machine and 0 to every later one, and both sides then hold the same chain state.\<close>
theorem signed_chain_is_accepted:
  assumes "length us < 2 ^ 64" "list_all (\<lambda>u. utf8_valid (vu_vm_name u)) us"
  shows "\<exists>rs cs. sign_updates hmac hexenc master us (\<lambda>_. None) = Done (rs, cs) \<and>
    verify_readings hmac hexenc master rs (\<lambda>_. None) =
      (map (\<lambda>i. if vu_vm_name (us ! i) \<in> vu_vm_name ` set (take i us) then 0 else 1) [0..<length us],
       guest_view cs)"
proof -
  have "host_inv hmac master 0 (\<lambda>_. None)" by (simp add: host_inv_def)
  moreover have "guest_view (\<lambda>_. None) = (\<lambda>_. None)" by (simp add: guest_view_def fun_eq_iff)
  ultimately show ?thesis using sign_updates_accepted [of hmac master 0 "\<lambda>_. None" us hexenc] assms by simp
qed

lemma signed_chain_is_accepted_witness:
  "let us = [\<lparr>vu_vm_name = str ''a'', vu_uj_to_add = 5\<rparr>, \<lparr>vu_vm_name = str ''a'', vu_uj_to_add = 7\<rparr>] in
   \<exists>rs cs. sign_updates toy_hmac hex_lower id us (\<lambda>_. None) = Done (rs, cs) \<and>
     fst (verify_readings toy_hmac hex_lower id rs (\<lambda>_. None)) = [1, 0]"
proof -
  have u: "utf8_valid (str ''a'')"
    by (simp add: str_def utf8_valid.simps utf8_step_def utf8_head_def utf8_width_def)
  show ?thesis unfolding Let_def
    using signed_chain_is_accepted [of "[\<lparr>vu_vm_name = str ''a'', vu_uj_to_add = 5\<rparr>,
        \<lparr>vu_vm_name = str ''a'', vu_uj_to_add = 7\<rparr>]" toy_hmac hex_lower id] u
    by (auto simp del: sign_updates.simps verify_readings.simps)
qed

end
