(* ===== verification/Ima.thy ===== *)
theory Ima
  imports HexTools
begin

text \<open>
  The kernel's measurement log and its reconciliation with the TPM's PCR 10: the replay of
  \<open>src/verified/src/lib.rs\<close>, the host's parser and reconciliation (\<open>src/sgx/src/lib.rs\<close>) and the
  guest's (\<open>src/sgx_vm/src/lib.rs\<close>). SHA-256 is the parameter \<open>sha\<close>; the guest's \<open>hex\<close> crate
  is the parameter \<open>hexdec\<close>.
\<close>

section \<open>Replaying a measurement log\<close>

definition extend_pcr :: "(bytes \<Rightarrow> bytes) \<Rightarrow> bytes \<Rightarrow> bytes \<Rightarrow> bytes" where
  "extend_pcr sha pcr digest = sha (pcr @ digest)"

definition spec_zero32 :: bytes where
  "spec_zero32 = replicate 32 0"

fun spec_replay :: "(bytes \<Rightarrow> bytes) \<Rightarrow> bytes list \<Rightarrow> nat \<Rightarrow> bytes" where
  "spec_replay sha digests 0 = spec_zero32"
| "spec_replay sha digests (Suc n) = extend_pcr sha (spec_replay sha digests n) (digests ! n)"

function replay_loop :: "(bytes \<Rightarrow> bytes) \<Rightarrow> bytes list \<Rightarrow> bytes \<Rightarrow> bytes \<Rightarrow> nat \<Rightarrow> nat option" where
  "replay_loop sha digests target pcr i =
     (if i < length digests then
        (let pcr = extend_pcr sha pcr (digests ! i); i = i + 1
         in if ct_eq_32 pcr target then Some i else replay_loop sha digests target pcr i)
      else None)"
  by pat_completeness auto
termination by (relation "measure (\<lambda>(sha, digests, target, pcr, i). length digests - i)") auto

declare replay_loop.simps [simp del]

definition replay_find_prefix :: "(bytes \<Rightarrow> bytes) \<Rightarrow> bytes list \<Rightarrow> bytes \<Rightarrow> nat option" where
  "replay_find_prefix sha digests target =
     (let pcr = replicate 32 0
      in if ct_eq_32 pcr target then Some 0 else replay_loop sha digests target pcr 0)"

section \<open>The host's parser\<close>

definition IMA_VIOLATION_EXTEND :: bytes where
  "IMA_VIOLATION_EXTEND = replicate 32 0xff"

record ImaRecord =
  ir_extend_digest :: bytes
  ir_file_hash :: bytes
  ir_file_path :: bytes
  ir_end_offset :: nat

function hex_decode_loop :: "bytes \<Rightarrow> bytes \<Rightarrow> nat \<Rightarrow> bytes option" where
  "hex_decode_loop b out i =
     (if i + 1 < length b then
        (case (hex_val (b ! i), hex_val (b ! (i + 1))) of
           (Some hi, Some lo) \<Rightarrow> hex_decode_loop b (out @ [hi * 16 + lo]) (i + 2)
         | _ \<Rightarrow> None)
      else Some out)"
  by pat_completeness auto
termination by (relation "measure (\<lambda>(b, out, i). length b - i)") auto

declare hex_decode_loop.simps [simp del]

definition hex_decode :: "bytes \<Rightarrow> bytes option" where
  "hex_decode s = (if length s mod 2 \<noteq> 0 then None else hex_decode_loop s [] 0)"

text \<open>The bytes that the template digest of an entry is the hash of.\<close>

definition template_data :: "bytes \<Rightarrow> bytes \<Rightarrow> bytes \<Rightarrow> bytes" where
  "template_data algo raw fname =
     (let d_field = algo @ [58] @ [0] @ raw; n_field = fname @ [0]
      in spec_u32_le (of_nat (length d_field)) @ d_field @ spec_u32_le (of_nat (length n_field)) @ n_field)"

definition host_template_data :: "bytes \<Rightarrow> bytes \<Rightarrow> bytes option" where
  "host_template_data dfield fname =
     (case find_sub [58] dfield of
        None \<Rightarrow> None
      | Some colon \<Rightarrow>
          (let algo = take colon dfield; rest = drop colon dfield
           in case hex_decode (drop 1 rest) of
                None \<Rightarrow> None
              | Some raw \<Rightarrow> Some (template_data algo raw fname)))"

definition ima_ng_template_digest_sha256 :: "(bytes \<Rightarrow> bytes) \<Rightarrow> bytes \<Rightarrow> bytes \<Rightarrow> bytes option" where
  "ima_ng_template_digest_sha256 sha dfield fname = map_option sha (host_template_data dfield fname)"

text \<open>The positions of the first \<open>n\<close> spaces from \<open>at\<close> on, and the position after them.\<close>

fun bounds_loop :: "nat \<Rightarrow> bytes \<Rightarrow> nat \<Rightarrow> (nat list \<times> nat) option" where
  "bounds_loop 0 lb at = Some ([], at)"
| "bounds_loop (Suc n) lb at =
     (case find_byte lb 32 at of
        Some i \<Rightarrow> map_option (\<lambda>(bounds, at). (i # bounds, at)) (bounds_loop n lb (i + 1))
      | None \<Rightarrow> None)"

definition ima_fields :: "bytes \<Rightarrow> (bytes \<times> bytes \<times> bytes \<times> bytes \<times> bytes) option" where
  "ima_fields line =
     (case bounds_loop 4 line 0 of
        None \<Rightarrow> None
      | Some (bounds, at) \<Rightarrow>
          if at > length line then None
          else Some (slice line 0 (bounds ! 0), slice line (bounds ! 0 + 1) (bounds ! 1),
                 slice line (bounds ! 1 + 1) (bounds ! 2), slice line (bounds ! 2 + 1) (bounds ! 3),
                 drop (bounds ! 3 + 1) line))"

text \<open>One line: skipped, refused with a code, or a record's digest, file hash and path.\<close>

definition ima_line :: "(bytes \<Rightarrow> bytes) \<Rightarrow> bytes \<Rightarrow> (int, (bytes \<times> bytes \<times> bytes) option) result" where
  "ima_line sha line =
     (if line = [] then Ok None
      else case ima_fields line of
        None \<Rightarrow> Err (-2)
      | Some (pcr, log_digest, template, dfield, fname) \<Rightarrow>
          if pcr \<noteq> str ''10'' then Ok None
          else if template \<noteq> str ''ima-ng'' then Err (-3)
          else
            (let is_violation = log_digest \<noteq> [] \<and> is_zero_hash log_digest
             in case (if is_violation then Some IMA_VIOLATION_EXTEND
                      else ima_ng_template_digest_sha256 sha dfield fname) of
                  None \<Rightarrow> Err (-4)
                | Some extend_digest \<Rightarrow>
                    (let file_hash = (if is_violation then []
                           else case split_once 58 dfield of Some (_, h) \<Rightarrow> h | None \<Rightarrow> dfield)
                     in Ok (Some (extend_digest, file_hash, fname)))))"

fun parse_segments ::
  "(bytes \<Rightarrow> bytes) \<Rightarrow> bytes list \<Rightarrow> nat \<Rightarrow> ImaRecord list \<Rightarrow> (int, ImaRecord list) result" where
  "parse_segments sha [] cursor out = Ok out"
| "parse_segments sha (segment # segments) cursor out =
     (let cursor = cursor + length segment
      in case ima_line sha (trim_end segment) of
           Err e \<Rightarrow> Err e
         | Ok None \<Rightarrow> parse_segments sha segments cursor out
         | Ok (Some (d, h, p)) \<Rightarrow>
             parse_segments sha segments cursor
               (out @ [\<lparr>ir_extend_digest = d, ir_file_hash = h, ir_file_path = p, ir_end_offset = cursor\<rparr>]))"

definition parse_ima_log :: "(bytes \<Rightarrow> bytes) \<Rightarrow> bytes \<Rightarrow> (int, ImaRecord list) result" where
  "parse_ima_log sha ima_log = parse_segments sha (split_inclusive 10 ima_log) 0 []"

section \<open>The host's reconciliation with PCR 10\<close>

record AttestedImaPrefix =
  ap_attested :: "ImaRecord list"
  ap_entries_total :: nat
  ap_attested_bytes :: nat

definition reconcile_ima_against_pcr10 ::
  "(bytes \<Rightarrow> bytes) \<Rightarrow> ImaRecord list \<Rightarrow> bytes \<Rightarrow> (int, AttestedImaPrefix) result" where
  "reconcile_ima_against_pcr10 sha records pcr10_hex =
     (case hex_decode (trim pcr10_hex) of
        None \<Rightarrow> Err (-5)
      | Some target \<Rightarrow>
          if length target \<noteq> 32 then Err (-5)
          else if records = [] then Err (-1)
          else
            (let digests = map ir_extend_digest records
             in case replay_find_prefix sha digests target of
                  Some n \<Rightarrow>
                    if n > 0 then
                      Ok \<lparr>ap_attested = take n records, ap_entries_total = length records,
                          ap_attested_bytes = ir_end_offset (records ! (n - 1))\<rparr>
                    else Err (-1)
                | None \<Rightarrow> Err (-9)))"

record ImaAttestation =
  ia_entries_attested :: nat
  ia_entries_total :: nat
  ia_attested_bytes :: nat

definition host_verify_ima_log ::
  "(bytes \<Rightarrow> bytes) \<Rightarrow> bytes \<Rightarrow> bytes \<Rightarrow> (int, ImaAttestation) result" where
  "host_verify_ima_log sha ima_log pcr10_hex =
     (case parse_ima_log sha ima_log of
        Err e \<Rightarrow> Err e
      | Ok records \<Rightarrow>
          (case reconcile_ima_against_pcr10 sha records pcr10_hex of
             Err e \<Rightarrow> Err e
           | Ok prefix \<Rightarrow>
               Ok \<lparr>ia_entries_attested = length (ap_attested prefix),
                   ia_entries_total = ap_entries_total prefix,
                   ia_attested_bytes = ap_attested_bytes prefix\<rparr>))"

section \<open>The guest\<close>

definition guest_template_digest ::
  "(bytes \<Rightarrow> bytes) \<Rightarrow> (bytes \<Rightarrow> bytes option) \<Rightarrow> bytes \<Rightarrow> bytes \<Rightarrow> bytes option" where
  "guest_template_digest sha hexdec dfield fname =
     (case split_once 58 dfield of
        None \<Rightarrow> None
      | Some (algo, hexdigest) \<Rightarrow>
          (case hexdec hexdigest of
             None \<Rightarrow> None
           | Some raw \<Rightarrow> Some (sha (template_data algo raw fname))))"

definition guest_ima_line ::
  "(bytes \<Rightarrow> bytes) \<Rightarrow> (bytes \<Rightarrow> bytes option) \<Rightarrow> bytes \<Rightarrow> (int, bytes option) result" where
  "guest_ima_line sha hexdec line =
     (if line = [] then Ok None
      else case splitn 5 32 line of
        [pcr, log_digest, template, dfield, fname] \<Rightarrow>
          if pcr \<noteq> str ''10'' then Ok None
          else if template \<noteq> str ''ima-ng'' then Err (-3)
          else
            (case (if log_digest \<noteq> [] \<and> list_all (\<lambda>b. b = 48) log_digest then Some IMA_VIOLATION_EXTEND
                   else guest_template_digest sha hexdec dfield fname) of
               None \<Rightarrow> Err (-4)
             | Some digest \<Rightarrow> Ok (Some digest))
      | _ \<Rightarrow> Err (-2))"

fun guest_segments ::
  "(bytes \<Rightarrow> bytes) \<Rightarrow> (bytes \<Rightarrow> bytes option) \<Rightarrow> bytes list \<Rightarrow> nat \<Rightarrow> bytes list \<Rightarrow> nat list \<Rightarrow>
   (int, bytes list \<times> nat list) result" where
  "guest_segments sha hexdec [] cursor digests offsets = Ok (digests, offsets)"
| "guest_segments sha hexdec (segment # segments) cursor digests offsets =
     (let cursor = cursor + length segment
      in case guest_ima_line sha hexdec (trim_end segment) of
           Err e \<Rightarrow> Err e
         | Ok None \<Rightarrow> guest_segments sha hexdec segments cursor digests offsets
         | Ok (Some d) \<Rightarrow>
             guest_segments sha hexdec segments cursor (digests @ [d]) (offsets @ [cursor]))"

definition guest_verify_ima_log ::
  "(bytes \<Rightarrow> bytes) \<Rightarrow> (bytes \<Rightarrow> bytes option) \<Rightarrow> bytes \<Rightarrow> bytes \<Rightarrow> (int, ImaAttestation) result" where
  "guest_verify_ima_log sha hexdec ima_log pcr10_hex =
     (case hexdec (trim pcr10_hex) of
        None \<Rightarrow> Err (-5)
      | Some target \<Rightarrow>
          if length target \<noteq> 32 then Err (-5)
          else
            (case guest_segments sha hexdec (split_inclusive 10 ima_log) 0 [] [] of
               Err e \<Rightarrow> Err e
             | Ok (digests, offsets) \<Rightarrow>
                 if digests = [] then Err (-1)
                 else case replay_find_prefix sha digests target of
                        Some attested \<Rightarrow>
                          if attested > 0 then
                            Ok \<lparr>ia_entries_attested = attested, ia_entries_total = length digests,
                                ia_attested_bytes = offsets ! (attested - 1)\<rparr>
                          else Err (-1)
                      | None \<Rightarrow> Err (-9)))"

section \<open>The replay finds the first matching prefix\<close>

lemma length_spec_zero32 [simp]: "length spec_zero32 = 32"
  by (simp add: spec_zero32_def)

lemma length_spec_replay: "\<forall>x. length (sha x) = 32 \<Longrightarrow> length (spec_replay sha ds n) = 32"
  by (cases n) (simp_all add: extend_pcr_def)

lemma replay_loop_least:
  assumes sha: "\<forall>x. length (sha x) = 32" and t: "length target = 32"
    and "i \<le> length ds" "\<forall>k \<le> i. spec_replay sha ds k \<noteq> target"
  shows "replay_loop sha ds target (spec_replay sha ds i) i =
    (if \<exists>n \<le> length ds. spec_replay sha ds n = target
     then Some (LEAST n. spec_replay sha ds n = target) else None)"
  using assms(3,4)
proof (induction "length ds - i" arbitrary: i)
  case 0
  then show ?case by (subst replay_loop.simps) auto
next
  case (Suc k)
  let ?p = "spec_replay sha ds (Suc i)"
  from Suc.hyps(2) have i: "i < length ds" by simp
  have eq: "ct_eq_32 ?p target \<longleftrightarrow> ?p = target"
    using length_spec_replay [OF sha] t by (intro ct_eq_32_spec)
  show ?case
  proof (cases "?p = target")
    case True
    then have "(LEAST n. spec_replay sha ds n = target) = Suc i"
      using Suc.prems(2) by (intro Least_equality) (auto simp: not_less_eq_eq [symmetric])
    moreover have "\<exists>n \<le> length ds. spec_replay sha ds n = target"
      using True i by (intro exI [of _ "Suc i"]) simp
    ultimately show ?thesis
      using i eq True by (subst replay_loop.simps) simp
  next
    case False
    have "replay_loop sha ds target ?p (Suc i) =
        (if \<exists>n \<le> length ds. spec_replay sha ds n = target
         then Some (LEAST n. spec_replay sha ds n = target) else None)"
      using Suc.hyps(2) Suc.prems(2) False i
      by (intro Suc.hyps(1)) (auto simp: le_Suc_eq simp del: spec_replay.simps)
    then show ?thesis
      using i eq False by (subst replay_loop.simps) simp
  qed
qed

lemma replay_find_prefix_least:
  assumes "\<forall>x. length (sha x) = 32" "length target = 32"
  shows "replay_find_prefix sha ds target =
    (if \<exists>n \<le> length ds. spec_replay sha ds n = target
     then Some (LEAST n. spec_replay sha ds n = target) else None)"
proof -
  have eq: "ct_eq_32 (replicate 32 0) target \<longleftrightarrow> replicate 32 0 = target"
    using assms(2) by (intro ct_eq_32_spec) simp_all
  have 0: "spec_replay sha ds 0 = replicate 32 0" by (simp add: spec_zero32_def)
  show ?thesis
  proof (cases "replicate 32 0 = target")
    case True
    then have "(LEAST n. spec_replay sha ds n = target) = 0"
      using 0 by (intro Least_equality) auto
    then show ?thesis
      using True eq 0 by (auto simp: replay_find_prefix_def simp del: spec_replay.simps intro!: exI [of _ 0])
  next
    case False
    then show ?thesis
      using replay_loop_least [OF assms, of 0 ds] eq 0 by (simp add: replay_find_prefix_def)
  qed
qed

lemma replay_find_prefix_Some:
  assumes "\<forall>x. length (sha x) = 32" "length target = 32" "replay_find_prefix sha ds target = Some n"
  shows "n \<le> length ds \<and> spec_replay sha ds n = target \<and> (\<forall>k < n. spec_replay sha ds k \<noteq> target)"
proof -
  from assms obtain m where m: "m \<le> length ds" "spec_replay sha ds m = target"
    and n: "n = (LEAST n. spec_replay sha ds n = target)"
    by (auto simp: replay_find_prefix_least split: if_splits)
  have "n \<le> m" unfolding n by (rule Least_le) (rule m(2))
  moreover have "spec_replay sha ds n = target" unfolding n by (rule LeastI) (rule m(2))
  ultimately show ?thesis using m(1) not_less_Least [of _ "\<lambda>n. spec_replay sha ds n = target"] n by auto
qed

section \<open>Both parsers read the same fields\<close>

lemma hex_decode_loop_pairs:
  "even (length b - i) \<Longrightarrow> hex_decode_loop b out i = map_option ((@) out) (hex_pairs (drop i b))"
proof (induction b out i rule: hex_decode_loop.induct)
  case (1 b out i)
  show ?case
  proof (cases "i + 1 < length b")
    case True
    then have d: "drop i b = b ! i # b ! (i + 1) # drop (i + 2) b" by (simp add: drop_nth_Cons)
    have "even (length b - (i + 2))" using "1.prems" True by presburger
    then have IH: "hex_val (b ! i) = Some h \<Longrightarrow> hex_val (b ! (i + 1)) = Some l \<Longrightarrow>
        hex_decode_loop b (out @ [h * 16 + l]) (i + 2) =
        map_option ((@) (out @ [h * 16 + l])) (hex_pairs (drop (i + 2) b))" for h l
      using "1.IH" True by (cases "hex_pairs (drop (i + 2) b)") simp_all
    show ?thesis
    proof (cases "hex_val (b ! i)")
      case None
      then show ?thesis using True by (subst hex_decode_loop.simps) (simp add: d refines)
    next
      case (Some h)
      then show ?thesis
        using True IH
        by (subst hex_decode_loop.simps)
          (auto simp: d refines option.map_comp comp_def split: option.splits)
    qed
  next
    case False
    then have "length b - i \<le> 1" by simp
    with "1.prems" have "drop i b = []" by (cases "length b - i") auto
    then show ?thesis using False by (subst hex_decode_loop.simps) simp
  qed
qed

lemma hex_decode_pairs [refines]: "hex_decode s = hex_pairs s"
proof (cases "even (length s)")
  case True
  then show ?thesis
    using hex_decode_loop_pairs [of s 0 "[]"] by (cases "hex_pairs s") (simp_all add: hex_decode_def)
next
  case False
  then have "hex_pairs s = None" using hex_pairs_Some by blast
  then show ?thesis using False by (simp add: hex_decode_def odd_iff_mod_2_eq_one)
qed

lemma find_byte_split:
  "split_once b (drop i s) = map_option (\<lambda>k. (slice s i k, drop (k + 1) s)) (find_byte s b i)"
proof (induction s b i rule: find_byte.induct)
  case (1 s b i)
  show ?case
  proof (cases "i < length s")
    case True
    then have d: "drop i s = s ! i # drop (Suc i) s" by (rule drop_nth_Cons)
    show ?thesis
    proof (cases "s ! i = b")
      case True
      then show ?thesis using \<open>i < length s\<close> by (subst find_byte.simps) (simp add: d slice_def)
    next
      case False
      note IH = "1.IH" [OF True False]
      have sl: "slice s i k = s ! i # slice s (i + 1) k" if "find_byte s b (i + 1) = Some k" for k
      proof -
        have "i + 1 \<le> k" using find_byte_least [of s "i + 1" b] that by simp
        then show ?thesis using True by (simp add: slice_def d Suc_diff_le take_Cons')
      qed
      show ?thesis
        using True False IH sl
        by (subst find_byte.simps, cases "find_byte s b (i + 1)") (simp_all add: d)
    qed
  next
    case False
    then show ?thesis by (subst find_byte.simps) simp
  qed
qed

lemma ima_fields_splitn:
  "ima_fields line =
     (case splitn 5 32 line of [a, b, c, d, e] \<Rightarrow> Some (a, b, c, d, e) | _ \<Rightarrow> None)"
proof -
  have five: "splitn 5 x s = splitn (Suc (Suc (Suc (Suc (Suc 0))))) x s" for x :: u8 and s
    by (simp only: numeral_eq_Suc pred_numeral_simps arith_simps)
  have four: "bounds_loop 4 s i = bounds_loop (Suc (Suc (Suc (Suc 0)))) s i" for s i
    by (simp only: numeral_eq_Suc pred_numeral_simps arith_simps)
  have b: "k < length line" if "find_byte line 32 i = Some k" for i k
    using find_byte_least [of line i 32] that by simp
  show ?thesis
    unfolding ima_fields_def five four
    by (auto simp: find_byte_split find_byte_split [of 32 0 line, simplified] dest!: b split: option.splits)
qed

lemma find_sub_split:
  "split_once c s = map_option (\<lambda>k. (take k s, drop (Suc k) s)) (find_sub [c] s)"
  by (induction s) (auto simp: starts_with_def option.map_comp comp_def)

lemma host_template_data_split:
  "host_template_data dfield fname =
     (case split_once 58 dfield of None \<Rightarrow> None
      | Some (algo, h) \<Rightarrow> map_option (\<lambda>raw. template_data algo raw fname) (hex_pairs h))"
  by (auto simp: host_template_data_def find_sub_split refines split: option.splits)

text \<open>What the guest keeps of a line is the digest of what the host keeps.\<close>

definition line_digest ::
  "(int, (bytes \<times> bytes \<times> bytes) option) result \<Rightarrow> (int, bytes option) result" where
  "line_digest r = (case r of Err e \<Rightarrow> Err e | Ok x \<Rightarrow> Ok (map_option fst x))"

lemma guest_template_digest_host:
  "guest_template_digest sha hex_pairs dfield fname = ima_ng_template_digest_sha256 sha dfield fname"
  by (auto simp: guest_template_digest_def ima_ng_template_digest_sha256_def host_template_data_split
      option.map_comp comp_def split: option.splits)

lemma guest_ima_line_host: "guest_ima_line sha hex_pairs line = line_digest (ima_line sha line)"
proof (cases "ima_fields line")
  case None
  then show ?thesis
    by (auto simp: guest_ima_line_def ima_line_def line_digest_def ima_fields_splitn split: list.splits)
next
  case (Some f)
  then obtain a b c d e where f: "splitn 5 32 line = [a, b, c, d, e]" "f = (a, b, c, d, e)"
    by (auto simp: ima_fields_splitn split: list.splits)
  have v: "is_zero_hash b \<longleftrightarrow> b \<noteq> [] \<and> list_all (\<lambda>x. x = 48) b" by (simp add: refines spec_is_zero_hash_def)
  show ?thesis
    unfolding guest_ima_line_def ima_line_def Some f(2) f(1) guest_template_digest_host line_digest_def
    by (auto simp: Let_def v split: option.splits)
qed

lemma guest_segments_host:
  "guest_segments sha hex_pairs segs cursor (map ir_extend_digest out) (map ir_end_offset out) =
     (case parse_segments sha segs cursor out of
        Err e \<Rightarrow> Err e
      | Ok records \<Rightarrow> Ok (map ir_extend_digest records, map ir_end_offset records))"
proof (induction segs arbitrary: cursor out)
  case (Cons seg segs)
  show ?case
  proof (cases "ima_line sha (trim_end seg)")
    case (Ok x)
    show ?thesis
    proof (cases x)
      case None
      then show ?thesis using Cons.IH by (simp add: guest_ima_line_host line_digest_def Ok)
    next
      case (Some y)
      obtain d h q where "y = (d, h, q)" by (cases y)
      then show ?thesis
        using Cons.IH [of "cursor + length seg" "out @ [\<lparr>ir_extend_digest = d, ir_file_hash = h,
          ir_file_path = q, ir_end_offset = cursor + length seg\<rparr>]"] Some
        by (simp add: guest_ima_line_host line_digest_def Ok Let_def)
    qed
  qed (simp add: guest_ima_line_host line_digest_def)
qed simp

lemma replay_loop_le:
  "replay_loop sha ds target pcr i = Some k \<Longrightarrow> i \<le> length ds \<Longrightarrow> k \<le> length ds"
proof (induction sha ds target pcr i rule: replay_loop.induct)
  case (1 sha ds target pcr i)
  then show ?case
    by (auto simp: replay_loop.simps [of sha ds target pcr i] Let_def split: if_splits)
qed

lemma guest_verify_host:
  "guest_verify_ima_log sha hex_pairs ima_log pcr10_hex =
     (if \<exists>t. hex_pairs (trim pcr10_hex) = Some t \<and> length t = 32
      then host_verify_ima_log sha ima_log pcr10_hex else Err (-5))"
proof (cases "\<exists>t. hex_pairs (trim pcr10_hex) = Some t \<and> length t = 32")
  case True
  then obtain t where t: "hex_pairs (trim pcr10_hex) = Some t" "length t = 32" by blast
  show ?thesis
  proof (cases "parse_segments sha (split_inclusive 10 ima_log) 0 []")
    case (Err e)
    then show ?thesis
      using t guest_segments_host [of sha "split_inclusive 10 ima_log" 0 "[]"]
      by (simp add: guest_verify_ima_log_def host_verify_ima_log_def parse_ima_log_def)
  next
    case (Ok records)
    have n: "n \<le> length records" if "replay_find_prefix sha (map ir_extend_digest records) t = Some n" for n
      using that replay_loop_le [of sha "map ir_extend_digest records"]
      by (auto simp: replay_find_prefix_def Let_def split: if_splits)
    show ?thesis
      using t Ok n guest_segments_host [of sha "split_inclusive 10 ima_log" 0 "[]"]
      by (auto simp: guest_verify_ima_log_def host_verify_ima_log_def parse_ima_log_def
          reconcile_ima_against_pcr10_def refines Let_def split: option.splits)
  qed
next
  case False
  then show ?thesis by (auto simp: guest_verify_ima_log_def split: option.splits)
qed

text \<open>Host and guest reconcile a measurement log with PCR 10 in the same way, although one finds fields by
  index and the other with string iterators: given a decodable 32-byte register they return the same
  attestation or the same error code, and otherwise both refuse (the guest always with code -5).\<close>
theorem ima_verifiers_agree:
  assumes "\<And>s. hexdec s = hex_pairs s"
  shows "(\<exists>t. hex_decode (trim pcr10_hex) = Some t \<and> length t = 32) \<and>
      guest_verify_ima_log sha hexdec ima_log pcr10_hex = host_verify_ima_log sha ima_log pcr10_hex \<or>
    guest_verify_ima_log sha hexdec ima_log pcr10_hex = Err (-5) \<and>
      is_ok (host_verify_ima_log sha ima_log pcr10_hex) = False"
proof -
  have h: "hexdec = hex_pairs" using assms by (simp add: fun_eq_iff)
  show ?thesis
  proof (cases "\<exists>t. hex_pairs (trim pcr10_hex) = Some t \<and> length t = 32")
    case True
    then show ?thesis by (simp add: h guest_verify_host refines)
  next
    case False
    then have "is_ok (host_verify_ima_log sha ima_log pcr10_hex) = False"
      by (auto simp: host_verify_ima_log_def reconcile_ima_against_pcr10_def refines
          split: result.splits option.splits)
    then show ?thesis unfolding h guest_verify_host if_not_P [OF False] by simp
  qed
qed

lemma ima_verifiers_agree_witness:
  "guest_verify_ima_log id hex_pairs (str ''10 00 ima-ng x y'') [] = Err (-5) \<and>
   is_ok (host_verify_ima_log id (str ''10 00 ima-ng x y'') []) = False"
proof -
  have "hex_decode (trim []) = Some []"
    by (simp add: trim_def trim_start_def trim_end_def strip_ws.simps refines)
  then show ?thesis
    using ima_verifiers_agree [of hex_pairs "[]" id "str ''10 00 ima-ng x y''"] by simp
qed

section \<open>The attested part of the log stands for itself\<close>

lemma concat_split_inclusive [simp]: "concat (split_inclusive c xs) = xs"
  by (induction xs) (auto split: list.splits)

lemma split_inclusive_take:
  "split_inclusive c (concat (take m (split_inclusive c xs))) = take m (split_inclusive c xs)"
proof (induction xs arbitrary: m)
  case (Cons x xs)
  show ?case
  proof (cases m)
    case (Suc k)
    show ?thesis
    proof (cases "x = c")
      case True
      then show ?thesis using Cons.IH [of k] Suc by simp
    next
      case False
      show ?thesis
      proof (cases "split_inclusive c xs")
        case Nil
        then show ?thesis using False Suc by simp
      next
        case (Cons p ps)
        then have "split_inclusive c (p @ concat (take k ps)) = p # take k ps"
          using Cons.IH [of "Suc k"] by simp
        then show ?thesis using False Suc Cons by simp
      qed
    qed
  qed simp
qed simp

lemma parse_segments_append:
  "parse_segments sha (xs @ ys) c out =
     (case parse_segments sha xs c out of
        Err e \<Rightarrow> Err e | Ok o' \<Rightarrow> parse_segments sha ys (c + length (concat xs)) o')"
  by (induction xs arbitrary: c out) (simp_all add: Let_def add.assoc split: result.split option.split)

text \<open>After every record the parser stood at the end of a segment, with exactly the records so far.\<close>

lemma parse_segments_points:
  assumes "parse_segments sha segs c out = Ok records"
  shows "\<exists>added. records = out @ added \<and> (\<forall>i < length added. \<exists>m \<le> length segs.
    ir_end_offset (added ! i) = c + length (concat (take m segs)) \<and>
    parse_segments sha (take m segs) c out = Ok (out @ take (Suc i) added))"
  using assms
proof (induction segs arbitrary: c out)
  case (Cons seg segs)
  let ?c = "c + length seg"
  obtain x where x: "ima_line sha (trim_end seg) = Ok x"
    using Cons.prems by (auto simp: Let_def split: result.splits)
  show ?case
  proof (cases x)
    case None
    then have "parse_segments sha segs ?c out = Ok records" using Cons.prems x by (simp add: Let_def)
    from Cons.IH [OF this] obtain added where a: "records = out @ added"
      "\<forall>i < length added. \<exists>m \<le> length segs. ir_end_offset (added ! i) = ?c + length (concat (take m segs)) \<and>
         parse_segments sha (take m segs) ?c out = Ok (out @ take (Suc i) added)" by blast
    have "\<exists>m \<le> length (seg # segs). ir_end_offset (added ! i) = c + length (concat (take m (seg # segs))) \<and>
        parse_segments sha (take m (seg # segs)) c out = Ok (out @ take (Suc i) added)" if "i < length added" for i
    proof -
      from a(2) that obtain m where "m \<le> length segs" "ir_end_offset (added ! i) = ?c + length (concat (take m segs))"
        "parse_segments sha (take m segs) ?c out = Ok (out @ take (Suc i) added)" by blast
      then show ?thesis using x None by (intro exI [of _ "Suc m"]) (simp add: Let_def)
    qed
    then show ?thesis using a(1) by blast
  next
    case (Some y)
    obtain d h q where y: "y = (d, h, q)" by (cases y)
    let ?r = "\<lparr>ir_extend_digest = d, ir_file_hash = h, ir_file_path = q, ir_end_offset = ?c\<rparr>"
    have "parse_segments sha segs ?c (out @ [?r]) = Ok records" using Cons.prems x Some y by (simp add: Let_def)
    from Cons.IH [OF this] obtain added where a: "records = (out @ [?r]) @ added"
      "\<forall>i < length added. \<exists>m \<le> length segs. ir_end_offset (added ! i) = ?c + length (concat (take m segs)) \<and>
         parse_segments sha (take m segs) ?c (out @ [?r]) = Ok ((out @ [?r]) @ take (Suc i) added)" by blast
    have "\<exists>m \<le> length (seg # segs).
        ir_end_offset ((?r # added) ! i) = c + length (concat (take m (seg # segs))) \<and>
        parse_segments sha (take m (seg # segs)) c out = Ok (out @ take (Suc i) (?r # added))"
      if "i < length (?r # added)" for i
    proof (cases i)
      case 0
      then show ?thesis using x Some y by (intro exI [of _ 1]) (simp add: Let_def)
    next
      case (Suc j)
      with a(2) that obtain m where "m \<le> length segs"
        "ir_end_offset (added ! j) = ?c + length (concat (take m segs))"
        "parse_segments sha (take m segs) ?c (out @ [?r]) = Ok ((out @ [?r]) @ take (Suc j) added)" by auto
      then show ?thesis using Suc x Some y by (intro exI [of _ "Suc m"]) (simp add: Let_def)
    qed
    then show ?thesis using a(1) by (intro exI [of _ "?r # added"]) simp
  qed
qed simp

lemma reconcile_Ok:
  assumes "\<forall>x. length (sha x) = 32" "reconcile_ima_against_pcr10 sha records pcr10_hex = Ok prefix"
  obtains n target where "hex_decode (trim pcr10_hex) = Some target" "length target = 32"
    "0 < n" "n \<le> length records" "spec_replay sha (map ir_extend_digest records) n = target"
    "\<forall>k < n. spec_replay sha (map ir_extend_digest records) k \<noteq> target"
    "prefix = \<lparr>ap_attested = take n records, ap_entries_total = length records,
       ap_attested_bytes = ir_end_offset (records ! (n - 1))\<rparr>"
proof -
  from assms(2) obtain target n where *: "hex_decode (trim pcr10_hex) = Some target" "length target = 32"
    "replay_find_prefix sha (map ir_extend_digest records) target = Some n" "0 < n"
    "prefix = \<lparr>ap_attested = take n records, ap_entries_total = length records,
       ap_attested_bytes = ir_end_offset (records ! (n - 1))\<rparr>"
    by (auto simp: reconcile_ima_against_pcr10_def Let_def split: option.splits if_splits)
  from replay_find_prefix_Some [OF assms(1) *(2,3)] * show thesis
    by (intro that [of target n]) auto
qed

lemma parse_attested_bytes:
  assumes "parse_ima_log sha ima_log = Ok records" "0 < n" "n \<le> length records"
  shows "parse_ima_log sha (take (ir_end_offset (records ! (n - 1))) ima_log) = Ok (take n records)"
proof -
  let ?segs = "split_inclusive 10 ima_log"
  have "parse_segments sha ?segs 0 [] = Ok records" using assms(1) by (simp add: parse_ima_log_def)
  from parse_segments_points [OF this] have "\<forall>i < length records. \<exists>m \<le> length ?segs.
      ir_end_offset (records ! i) = length (concat (take m ?segs)) \<and>
      parse_segments sha (take m ?segs) 0 [] = Ok (take (Suc i) records)" by simp
  moreover have "n - 1 < length records" "Suc (n - 1) = n" using assms(2,3) by auto
  ultimately obtain m where m: "ir_end_offset (records ! (n - 1)) = length (concat (take m ?segs))"
    "parse_segments sha (take m ?segs) 0 [] = Ok (take n records)" by metis
  have "take (length (concat (take m ?segs))) (concat (take m ?segs) @ concat (drop m ?segs)) =
      concat (take m ?segs)" by simp
  moreover have "concat (take m ?segs) @ concat (drop m ?segs) = ima_log"
    by (metis append_take_drop_id concat_append concat_split_inclusive)
  ultimately have "take (ir_end_offset (records ! (n - 1))) ima_log = concat (take m ?segs)" using m(1) by simp
  then show ?thesis using m(2) by (simp add: parse_ima_log_def split_inclusive_take)
qed

text \<open>C23: What the host attests of a measurement log is exactly what PCR 10 covers: the attested entries are
  the shortest non-empty prefix of the log's PCR-10 entries whose replay gives the register, and the
  attested bytes, taken on their own, parse to exactly those entries, so nothing after them has any effect.\<close>
theorem attested_prefix_exact:
  assumes "\<forall>x. length (sha x) = 32"
    and "parse_ima_log sha ima_log = Ok records"
    and "reconcile_ima_against_pcr10 sha records pcr10_hex = Ok prefix"
  shows "\<exists>n target. 0 < n \<and> n \<le> length records \<and> ap_attested prefix = take n records \<and>
    hex_decode (trim pcr10_hex) = Some target \<and>
    spec_replay sha (map ir_extend_digest records) n = target \<and>
    (LEAST k. spec_replay sha (map ir_extend_digest records) k = target) = n \<and>
    parse_ima_log sha (take (ap_attested_bytes prefix) ima_log) = Ok (ap_attested prefix)"
proof -
  obtain n target where *: "hex_decode (trim pcr10_hex) = Some target" "0 < n" "n \<le> length records"
    "spec_replay sha (map ir_extend_digest records) n = target"
    "\<forall>k < n. spec_replay sha (map ir_extend_digest records) k \<noteq> target"
    "prefix = \<lparr>ap_attested = take n records, ap_entries_total = length records,
       ap_attested_bytes = ir_end_offset (records ! (n - 1))\<rparr>"
    by (rule reconcile_Ok [OF assms(1,3)])
  have "(LEAST k. spec_replay sha (map ir_extend_digest records) k = target) = n"
    using *(4,5) by (intro Least_equality) (auto simp: not_less [symmetric])
  then show ?thesis
    using * parse_attested_bytes [OF assms(2) *(2,3)] by (intro exI [of _ n] exI [of _ target]) simp
qed

text \<open>A small log and a stand-in for the hash, for the examples.\<close>

definition demo_sha :: "bytes \<Rightarrow> bytes" where
  "demo_sha x = take 32 (rev x @ replicate 32 0)"

definition demo_log :: bytes where
  "demo_log = str ''10 5 ima-ng s:AB p'' @ [10] @ str ''11 5 other s:00 q''"

definition demo_digest :: bytes where
  "demo_digest = take 32 ([0, 112, 0, 0, 0, 2, 0xAB, 0, 58, 115, 0, 0, 0, 4] @ replicate 32 0)"

definition demo_records :: "bytes \<Rightarrow> ImaRecord list" where
  "demo_records h = [\<lparr>ir_extend_digest = demo_digest, ir_file_hash = h, ir_file_path = str ''p'',
     ir_end_offset = 19\<rparr>]"

lemma length_demo_sha: "\<forall>x. length (demo_sha x) = 32"
  by (simp add: demo_sha_def min_def)

lemma demo_parse: "parse_ima_log demo_sha demo_log = Ok (demo_records (str ''AB''))"
  by code_simp

lemma demo_reconcile:
  "reconcile_ima_against_pcr10 demo_sha (demo_records h) (hex_lower (demo_sha (replicate 32 0 @ demo_digest))) =
     Ok \<lparr>ap_attested = demo_records h, ap_entries_total = 1, ap_attested_bytes = 19\<rparr>"
  by code_simp

lemma attested_prefix_exact_witness:
  "parse_ima_log demo_sha (take 19 demo_log) = Ok (demo_records (str ''AB''))"
  using attested_prefix_exact [OF length_demo_sha demo_parse demo_reconcile] by auto

section \<open>The register binds the log\<close>

fun replay_inputs :: "(bytes \<Rightarrow> bytes) \<Rightarrow> bytes \<Rightarrow> bytes list \<Rightarrow> bytes set" where
  "replay_inputs sha pcr [] = {}"
| "replay_inputs sha pcr (d # ds) = insert (pcr @ d) (replay_inputs sha (sha (pcr @ d)) ds)"

lemma replay_inputs_snoc:
  "replay_inputs sha pcr (ds @ [d]) =
     insert (foldl (extend_pcr sha) pcr ds @ d) (replay_inputs sha pcr ds)"
  by (induction ds arbitrary: pcr) (auto simp: extend_pcr_def)

lemma spec_replay_fold: "n \<le> length ds \<Longrightarrow> spec_replay sha ds n = foldl (extend_pcr sha) spec_zero32 (take n ds)"
  by (induction n) (simp_all add: take_Suc_conv_app_nth)

lemma replay_binds:
  assumes len: "\<forall>x. length (sha x) = 32"
    and inj: "inj_on sha (replay_inputs sha spec_zero32 ds \<union> replay_inputs sha spec_zero32 es)"
    and nz: "spec_zero32 \<notin> sha ` (replay_inputs sha spec_zero32 ds \<union> replay_inputs sha spec_zero32 es)"
    and eq: "foldl (extend_pcr sha) spec_zero32 ds = foldl (extend_pcr sha) spec_zero32 es"
  shows "ds = es"
  using inj nz eq
proof (induction ds arbitrary: es rule: rev_induct)
  case Nil
  show ?case
  proof (cases es rule: rev_cases)
    case (snoc es' e)
    then have "foldl (extend_pcr sha) spec_zero32 es' @ e \<in> replay_inputs sha spec_zero32 es"
      by (simp add: replay_inputs_snoc)
    then have "foldl (extend_pcr sha) spec_zero32 es \<in> sha ` replay_inputs sha spec_zero32 es"
      by (simp add: snoc extend_pcr_def)
    then show ?thesis using Nil.prems(2,3) by simp
  qed simp
next
  case (snoc d ds)
  let ?R = "foldl (extend_pcr sha) spec_zero32" and ?I = "replay_inputs sha spec_zero32"
  have lenR: "length (?R xs) = 32" for xs using len by (cases xs rule: rev_cases) (simp_all add: extend_pcr_def)
  show ?case
  proof (cases es rule: rev_cases)
    case Nil
    have "?R ds @ d \<in> ?I (ds @ [d])" by (simp add: replay_inputs_snoc)
    then have "sha (?R ds @ d) \<in> sha ` (?I (ds @ [d]) \<union> ?I es)" by blast
    moreover have "sha (?R ds @ d) = spec_zero32"
      using snoc.prems(3) unfolding Nil foldl_append foldl.simps extend_pcr_def [of sha "?R ds" d] .
    ultimately show ?thesis using snoc.prems(2) by simp
  next
    case (snoc es' e)
    have "sha (?R ds @ d) = sha (?R es' @ e)"
      using snoc.prems(3) unfolding snoc foldl_append foldl.simps
        extend_pcr_def [of sha "?R ds" d] extend_pcr_def [of sha "?R es'" e] .
    then have "?R ds @ d = ?R es' @ e"
    proof (rule inj_onD [OF snoc.prems(1)])
      show "?R ds @ d \<in> ?I (ds @ [d]) \<union> ?I es" unfolding replay_inputs_snoc by blast
      show "?R es' @ e \<in> ?I (ds @ [d]) \<union> ?I es" unfolding snoc replay_inputs_snoc by blast
    qed
    from append_len_split [OF this] lenR have 1: "?R ds = ?R es'" "d = e" by simp_all
    have "ds = es'"
    proof (rule snoc.IH)
      show "inj_on sha (?I ds \<union> ?I es')"
        by (rule inj_on_subset [OF snoc.prems(1)]) (auto simp: snoc replay_inputs_snoc)
    qed (use snoc.prems(2) 1 snoc in \<open>auto simp: replay_inputs_snoc\<close>)
    then show ?thesis using 1 snoc by simp
  qed
qed

text \<open>The bytes that the digests of a log are the hashes of.\<close>

definition line_inputs :: "bytes \<Rightarrow> bytes set" where
  "line_inputs line =
     (case ima_fields line of
        None \<Rightarrow> {}
      | Some (pcr, log_digest, template, dfield, fname) \<Rightarrow>
          (case host_template_data dfield fname of None \<Rightarrow> {} | Some x \<Rightarrow> {x}))"

definition log_inputs :: "(bytes \<Rightarrow> bytes) \<Rightarrow> bytes \<Rightarrow> bytes set" where
  "log_inputs sha ima_log =
     (\<Union>s \<in> set (split_inclusive 10 ima_log). line_inputs (trim_end s)) \<union>
     (case parse_ima_log sha ima_log of
        Err e \<Rightarrow> {} | Ok records \<Rightarrow> replay_inputs sha spec_zero32 (map ir_extend_digest records))"

text \<open>What an entry's digest commits to: nothing for a violation, otherwise the path and the hash.\<close>

definition attested_view :: "ImaRecord \<Rightarrow> (bytes \<times> bytes) option" where
  "attested_view r =
     (if ir_extend_digest r = IMA_VIOLATION_EXTEND then None
      else Some (map spec_ascii_lower (ir_file_hash r), ir_file_path r))"

lemma strip_ws_length: "length (strip_ws codes s) \<le> length s"
proof (induction codes s rule: strip_ws.induct)
  case (1 codes s)
  then show ?case by (subst strip_ws.simps) (auto intro: le_trans)
qed

lemma trim_end_length: "length (trim_end s) \<le> length s"
  using strip_ws_length [of "map rev ws_codes" "rev s"] by (simp add: trim_end_def)

lemma split_inclusive_length: "s \<in> set (split_inclusive c xs) \<Longrightarrow> length s \<le> length xs"
proof -
  assume "s \<in> set (split_inclusive c xs)"
  then obtain as bs where "split_inclusive c xs = as @ s # bs" by (auto simp: in_set_conv_decomp)
  then have "xs = concat as @ s @ concat bs" by (metis concat.simps(2) concat_append concat_split_inclusive)
  then show ?thesis by simp
qed

lemma ima_fields_length:
  "ima_fields line = Some (a, b, c, d, e) \<Longrightarrow> length d \<le> length line \<and> length e \<le> length line"
  by (auto simp: ima_fields_def split: option.splits if_splits)

text \<open>Where a record comes from.\<close>

lemma parse_segments_source:
  assumes "parse_segments sha segs c out = Ok records" "r \<in> set records"
  shows "r \<in> set out \<or> (\<exists>s \<in> set segs. ima_line sha (trim_end s) =
    Ok (Some (ir_extend_digest r, ir_file_hash r, ir_file_path r)))"
  using assms
proof (induction segs arbitrary: c out)
  case (Cons seg segs)
  then obtain x where x: "ima_line sha (trim_end seg) = Ok x" by (auto simp: Let_def split: result.splits)
  show ?case
  proof (cases x)
    case None
    then show ?thesis using Cons x by (auto simp: Let_def)
  next
    case (Some y)
    obtain d h q where y: "y = (d, h, q)" by (cases y)
    let ?r = "\<lparr>ir_extend_digest = d, ir_file_hash = h, ir_file_path = q, ir_end_offset = c + length seg\<rparr>"
    have "parse_segments sha segs (c + length seg) (out @ [?r]) = Ok records"
      using Cons.prems(1) x Some y by (simp add: Let_def)
    from Cons.IH [OF this Cons.prems(2)] show ?thesis using x Some y by auto
  qed
qed simp

lemma ima_line_data:
  assumes "ima_line sha line = Ok (Some (d, h, p))"
  shows "d = IMA_VIOLATION_EXTEND \<or> (\<exists>algo raw. 58 \<notin> set algo \<and> hex_pairs h = Some raw \<and>
    length algo + length raw + 1 \<le> length line \<and> length p \<le> length line \<and>
    template_data algo raw p \<in> line_inputs line \<and> d = sha (template_data algo raw p))"
proof -
  from assms obtain pcr ld tmpl dfield where f: "ima_fields line = Some (pcr, ld, tmpl, dfield, p)"
    by (auto simp: ima_line_def Let_def split: if_splits option.splits)
  show ?thesis
  proof (cases "ld \<noteq> [] \<and> is_zero_hash ld")
    case True
    then show ?thesis using assms f by (auto simp: ima_line_def Let_def split: if_splits)
  next
    case False
    then have d: "ima_ng_template_digest_sha256 sha dfield p = Some d"
      and h: "h = (case split_once 58 dfield of Some (_, h) \<Rightarrow> h | None \<Rightarrow> dfield)"
      using assms f by (auto simp: ima_line_def Let_def split: if_splits option.splits)
    then obtain algo hx raw where s: "split_once 58 dfield = Some (algo, hx)" "hex_pairs hx = Some raw"
      "d = sha (template_data algo raw p)"
      by (auto simp: ima_ng_template_digest_sha256_def host_template_data_split split: option.splits)
    have "58 \<notin> set a \<and> xs = a @ 58 # b" if "split_once 58 xs = Some (a, b)" for xs a b :: bytes
      using that by (induction xs arbitrary: a) (auto split: if_splits)
    from this [OF s(1)] have a: "58 \<notin> set algo" "dfield = algo @ 58 # hx" by auto
    moreover have "2 * length raw = length hx" using s(2) by (rule hex_pairs_length)
    ultimately show ?thesis
      using s f h ima_fields_length [OF f] by (auto simp: line_inputs_def host_template_data_split)
  qed
qed

lemma template_data_inj:
  assumes "template_data a r p = template_data b t q" "58 \<notin> set a" "58 \<notin> set b"
    and "length a + length r + 2 < 2 ^ 32" "length b + length t + 2 < 2 ^ 32"
    and "length p + 1 < 2 ^ 32" "length q + 1 < 2 ^ 32"
  shows "r = t \<and> p = q"
proof -
  have t: "template_data x y z = len_prefixed (x @ 58 # 0 # y) @ len_prefixed (z @ [0])" for x y z
    by (simp add: template_data_def len_prefixed_def Let_def)
  have "a @ 58 # 0 # r = b @ 58 # 0 # t \<and> len_prefixed (p @ [0]) = len_prefixed (q @ [0])"
    by (rule field_code.split) (use assms(1,4,5) in \<open>simp_all add: t\<close>)
  then have 1: "a @ 58 # 0 # r = b @ 58 # 0 # t" and 2: "len_prefixed (p @ [0]) = len_prefixed (q @ [0])"
    by simp_all
  have "p @ [0] = q @ [0]"
    by (rule field_code.injective [OF _ _ 2]) (use assms(6,7) in simp_all)
  moreover have "0 # r = 0 # t" using bar_split [OF assms(2,3) 1] by (rule conjunct2)
  ultimately show ?thesis by simp
qed

lemma record_source:
  assumes "parse_ima_log sha l = Ok records" "r \<in> set records" "length l + 1 < 2 ^ 32"
  shows "ir_extend_digest r = IMA_VIOLATION_EXTEND \<or> (\<exists>algo raw. 58 \<notin> set algo \<and>
    hex_pairs (ir_file_hash r) = Some raw \<and> length algo + length raw + 2 < 2 ^ 32 \<and>
    length (ir_file_path r) + 1 < 2 ^ 32 \<and>
    template_data algo raw (ir_file_path r) \<in> log_inputs sha l \<and>
    ir_extend_digest r = sha (template_data algo raw (ir_file_path r)))"
proof -
  from parse_segments_source [OF assms(1) [unfolded parse_ima_log_def] assms(2)] obtain s where
    s: "s \<in> set (split_inclusive 10 l)"
    "ima_line sha (trim_end s) = Ok (Some (ir_extend_digest r, ir_file_hash r, ir_file_path r))" by auto
  have "length (trim_end s) \<le> length l"
    using trim_end_length split_inclusive_length [OF s(1)] by (rule le_trans)
  moreover have "line_inputs (trim_end s) \<subseteq> log_inputs sha l" using s(1) by (auto simp: log_inputs_def)
  ultimately show ?thesis using ima_line_data [OF s(2)] assms(3) by fastforce
qed

lemma record_view_eq:
  assumes I: "inj_on sha (log_inputs sha l \<union> log_inputs sha k)"
    "IMA_VIOLATION_EXTEND \<notin> sha ` (log_inputs sha l \<union> log_inputs sha k)"
    and l: "parse_ima_log sha l = Ok records" "r \<in> set records" "length l + 1 < 2 ^ 32"
    and k: "parse_ima_log sha k = Ok others" "t \<in> set others" "length k + 1 < 2 ^ 32"
    and eq: "ir_extend_digest r = ir_extend_digest t"
  shows "attested_view r = attested_view t"
proof (cases "ir_extend_digest r = IMA_VIOLATION_EXTEND")
  case True
  then show ?thesis using eq by (simp add: attested_view_def)
next
  case False
  obtain a raw where a: "58 \<notin> set a" "hex_pairs (ir_file_hash r) = Some raw" "length a + length raw + 2 < 2 ^ 32"
    "length (ir_file_path r) + 1 < 2 ^ 32" "template_data a raw (ir_file_path r) \<in> log_inputs sha l"
    "ir_extend_digest r = sha (template_data a raw (ir_file_path r))"
    using record_source [OF l] False by blast
  obtain b bin where b: "58 \<notin> set b" "hex_pairs (ir_file_hash t) = Some bin" "length b + length bin + 2 < 2 ^ 32"
    "length (ir_file_path t) + 1 < 2 ^ 32" "template_data b bin (ir_file_path t) \<in> log_inputs sha k"
    "ir_extend_digest t = sha (template_data b bin (ir_file_path t))"
    using record_source [OF k] False eq by metis
  have "sha (template_data a raw (ir_file_path r)) = sha (template_data b bin (ir_file_path t))"
    using a(6) b(6) eq by simp
  then have "template_data a raw (ir_file_path r) = template_data b bin (ir_file_path t)"
    by (rule inj_onD [OF I(1)]) (use a(5) b(5) in blast)+
  from template_data_inj [OF this a(1) b(1) a(3) b(3) a(4) b(4)]
  have "raw = bin" "ir_file_path r = ir_file_path t" by simp_all
  moreover have "map spec_ascii_lower (ir_file_hash r) = map spec_ascii_lower (ir_file_hash t)"
    using a(2) b(2) \<open>raw = bin\<close> by (simp add: hex_pairs_iff)
  ultimately show ?thesis using eq by (simp add: attested_view_def)
qed

lemma replay_inputs_take: "replay_inputs sha p (take n ds) \<subseteq> replay_inputs sha p ds"
proof (induction ds arbitrary: p n)
  case (Cons d ds)
  then show ?case by (cases n) auto
qed simp

lemma attested_digests:
  assumes "\<forall>x. length (sha x) = 32" "parse_ima_log sha l = Ok records"
    and "reconcile_ima_against_pcr10 sha records pcr10_hex = Ok prefix"
  obtains target where "hex_decode (trim pcr10_hex) = Some target"
    "foldl (extend_pcr sha) spec_zero32 (map ir_extend_digest (ap_attested prefix)) = target"
    "replay_inputs sha spec_zero32 (map ir_extend_digest (ap_attested prefix)) \<subseteq> log_inputs sha l"
    "set (ap_attested prefix) \<subseteq> set records"
proof -
  obtain n target where *: "hex_decode (trim pcr10_hex) = Some target" "n \<le> length records"
    "spec_replay sha (map ir_extend_digest records) n = target"
    "prefix = \<lparr>ap_attested = take n records, ap_entries_total = length records,
       ap_attested_bytes = ir_end_offset (records ! (n - 1))\<rparr>"
    by (rule reconcile_Ok [OF assms(1,3)])
  have "replay_inputs sha spec_zero32 (map ir_extend_digest (take n records)) \<subseteq>
      replay_inputs sha spec_zero32 (map ir_extend_digest records)"
    using replay_inputs_take [of sha spec_zero32 n "map ir_extend_digest records"] by (simp add: take_map)
  also have "\<dots> \<subseteq> log_inputs sha l" using assms(2) by (simp add: log_inputs_def)
  finally show thesis
    using * spec_replay_fold [of n "map ir_extend_digest records" sha]
    by (intro that [of target]) (auto simp: take_map dest: in_set_takeD)
qed


definition demo_log2 :: bytes where
  "demo_log2 = str ''10 6 ima-ng s:ab p'' @ [10]"

lemma demo_inputs:
  "log_inputs demo_sha demo_log \<union> log_inputs demo_sha demo_log2 =
     {template_data (str ''s'') [0xAB] (str ''p''), template_data (str ''s'') [0] (str ''q''),
      replicate 32 0 @ demo_digest}"
proof -
  have 1: "split_inclusive 10 demo_log = [str ''10 5 ima-ng s:AB p'' @ [10], str ''11 5 other s:00 q'']"
    "split_inclusive 10 demo_log2 = [str ''10 6 ima-ng s:ab p'' @ [10]]" by code_simp+
  have 2: "ima_fields (trim_end (str ''10 5 ima-ng s:AB p'' @ [10])) =
      Some (str ''10'', str ''5'', str ''ima-ng'', str ''s:AB'', str ''p'')"
    "ima_fields (trim_end (str ''11 5 other s:00 q'')) =
      Some (str ''11'', str ''5'', str ''other'', str ''s:00'', str ''q'')"
    "ima_fields (trim_end (str ''10 6 ima-ng s:ab p'' @ [10])) =
      Some (str ''10'', str ''6'', str ''ima-ng'', str ''s:ab'', str ''p'')" by code_simp+
  have 3: "host_template_data (str ''s:AB'') f = Some (template_data (str ''s'') [0xAB] f)"
    "host_template_data (str ''s:ab'') f = Some (template_data (str ''s'') [0xAB] f)"
    "host_template_data (str ''s:00'') f = Some (template_data (str ''s'') [0] f)" for f
    by (simp_all add: host_template_data_split str_def spec_hex_val_def)
  have 4: "parse_ima_log demo_sha demo_log2 = Ok (demo_records (str ''ab''))" by code_simp
  show ?thesis
    unfolding log_inputs_def demo_parse 4 1
    by (simp add: line_inputs_def 2 3 demo_records_def spec_zero32_def insert_commute)
qed


end
