(* ===== verification/ImaSelect.thy ===== *)
theory ImaSelect
  imports Ima Admission Containers
begin

text \<open>
  What the two enclaves read out of an attested measurement log: the collector's own hash, the GPU
  driver stack and the hypervisor binaries. The host (\<open>src/sgx/src/lib.rs\<close>) selects among the
  parsed records of the attested prefix; the guest (\<open>src/sgx_vm/src/lib.rs\<close>) splits the text again.
\<close>

section \<open>The host\<close>

text \<open>\<open>h.split(':').nth(1).unwrap_or("")\<close> when there is a colon, the whole field otherwise.\<close>

definition hash_value :: "bytes \<Rightarrow> bytes" where
  "hash_value file_hash =
     (if contains [58] file_hash then (case split_on 58 file_hash of _ # h # _ \<Rightarrow> h | _ \<Rightarrow> [])
      else file_hash)"

definition record_view :: "ImaRecord \<Rightarrow> RecordView" where
  "record_view r = \<lparr>rv_hash = ir_file_hash r, rv_path = ir_file_path r\<rparr>"

definition is_hashed_name :: "bytes \<Rightarrow> bool" where
  "is_hashed_name path =
     (let basename = last_piece 0x2F path
      in case strip_prefix (str ''scaphandre-'') basename of
           Some suffix \<Rightarrow> suffix \<noteq> [] \<and> list_all is_ascii_hexdigit suffix
         | None \<Rightarrow> False)"

fun hashed_loop :: "ImaRecord list \<Rightarrow> bytes option \<Rightarrow> bytes option" where
  "hashed_loop [] last_hashed = last_hashed"
| "hashed_loop (r # rs) last_hashed =
     (if ir_file_hash r = [] then hashed_loop rs last_hashed
      else hashed_loop rs (if is_hashed_name (ir_file_path r) then Some (ir_file_hash r) else last_hashed))"

definition host_extract_collector :: "AttestedImaPrefix \<Rightarrow> bytes option" where
  "host_extract_collector prefix =
     (let views = map record_view (ap_attested prefix)
      in case select_collector_hash_verified views of
           Some h \<Rightarrow> (if utf8_valid h then Some h else hashed_loop (ap_attested prefix) None)
         | None \<Rightarrow> hashed_loop (ap_attested prefix) None)"

definition gpu_modules :: "bytes list" where
  "gpu_modules = [str ''nvidia.ko'', str ''nvidia-uvm.ko'', str ''nvidia-modeset.ko'',
     str ''nvidia-drm.ko'', str ''nvidia-peermem.ko'']"

definition is_gpu_path :: "bytes \<Rightarrow> bool" where
  "is_gpu_path file_path =
     (let basename = last_piece 0x2F file_path;
          is_module = List.member gpu_modules basename \<and> starts_with (str ''/usr/lib/modules/'') file_path;
          is_nvml = starts_with (str ''libnvidia-ml.so'') basename
      in is_module \<or> is_nvml)"

fun host_gpu_loop :: "ImaRecord list \<Rightarrow> (bytes \<times> bytes) list \<Rightarrow> (bytes \<times> bytes) list" where
  "host_gpu_loop [] latest = latest"
| "host_gpu_loop (r # rs) latest =
     (if ir_file_hash r = [] then host_gpu_loop rs latest
      else if \<not> is_gpu_path (ir_file_path r) then host_gpu_loop rs latest
      else host_gpu_loop rs (bt_insert (ir_file_path r) (hash_value (ir_file_hash r)) latest))"

definition host_extract_gpu_stack :: "AttestedImaPrefix \<Rightarrow> (bytes \<times> bytes) list" where
  "host_extract_gpu_stack prefix = host_gpu_loop (ap_attested prefix) []"

definition is_hypervisor_name :: "bytes \<Rightarrow> bool" where
  "is_hypervisor_name base =
     (let stem = (case strip_suffix (str ''.real'') base of Some s \<Rightarrow> s | None \<Rightarrow> base);
          is_qemu = starts_with (str ''qemu-system-'') stem \<and> \<not> contains [46] stem \<and> length stem > 12;
          is_swtpm = base = str ''swtpm'' \<or> base = str ''swtpm_setup''
      in is_qemu \<or> is_swtpm)"

fun hypervisor_loop :: "ImaRecord list \<Rightarrow> (bytes \<times> bytes) list \<Rightarrow> (bytes \<times> bytes) list" where
  "hypervisor_loop [] latest = latest"
| "hypervisor_loop (r # rs) latest =
     (if ir_file_hash r = [] then hypervisor_loop rs latest
      else
        (let base = last_piece 0x2F (ir_file_path r)
         in if \<not> is_hypervisor_name base then hypervisor_loop rs latest
            else if hash_value (ir_file_hash r) = [] then hypervisor_loop rs latest
            else hypervisor_loop rs (bt_insert base (hash_value (ir_file_hash r)) latest)))"

definition host_extract_hypervisor :: "AttestedImaPrefix \<Rightarrow> (bytes \<times> bytes) list" where
  "host_extract_hypervisor prefix = hypervisor_loop (ap_attested prefix) []"

section \<open>The guest\<close>

definition is_collector_path :: "bytes \<Rightarrow> bool" where
  "is_collector_path file_path \<longleftrightarrow>
     contains (str ''scaphandre'') file_path \<and> \<not> contains (str ''loader'') file_path \<and>
     \<not> contains (str ''build-script'') file_path \<and> \<not> contains (str ''/build/'') file_path \<and>
     ends_with (str ''/scaphandre'') file_path"

fun guest_collector_loop :: "bytes list \<Rightarrow> bytes option \<Rightarrow> bytes option" where
  "guest_collector_loop [] last_hash = last_hash"
| "guest_collector_loop (line # lns) last_hash =
     (let parts = split_whitespace line
      in if length parts < 5 then guest_collector_loop lns last_hash
         else guest_collector_loop lns
                (if is_collector_path (parts ! 4) then Some (hash_value (parts ! 3)) else last_hash))"

definition guest_extract_collector :: "bytes \<Rightarrow> bytes option" where
  "guest_extract_collector ima_log = guest_collector_loop (RustStd.lines ima_log) None"

definition is_guest_gpu_path :: "bytes \<Rightarrow> bool" where
  "is_guest_gpu_path file_path \<longleftrightarrow>
     contains (str ''nvidia'') file_path \<and> contains (str ''.ko'') file_path \<or>
     contains (str ''libnvidia-ml'') file_path"

fun guest_gpu_loop :: "bytes list \<Rightarrow> (bytes \<times> bytes) list \<Rightarrow> (bytes \<times> bytes) list" where
  "guest_gpu_loop [] latest = latest"
| "guest_gpu_loop (line # lns) latest =
     (let parts = split_whitespace line
      in if length parts < 5 then guest_gpu_loop lns latest
         else if \<not> is_guest_gpu_path (parts ! 4) then guest_gpu_loop lns latest
         else guest_gpu_loop lns (bt_insert (parts ! 4) (hash_value (parts ! 3)) latest))"

definition guest_extract_gpu_stack :: "bytes \<Rightarrow> (bytes \<times> bytes) list" where
  "guest_extract_gpu_stack ima_log = guest_gpu_loop (RustStd.lines ima_log) []"

definition gpu_stack_registration_key :: "bytes \<Rightarrow> bytes" where
  "gpu_stack_registration_key path =
     (let base = last_piece 0x2F path
      in if starts_with (str ''libnvidia-ml'') base then str ''libnvidia-ml'' else base)"

section \<open>What the loops leave\<close>

lemma hashed_loop_last:
  "hashed_loop rs f =
     (case filter (\<lambda>r. ir_file_hash r \<noteq> [] \<and> is_hashed_name (ir_file_path r)) rs of
        [] \<Rightarrow> f | cs \<Rightarrow> Some (ir_file_hash (last cs)))"
  by (induction rs f rule: hashed_loop.induct) (auto split: list.split)

lemma host_gpu_loop_inserts:
  "host_gpu_loop rs m =
     bt.inserts (map (\<lambda>r. (ir_file_path r, hash_value (ir_file_hash r)))
       (filter (\<lambda>r. ir_file_hash r \<noteq> [] \<and> is_gpu_path (ir_file_path r)) rs)) m"
  by (induction rs m rule: host_gpu_loop.induct) (auto simp: bt.inserts_def)

lemma hypervisor_loop_inserts:
  "hypervisor_loop rs m =
     bt.inserts (map (\<lambda>r. (last_piece 0x2F (ir_file_path r), hash_value (ir_file_hash r)))
       (filter (\<lambda>r. ir_file_hash r \<noteq> [] \<and> is_hypervisor_name (last_piece 0x2F (ir_file_path r)) \<and>
          hash_value (ir_file_hash r) \<noteq> []) rs)) m"
  by (induction rs m rule: hypervisor_loop.induct) (auto simp: bt.inserts_def Let_def)

lemma map_of_rev_map:
  "map_of (rev (map (\<lambda>r. (key r, val r)) rs)) k =
     (case filter (\<lambda>r. key r = k) rs of [] \<Rightarrow> None | cs \<Rightarrow> Some (val (last cs)))"
  by (induction rs) (auto simp: map_add_def split: list.split option.split)

text \<open>The host's readings of an attested log are the latest measurements in it: the collector's hash is
  that of the last usable record of the collector's own name (failing that, of the last record named after
  a build hash), the GPU stack maps each driver path, and the hypervisor list each hypervisor binary's name,
  to the hash in the last usable record for it; both lists are strictly ordered by key.\<close>
theorem host_extraction_latest:
  fixes prefix
  defines "R \<equiv> ap_attested prefix"
  defines "exact \<equiv> filter spec_is_collector_record (map record_view R)"
    and "hashed \<equiv> filter (\<lambda>r. ir_file_hash r \<noteq> [] \<and> is_hashed_name (ir_file_path r)) R"
    and "gpu \<equiv> \<lambda>p. filter (\<lambda>r. ir_file_hash r \<noteq> [] \<and> is_gpu_path p \<and> ir_file_path r = p) R"
    and "hyp \<equiv> \<lambda>b. filter (\<lambda>r. hash_value (ir_file_hash r) \<noteq> [] \<and> is_hypervisor_name b \<and>
           last_piece 0x2F (ir_file_path r) = b) R"
  shows "host_extract_collector prefix =
      (if exact \<noteq> [] \<and> utf8_valid (rv_hash (last exact)) then Some (rv_hash (last exact))
       else if hashed \<noteq> [] then Some (ir_file_hash (last hashed)) else None) \<and>
    map_of (host_extract_gpu_stack prefix) p =
      (if gpu p = [] then None else Some (hash_value (ir_file_hash (last (gpu p))))) \<and>
    map_of (host_extract_hypervisor prefix) b =
      (if hyp b = [] then None else Some (hash_value (ir_file_hash (last (hyp b))))) \<and>
    bt_sorted (host_extract_gpu_stack prefix) \<and> bt_sorted (host_extract_hypervisor prefix)"
proof (intro conjI)
  show "host_extract_collector prefix =
      (if exact \<noteq> [] \<and> utf8_valid (rv_hash (last exact)) then Some (rv_hash (last exact))
       else if hashed \<noteq> [] then Some (ir_file_hash (last hashed)) else None)"
    by (auto simp: host_extract_collector_def select_collector_hash_verified_def select_loop_filter
        hashed_loop_last exact_def hashed_def R_def Let_def split: list.splits)
  have g: "filter (\<lambda>r. ir_file_path r = p) (filter (\<lambda>r. ir_file_hash r \<noteq> [] \<and> is_gpu_path (ir_file_path r)) R) = gpu p"
    by (simp add: gpu_def conj_ac) (rule filter_cong, auto)
  show "map_of (host_extract_gpu_stack prefix) p =
      (if gpu p = [] then None else Some (hash_value (ir_file_hash (last (gpu p)))))"
    unfolding host_extract_gpu_stack_def host_gpu_loop_inserts bt.lookup_from_empty map_of_rev_map
      R_def [symmetric] g by (simp split: list.split)
  have h: "filter (\<lambda>r. last_piece 0x2F (ir_file_path r) = b)
      (filter (\<lambda>r. ir_file_hash r \<noteq> [] \<and> is_hypervisor_name (last_piece 0x2F (ir_file_path r)) \<and>
         hash_value (ir_file_hash r) \<noteq> []) R) = hyp b"
    by (simp add: hyp_def conj_ac) (rule filter_cong, auto simp: hash_value_def contains_def)
  show "map_of (host_extract_hypervisor prefix) b =
      (if hyp b = [] then None else Some (hash_value (ir_file_hash (last (hyp b)))))"
    unfolding host_extract_hypervisor_def hypervisor_loop_inserts bt.lookup_from_empty map_of_rev_map
      R_def [symmetric] h by (simp split: list.split)
qed (simp_all add: host_extract_gpu_stack_def host_extract_hypervisor_def host_gpu_loop_inserts
    hypervisor_loop_inserts bt.inserts_inv bt.inv_empty)

section \<open>A line the guest trusts although nothing measures it\<close>

definition forged_line :: bytes where
  "forged_line = str ''11 0 x s:ab /scaphandre'' @ [10]"

lemma split_inclusive_line: "c \<notin> set p \<Longrightarrow> split_inclusive c (p @ c # xs) = (p @ [c]) # split_inclusive c xs"
  by (induction p) auto

lemma split_forged: "split_inclusive 10 (forged_line @ l) = forged_line # split_inclusive 10 l"
  using split_inclusive_line [of 10 "str ''11 0 x s:ab /scaphandre''" l]
  by (simp add: forged_line_def str_def)

text \<open>The parser's position is only carried along.\<close>

lemma guest_segments_shift:
  "guest_segments sha hexdec segs (k + c) ds (map ((+) k) offs) =
     (case guest_segments sha hexdec segs c ds offs of
        Err e \<Rightarrow> Err e | Ok (ds', offs') \<Rightarrow> Ok (ds', map ((+) k) offs'))"
proof (induction segs arbitrary: c ds offs)
  case (Cons seg segs)
  show ?case
    using Cons.IH [of "c + length seg" ds offs] Cons.IH [of "c + length seg" _ "offs @ [c + length seg]"]
    by (simp add: Let_def add.assoc split: result.split option.split)
qed simp

lemma guest_segments_lengths:
  "guest_segments sha hexdec segs c ds offs = Ok (ds', offs') \<Longrightarrow> length ds = length offs \<Longrightarrow>
   length ds' = length offs'"
  by (induction segs arbitrary: c ds offs) (auto simp: Let_def split: result.splits option.splits)

lemma forged_line_skipped: "guest_ima_line sha hexdec (trim_end forged_line) = Ok None"
proof -
  have "splitn 5 32 (trim_end forged_line) = [str ''11'', str ''0'', str ''x'', str ''s:ab'', str ''/scaphandre'']"
    "trim_end forged_line \<noteq> []" by code_simp+
  then show ?thesis by (simp add: guest_ima_line_def str_def)
qed

lemma guest_collector_loop_last:
  "guest_collector_loop lns f =
     (case guest_collector_loop lns None of Some h \<Rightarrow> Some h | None \<Rightarrow> f)"
proof (induction lns arbitrary: f)
  case (Cons line lns)
  show ?case
    using Cons.IH [of f] Cons.IH [of "Some (hash_value (split_whitespace line ! 3))"]
    by (auto simp: Let_def split: option.splits)
qed simp

lemma forged_line_collector: "guest_collector_loop [strip_eol forged_line] None = Some (str ''ab'')"
  by code_simp

text \<open>The guest can be made to accept a collector hash that no TPM register covers: a line for another
  register, put in front of a log without a collector entry, leaves the reconciliation with PCR 10 as it
  was, and the guest then reads the collector's hash from that line.\<close>
theorem guest_collector_forgeable:
  assumes "guest_verify_ima_log sha hexdec l pcr10_hex = Ok att"
    and "guest_extract_collector (take (ia_attested_bytes att) l) = None"
  shows "\<exists>att'. guest_verify_ima_log sha hexdec (forged_line @ l) pcr10_hex = Ok att' \<and>
    ia_entries_attested att' = ia_entries_attested att \<and> ia_entries_total att' = ia_entries_total att \<and>
    guest_extract_collector (take (ia_attested_bytes att') (forged_line @ l)) = Some (str ''ab'')"
proof -
  let ?k = "length forged_line"
  obtain target ds offs n where
    t: "hexdec (trim pcr10_hex) = Some target" "length target = 32" "ds \<noteq> []"
    and g: "guest_segments sha hexdec (split_inclusive 10 l) 0 [] [] = Ok (ds, offs)"
    and n: "replay_find_prefix sha ds target = Some n" "0 < n"
    and att: "att = \<lparr>ia_entries_attested = n, ia_entries_total = length ds, ia_attested_bytes = offs ! (n - 1)\<rparr>"
    using assms(1) by (auto simp: guest_verify_ima_log_def split: option.splits result.splits if_splits)
  have "n \<le> length ds"
    using n replay_loop_le [of sha ds] by (auto simp: replay_find_prefix_def Let_def split: if_splits)
  then have i: "n - 1 < length offs" using n(2) guest_segments_lengths [OF g] by simp
  have "guest_segments sha hexdec (split_inclusive 10 (forged_line @ l)) 0 [] [] = Ok (ds, map ((+) ?k) offs)"
    using guest_segments_shift [of sha hexdec "split_inclusive 10 l" ?k 0 "[]" "[]"] g
    by (simp add: split_forged forged_line_skipped Let_def)
  then have v: "guest_verify_ima_log sha hexdec (forged_line @ l) pcr10_hex =
      Ok \<lparr>ia_entries_attested = n, ia_entries_total = length ds, ia_attested_bytes = ?k + offs ! (n - 1)\<rparr>"
    using t n i by (simp add: guest_verify_ima_log_def)
  have "RustStd.lines (forged_line @ x) = strip_eol forged_line # RustStd.lines x" for x
    by (simp add: lines_def split_forged)
  moreover have "guest_collector_loop (strip_eol forged_line # xs) None =
      guest_collector_loop xs (guest_collector_loop [strip_eol forged_line] None)" for xs
    by (simp add: Let_def)
  ultimately have "guest_extract_collector (forged_line @ take (offs ! (n - 1)) l) = Some (str ''ab'')"
    using assms(2) guest_collector_loop_last [of "RustStd.lines (take (offs ! (n - 1)) l)" "Some (str ''ab'')"]
    unfolding guest_extract_collector_def forged_line_collector att by simp
  then show ?thesis using v by (simp add: att)
qed

lemma guest_collector_forgeable_witness:
  "\<exists>att'. guest_verify_ima_log demo_sha hex_pairs (forged_line @ demo_log)
       (hex_lower (demo_sha (replicate 32 0 @ demo_digest))) = Ok att' \<and>
     guest_extract_collector (take (ia_attested_bytes att') (forged_line @ demo_log)) = Some (str ''ab'')"
proof -
  have "guest_verify_ima_log demo_sha hex_pairs demo_log (hex_lower (demo_sha (replicate 32 0 @ demo_digest))) =
      Ok \<lparr>ia_entries_attested = 1, ia_entries_total = 1, ia_attested_bytes = 19\<rparr>"
    by code_simp
  moreover have "guest_extract_collector (take 19 demo_log) = None" by code_simp
  ultimately show ?thesis using guest_collector_forgeable [of demo_sha hex_pairs demo_log] by fastforce
qed

end
