(* ===== verification/GuestBoot.thy ===== *)
theory GuestBoot
  imports ImaSelect
begin

text \<open>
  The guest's boot verification (\<open>src/sgx_vm/src/lib.rs\<close>): the query for the registered state in
  ImmuDB and \<open>ecall_verify_binary_hash\<close>. The TLS connections are the parameter \<open>dial\<close>: the \<open>n\<close>-th
  connection to an address, given the request, fails with one of the code's error numbers or delivers a
  sequence of reads; \<open>cert_ok\<close> tells whether mbedTLS parses the certificate.
\<close>

section \<open>The query\<close>

type_synonym dial = "nat \<Rightarrow> bytes \<Rightarrow> bytes \<Rightarrow> (int, (unit, bytes) result list) result"

definition crlf :: bytes where
  "crlf = [13, 10]"

text \<open>The read loops: up to an empty read, an error, or a response that looks complete.\<close>

fun read_loop :: "(bytes \<Rightarrow> bool) \<Rightarrow> (unit, bytes) result list \<Rightarrow> bytes \<Rightarrow> (int, bytes) result" where
  "read_loop complete [] response = Ok response"
| "read_loop complete (Err _ # reads) response = Err (-6)"
| "read_loop complete (Ok chunk # reads) response =
     (if chunk = [] then Ok response
      else
        (let response = response @ chunk
         in if complete (utf8_lossy response) then Ok response
            else read_loop complete reads response))"

definition exchange ::
  "dial \<Rightarrow> nat \<Rightarrow> bytes \<Rightarrow> bytes \<Rightarrow> (bytes \<Rightarrow> bool) \<Rightarrow> (int, bytes) result" where
  "exchange dial n addr request complete =
     (case dial n addr request of
        Err e \<Rightarrow> Err e
      | Ok reads \<Rightarrow>
          (case read_loop complete reads [] of
             Err e \<Rightarrow> Err e
           | Ok response \<Rightarrow> Ok (utf8_lossy response)))"

text \<open>The text between the end of the first \<open>key\<close> and the next quote.\<close>

definition scrape :: "bytes \<Rightarrow> bytes \<Rightarrow> bytes option" where
  "scrape key response =
     (case find_sub key response of
        None \<Rightarrow> None
      | Some start \<Rightarrow>
          (let start = start + length key
           in case find_sub [34] (drop start response) of
                None \<Rightarrow> None
              | Some end \<Rightarrow> Some (slice response start (start + end))))"

definition quoted_key :: "string \<Rightarrow> bytes" where
  "quoted_key k = [34] @ str k @ str [CHR 0x22, CHR '':'', CHR 0x22]"

definition quoted :: "bytes \<Rightarrow> bytes" where
  "quoted s = [34] @ s @ [34]"

definition login_body :: bytes where
  "login_body = str ''{'' @ quoted (str ''username'') @ str '':'' @ quoted (str ''immudb'') @ str '',''
     @ quoted (str ''password'') @ str '':'' @ quoted (str ''immudb'') @ str '',''
     @ quoted (str ''database'') @ str '':'' @ quoted (str ''defaultdb'') @ str ''}''"

definition login_request :: bytes where
  "login_request =
     str ''POST /api/v2/authorization/session/open HTTP/1.1'' @ crlf
     @ str ''Host: localhost'' @ crlf @ str ''Content-Type: application/json'' @ crlf
     @ str ''Content-Length: '' @ dec (length login_body) @ crlf
     @ str ''Connection: keep-alive'' @ crlf @ crlf @ login_body"

definition field_eq :: "string \<Rightarrow> bytes \<Rightarrow> bytes" where
  "field_eq field value =
     str ''{'' @ quoted (str ''field'') @ str '':'' @ quoted (str field) @ str '',''
     @ quoted (str ''operator'') @ str '':'' @ quoted (str ''EQ'') @ str '',''
     @ quoted (str ''value'') @ str '':'' @ value @ str ''}''"

definition query_body :: "bytes \<Rightarrow> bytes \<Rightarrow> bytes \<Rightarrow> bytes" where
  "query_body binary_name hostname deployment_type =
     str ''{'' @ quoted (str ''page'') @ str '':1,'' @ quoted (str ''pageSize'') @ str '':1,''
     @ quoted (str ''query'') @ str '':{'' @ quoted (str ''expressions'') @ str '':[{''
     @ quoted (str ''fieldComparisons'') @ str '':[''
     @ field_eq ''binary_name'' (quoted binary_name) @ str '',''
     @ field_eq ''hostname'' (quoted hostname) @ str '',''
     @ field_eq ''deployment_type'' (quoted deployment_type) @ str '',''
     @ field_eq ''active'' (str ''true'') @ str '']}],'' @ quoted (str ''orderBy'') @ str '':[{''
     @ quoted (str ''field'') @ str '':'' @ quoted (str ''_id'') @ str '','' @ quoted (str ''desc'')
     @ str '':true}]}}''"

definition query_request :: "bytes \<Rightarrow> bytes \<Rightarrow> bytes" where
  "query_request session_id body =
     str ''POST /api/v2/collection/binary_hashes_v2/documents/search HTTP/1.1'' @ crlf
     @ str ''Host: localhost'' @ crlf @ str ''Content-Type: application/json'' @ crlf
     @ str ''Grpc-Metadata-SessionID: '' @ session_id @ crlf
     @ str ''Content-Length: '' @ dec (length body) @ crlf
     @ str ''Connection: close'' @ crlf @ crlf @ body"

text \<open>The registered state: the binary's hash and the three registers, as text.\<close>

type_synonym registered = "bytes \<times> bytes \<times> bytes \<times> bytes"

definition unwrap_text :: "bytes option \<Rightarrow> bytes" where
  "unwrap_text t = (case t of Some s \<Rightarrow> s | None \<Rightarrow> [])"

definition parse_registered :: "bytes \<Rightarrow> (int, registered) result" where
  "parse_registered response =
     (case scrape (quoted_key ''hash_value'') response of
        None \<Rightarrow> Err (-8)
      | Some h \<Rightarrow>
          Ok (h, unwrap_text (scrape (quoted_key ''pcr0'') response),
              unwrap_text (scrape (quoted_key ''pcr7'') response),
              unwrap_text (scrape (quoted_key ''pcr10'') response)))"

text \<open>The result, and the number of connections made so far.\<close>

definition fetch_expected_hash_from_immudb ::
  "(bytes \<Rightarrow> bool) \<Rightarrow> dial \<Rightarrow> nat \<Rightarrow> bytes \<Rightarrow> bytes \<Rightarrow> bytes \<Rightarrow> bytes \<Rightarrow> bytes \<Rightarrow>
   (int, registered) result \<times> nat" where
  "fetch_expected_hash_from_immudb cert_ok dial n binary_name hostname deployment_type addr ca_pem =
     (if \<not> cert_ok (ca_pem @ [0]) then (Err (-2), n)
      else case exchange dial n addr login_request
                  (\<lambda>s. contains (quoted (str ''sessionID'') @ [58]) s \<and> contains (str ''}'') s) of
        Err e \<Rightarrow> (Err e, n + 1)
      | Ok login_response \<Rightarrow>
          (case scrape (quoted_key ''sessionID'') login_response of
             None \<Rightarrow> (Err (-7), n + 1)
           | Some session_id \<Rightarrow>
               (case exchange dial (n + 1) addr
                       (query_request session_id (query_body binary_name hostname deployment_type))
                       (\<lambda>s. contains (quoted (str ''revisions'') @ [58]) s \<and> ends_with (str ''}'') s) of
                  Err e \<Rightarrow> (Err e, n + 2)
                | Ok response \<Rightarrow> (parse_registered response, n + 2))))"

section \<open>The verification call\<close>

text \<open>The GPU stack: \<open>True\<close> when a component differs from its registered hash.\<close>

fun gpu_loop ::
  "(nat \<Rightarrow> bytes \<Rightarrow> (int, registered) result \<times> nat) \<Rightarrow> nat \<Rightarrow> (bytes \<times> bytes) list \<Rightarrow> bool" where
  "gpu_loop fetch n [] = False"
| "gpu_loop fetch n ((path, measured) # stack) =
     (let (reply, n) = fetch n (gpu_stack_registration_key path)
      in case reply of
           Ok (expected, _, _, _) \<Rightarrow>
             (if expected \<noteq> [] then
                (if eq_ignore_ascii_case measured expected then gpu_loop fetch n stack else True)
              else gpu_loop fetch n stack)
         | Err code \<Rightarrow> gpu_loop fetch n stack)"

definition guest_verify_binary_hash ::
  "(bytes \<Rightarrow> bytes) \<Rightarrow> (bytes \<Rightarrow> bytes option) \<Rightarrow> (bytes \<Rightarrow> bool) \<Rightarrow> dial \<Rightarrow>
   bytes option \<Rightarrow> bytes option \<Rightarrow> bytes option \<Rightarrow> bytes option \<Rightarrow> bytes option \<Rightarrow> bytes option \<Rightarrow> int" where
  "guest_verify_binary_hash sha hexdec cert_ok dial pcr_values_ptr ima_log_ptr hostname_ptr
     deployment_type_ptr immudb_addr_ptr ca_pem_ptr =
     (case (pcr_values_ptr, ima_log_ptr, hostname_ptr, deployment_type_ptr, immudb_addr_ptr, ca_pem_ptr) of
        (Some pcr_values, Some ima_log, Some hostname, Some deployment_type, Some immudb_addr, Some ca_pem) \<Rightarrow>
          if \<not> utf8_valid ima_log then -3
          else if \<not> utf8_valid hostname then -1
          else if \<not> utf8_valid deployment_type then -1
          else if \<not> utf8_valid immudb_addr then -1
          else if \<not> utf8_valid ca_pem then -1
          else if length pcr_values < 96 then -2
          else
            (let pcr0_bytes = slice pcr_values 0 32;
                 pcr7_bytes = slice pcr_values 32 64;
                 pcr10_bytes = slice pcr_values 64 96;
                 pcr0_hex = hex_lower pcr0_bytes;
                 pcr7_hex = hex_lower pcr7_bytes;
                 pcr10_hex = hex_lower pcr10_bytes;
                 pcr10_nonzero = list_ex (\<lambda>b. b \<noteq> 0) pcr10_bytes;
                 (ima_log_reconciled, attested_log) =
                   (case guest_verify_ima_log sha hexdec ima_log pcr10_hex of
                      Ok att \<Rightarrow> (True, take (ia_attested_bytes att) ima_log)
                    | Err e \<Rightarrow> (False, []));
                 ima_hash = unwrap_text (guest_extract_collector attested_log);
                 fetch = (\<lambda>n key. fetch_expected_hash_from_immudb cert_ok dial n key hostname
                            deployment_type immudb_addr ca_pem);
                 (reply, n) = fetch 0 (str ''scaphandre'');
                 (have_expected, expected_hash, expected_pcr0, expected_pcr7, expected_pcr10) =
                   (case reply of Ok (h, p0, p7, p10) \<Rightarrow> (True, h, p0, p7, p10)
                    | Err e \<Rightarrow> (False, [], [], [], []))
             in if gpu_loop fetch n (guest_extract_gpu_stack attested_log) then -11
                else boot_status (admit_boot pcr0_hex pcr7_hex ima_hash expected_pcr0 expected_pcr7
                       expected_hash pcr10_nonzero ima_log_reconciled have_expected))
      | _ \<Rightarrow> -1)"

section \<open>What is admitted\<close>

lemma list_ex_nonzero: "list_ex (\<lambda>b. b \<noteq> 0) xs \<longleftrightarrow> (\<exists>b \<in> set xs. b \<noteq> 0)"
  by (simp add: list_ex_iff)


end
