(* ===== verification/Numbers.thy ===== *)
theory Numbers
  imports RustStd Complex_Main
begin

text \<open>
  The numbers the host's attribution computes with: 64-bit floating point (\<open>f64\<close>), its parsing from
  text, and 128-bit signed integers (\<open>i128\<close>). A finite float is its rational value; the sign of a
  zero is not kept, since no modelled operation divides by one or prints one.
\<close>

section \<open>Floats\<close>

datatype f64 = Finite rat | Infinite bool \<comment> \<open>negative\<close> | NaN

definition pow2 :: "int \<Rightarrow> rat" where
  "pow2 e = (if 0 \<le> e then 2 ^ nat e else 1 / 2 ^ nat (- e))"

fun bit_length :: "nat \<Rightarrow> nat" where
  "bit_length n = (if n = 0 then 0 else Suc (bit_length (n div 2)))"

declare bit_length.simps [simp del]

text \<open>The \<open>e\<close> with \<open>2 ^ e \<le> x < 2 ^ (e + 1)\<close>.\<close>

definition binade :: "rat \<Rightarrow> int" where
  "binade x =
     (let (n, d) = quotient_of x;
          k = int (bit_length (nat n)) - int (bit_length (nat d))
      in if pow2 k \<le> x then k else k - 1)"

definition round_even :: "rat \<Rightarrow> int" where
  "round_even x =
     (let f = floor x; r = x - of_int f
      in if r < 1 / 2 then f else if 1 / 2 < r then f + 1 else if even f then f else f + 1)"

text \<open>Rounding to nearest, ties to even, with gradual underflow and overflow to infinity.\<close>

definition ulp_exponent :: "rat \<Rightarrow> int" where
  "ulp_exponent x = max (binade x - 52) (- 1074)"

definition round_f64 :: "rat \<Rightarrow> f64" where
  "round_f64 x =
     (if x = 0 then Finite 0
      else
        (let u = pow2 (ulp_exponent \<bar>x\<bar>);
             v = of_int (round_even (\<bar>x\<bar> / u)) * u
         in if pow2 1024 \<le> v then Infinite (x < 0) else Finite (if x < 0 then - v else v)))"

definition f_neg :: "f64 \<Rightarrow> bool" where
  "f_neg x = (case x of Finite r \<Rightarrow> r < 0 | Infinite s \<Rightarrow> s | NaN \<Rightarrow> False)"

fun f_mul :: "f64 \<Rightarrow> f64 \<Rightarrow> f64" where
  "f_mul (Finite x) (Finite y) = round_f64 (x * y)"
| "f_mul NaN y = NaN"
| "f_mul x NaN = NaN"
| "f_mul (Infinite s) y = (if y = Finite 0 then NaN else Infinite (s \<noteq> f_neg y))"
| "f_mul x (Infinite s) = (if x = Finite 0 then NaN else Infinite (s \<noteq> f_neg x))"

text \<open>The divisor zero does not occur.\<close>

fun f_div :: "f64 \<Rightarrow> f64 \<Rightarrow> f64" where
  "f_div (Finite x) (Finite y) =
     (if y = 0 then (if x = 0 then NaN else Infinite (x < 0)) else round_f64 (x / y))"
| "f_div NaN y = NaN"
| "f_div x NaN = NaN"
| "f_div (Infinite s) (Infinite t) = NaN"
| "f_div (Infinite s) y = Infinite (s \<noteq> f_neg y)"
| "f_div x (Infinite s) = Finite 0"

fun f_less :: "f64 \<Rightarrow> f64 \<Rightarrow> bool" where
  "f_less (Finite x) (Finite y) = (x < y)"
| "f_less (Finite x) (Infinite t) = (\<not> t)"
| "f_less (Infinite s) (Finite y) = s"
| "f_less (Infinite s) (Infinite t) = (s \<and> \<not> t)"
| "f_less x y = False"

definition f_le :: "f64 \<Rightarrow> f64 \<Rightarrow> bool" where
  "f_le x y \<longleftrightarrow> f_less x y \<or> (x = y \<and> x \<noteq> NaN)"

text \<open>\<open>x.min(y)\<close> and \<open>x.max(y)\<close>: a NaN gives the other operand.\<close>

definition f_min :: "f64 \<Rightarrow> f64 \<Rightarrow> f64" where
  "f_min x y = (if x = NaN then y else if y = NaN then x else if f_less y x then y else x)"

definition f_max :: "f64 \<Rightarrow> f64 \<Rightarrow> f64" where
  "f_max x y = (if x = NaN then y else if y = NaN then x else if f_less x y then y else x)"

text \<open>\<open>n as f64\<close> and \<open>x as u64\<close>\<close>

definition u64_as_f64 :: "u64 \<Rightarrow> f64" where
  "u64_as_f64 n = round_f64 (of_nat (unat n))"

definition f64_as_u64 :: "f64 \<Rightarrow> u64" where
  "f64_as_u64 x =
     (case x of
        NaN \<Rightarrow> 0
      | Infinite neg \<Rightarrow> (if neg then 0 else - 1)
      | Finite r \<Rightarrow> (if r \<le> 0 then 0 else if 2 ^ 64 \<le> r then - 1 else of_int (floor r)))"

section \<open>Parsing\<close>

definition to_lower :: "bytes \<Rightarrow> bytes" where
  "to_lower s = map (\<lambda>c. if 65 \<le> c \<and> c \<le> 90 then c + 32 else c) s"

definition split_sign :: "bytes \<Rightarrow> bool \<times> bytes" where
  "split_sign s =
     (if s \<noteq> [] \<and> hd s = 45 then (True, tl s)
      else if s \<noteq> [] \<and> hd s = 43 then (False, tl s) else (False, s))"

definition parse_exponent :: "bytes \<Rightarrow> int option" where
  "parse_exponent s =
     (let (neg, ds) = split_sign s
      in if ds \<noteq> [] \<and> list_all is_digit ds
         then Some (if neg then - int (dec_val 0 ds) else int (dec_val 0 ds)) else None)"

text \<open>Digits with an optional fraction and an optional power of ten.\<close>

definition parse_mantissa :: "bytes \<Rightarrow> (nat \<times> nat) option" where
  "parse_mantissa s =
     (let (whole, fraction) = (case split_once 46 s of Some (a, b) \<Rightarrow> (a, b) | None \<Rightarrow> (s, []))
      in if list_all is_digit whole \<and> list_all is_digit fraction \<and> whole @ fraction \<noteq> []
         then Some (dec_val 0 (whole @ fraction), length fraction) else None)"

definition pow10 :: "int \<Rightarrow> rat" where
  "pow10 e = (if 0 \<le> e then 10 ^ nat e else 1 / 10 ^ nat (- e))"

definition parse_number :: "bytes \<Rightarrow> rat option" where
  "parse_number s =
     (let e = takeWhile (\<lambda>c. c \<noteq> 101 \<and> c \<noteq> 69) s;
          rest = drop (length e) s
      in case parse_mantissa e of
           None \<Rightarrow> None
         | Some (m, k) \<Rightarrow>
             (case (if rest = [] then Some 0 else parse_exponent (tl rest)) of
                None \<Rightarrow> None
              | Some x \<Rightarrow> Some (of_nat m * pow10 (x - int k))))"

text \<open>\<open>s.parse::<f64>()\<close>\<close>

definition parse_f64 :: "bytes \<Rightarrow> f64 option" where
  "parse_f64 s =
     (let (neg, t) = split_sign s
      in if to_lower t = str ''inf'' \<or> to_lower t = str ''infinity'' then Some (Infinite neg)
         else if to_lower t = str ''nan'' then Some NaN
         else map_option (\<lambda>r. round_f64 (if neg then - r else r)) (parse_number t))"

text \<open>\<open>s.parse::<i128>()\<close>, \<open>i128::to_string\<close> and a checked addition of two \<open>i128\<close> values\<close>

definition i128_range :: "int \<Rightarrow> bool" where
  "i128_range v \<longleftrightarrow> - (2 ^ 127) \<le> v \<and> v < 2 ^ 127"

definition parse_i128 :: "bytes \<Rightarrow> int option" where
  "parse_i128 s =
     (let (neg, ds) = split_sign s; v = int (dec_val 0 ds)
      in if ds \<noteq> [] \<and> list_all is_digit ds \<and> i128_range (if neg then - v else v)
         then Some (if neg then - v else v) else None)"

definition dec_int :: "int \<Rightarrow> bytes" where
  "dec_int v = (if v < 0 then 45 # dec (nat (- v)) else dec (nat v))"

definition checked_add_i128 :: "int \<Rightarrow> int \<Rightarrow> int exec" where
  "checked_add_i128 a b = (if i128_range (a + b) then Done (a + b) else Panic)"

section \<open>Facts\<close>

lemma dec_head: "hd (dec n) \<noteq> 43 \<and> hd (dec n) \<noteq> 45"
proof -
  have "is_digit (hd (dec n))" using dec_digits [of n] by (cases "dec n") auto
  then show ?thesis by (auto simp: is_digit_def)
qed

lemma parse_dec_int: "i128_range v \<Longrightarrow> parse_i128 (dec_int v) = Some v"
  using dec_head [of "nat v"]
  by (auto simp: parse_i128_def dec_int_def split_sign_def dec_val_dec dec_digits)

lemma pow2_pos [simp]: "0 < pow2 e"
  by (simp add: pow2_def)

lemma pow2_add: "pow2 (a + b) = pow2 a * pow2 b"
proof -
  have *: "pow2 e = 2 powi e" for e
    by (simp add: pow2_def power_int_def power_inverse field_simps)
  show ?thesis by (simp add: * power_int_add)
qed

lemma round_even_of_int [simp]: "round_even (of_int n) = n"
  by (simp add: round_even_def)

lemma bit_length_bound: "n < 2 ^ bit_length n"
proof (induction n rule: bit_length.induct)
  case (1 n)
  show ?case
  proof (cases "n = 0")
    case False
    then have "n div 2 < 2 ^ bit_length (n div 2)" using 1 by simp
    then have "n < 2 * 2 ^ bit_length (n div 2)" by presburger
    then show ?thesis using False by (subst bit_length.simps) simp
  qed (simp add: bit_length.simps)
qed

lemma bit_length_less: "n < 2 ^ k \<Longrightarrow> bit_length n \<le> k"
proof (induction k arbitrary: n)
  case 0
  then show ?case by (simp add: bit_length.simps)
next
  case (Suc k)
  then have "n div 2 < 2 ^ k" by auto
  then show ?case using Suc.IH [of "n div 2"] by (subst bit_length.simps) simp
qed

lemma bit_length_1 [simp]: "bit_length (Suc 0) = 1"
  by (simp add: bit_length.simps)

text \<open>Integers below \<open>2 ^ 53\<close> are exact.\<close>

lemma binade_small: "n < 2 ^ 53 \<Longrightarrow> binade (of_nat n) \<le> 52"
proof -
  have q: "quotient_of (of_nat n) = (int n, 1)"
    using quotient_of_int [of "int n"] by simp
  show "n < 2 ^ 53 \<Longrightarrow> binade (of_nat n) \<le> 52"
    using bit_length_less [of n 53] by (simp add: binade_def q Let_def)
qed

lemma round_f64_small:
  assumes "n < 2 ^ 53"
  shows "round_f64 (of_nat n) = Finite (of_nat n)"
proof (cases "n = 0")
  case False
  define e where "e = ulp_exponent (of_nat n)"
  have "e \<le> 0" using binade_small [OF assms] by (simp add: e_def ulp_exponent_def)
  then obtain k where e: "e = - int k" by (metis minus_minus neg_0_le_iff_le nonneg_int_cases)
  have div: "of_nat n / pow2 e = of_int (int n * 2 ^ k)"
    by (simp add: e pow2_def)
  have mult: "of_int (int n * 2 ^ k) * pow2 e = of_nat n"
    by (simp add: e pow2_def)
  have "(of_nat n :: rat) < of_nat (2 ^ 53)" using assms by (simp only: of_nat_less_iff)
  also have "\<dots> \<le> pow2 1024" by (simp add: pow2_def)
  finally show ?thesis
    using False by (simp add: round_f64_def e_def [symmetric] div mult del: of_int_mult of_int_power)
qed (simp add: round_f64_def)

lemma u64_as_f64_small: "unat n < 2 ^ 53 \<Longrightarrow> u64_as_f64 n = Finite (of_nat (unat n))"
  by (simp add: u64_as_f64_def round_f64_small del: of_nat_unat)

lemma u64_as_f64_zero [simp]: "u64_as_f64 0 = Finite 0"
  by (simp add: u64_as_f64_def round_f64_def)

lemma round_f64_numeral: "(numeral k :: nat) < 2 ^ 53 \<Longrightarrow> round_f64 (numeral k) = Finite (numeral k)"
  using round_f64_small [of "numeral k"] by simp

lemma f64_as_u64_nat: "n < 2 ^ 64 \<Longrightarrow> f64_as_u64 (Finite (of_nat n)) = of_nat n"
proof -
  assume "n < 2 ^ 64"
  then have "(of_nat n :: rat) < of_nat (2 ^ 64)" by (simp only: of_nat_less_iff)
  then have "\<not> (2 :: rat) ^ 64 \<le> of_nat n" by simp
  then show ?thesis by (simp add: f64_as_u64_def)
qed

lemma f64_as_u64_numeral: "(numeral k :: nat) < 2 ^ 64 \<Longrightarrow> f64_as_u64 (Finite (numeral k)) = numeral k"
  using f64_as_u64_nat [of "numeral k"] by simp

text \<open>Zero times anything, scaled and clamped, is no energy.\<close>

lemma round_f64_zero [simp]: "round_f64 0 = Finite 0"
  by (simp add: round_f64_def)

lemma f_mul_zero: "f_mul (Finite 0) y = Finite 0 \<or> f_mul (Finite 0) y = NaN"
  by (cases y) auto

lemma zero_energy: "f64_as_u64 (f_max (f_div (f_mul (Finite 0) y) (Finite 100)) (Finite 0)) = 0"
  using f_mul_zero [of y] by (auto simp: f_max_def f64_as_u64_def)

text \<open>Rounding a positive integer keeps at least half of it.\<close>

lemma bit_length_lower: "0 < n \<Longrightarrow> 2 ^ (bit_length n - 1) \<le> n"
proof (induction n rule: bit_length.induct)
  case (1 n)
  show ?case
  proof (cases "n div 2 = 0")
    case True
    then have "n = 1" using 1 by presburger
    then show ?thesis by simp
  next
    case False
    then obtain m where m: "bit_length (n div 2) = Suc m"
      by (subst (asm) bit_length.simps) (auto simp: bit_length.simps [of "n div 2"])
    then have "2 * 2 ^ m \<le> n" using 1 False by simp
    then show ?thesis using 1 m by (subst bit_length.simps) simp
  qed
qed

lemma round_even_lower: "x - 1 / 2 \<le> of_int (round_even x)"
proof -
  have "x < of_int (floor x) + 1" using floor_correct [of x] by simp
  then show ?thesis by (auto simp: round_even_def Let_def not_less)
qed

lemma pow2_le: "a \<le> b \<Longrightarrow> pow2 a \<le> pow2 b"
  using pow2_add [of a "b - a"] pow2_pos [of a]
  by (simp add: pow2_def [of "b - a"])

lemma pow2_ulp: "0 < n \<Longrightarrow> pow2 (ulp_exponent (of_nat n)) \<le> of_nat n"
proof -
  assume n: "0 < n"
  have q: "quotient_of (of_nat n) = (int n, 1)"
    using quotient_of_int [of "int n"] by simp
  define k where "k = bit_length n - 1"
  have "bit_length n = Suc (bit_length (n div 2))" using n by (subst bit_length.simps) simp
  then have k: "int (bit_length n) - 1 = int k" by (simp add: k_def)
  have "pow2 (binade (of_nat n)) \<le> pow2 (int k)"
    by (intro pow2_le) (simp add: binade_def q k Let_def)
  also have "\<dots> = of_nat (2 ^ k)" by (simp add: pow2_def)
  also have "\<dots> \<le> of_nat n" using bit_length_lower [OF n] by (simp only: k_def of_nat_le_iff)
  finally have "pow2 (binade (of_nat n)) \<le> of_nat n" .
  moreover have "pow2 (- 1074) \<le> pow2 0" by (rule pow2_le) simp
  moreover have "pow2 0 \<le> (of_nat n :: rat)" using n by (simp add: pow2_def)
  moreover have "pow2 (binade (of_nat n) - 52) \<le> pow2 (binade (of_nat n))" by (rule pow2_le) simp
  ultimately show ?thesis by (simp add: ulp_exponent_def max_def)
qed

lemma round_f64_half:
  assumes "0 < n"
  shows "round_f64 (of_nat n) = Infinite False \<or> (\<exists>v. round_f64 (of_nat n) = Finite v \<and> of_nat n / 2 \<le> v)"
proof -
  define u where "u = pow2 (ulp_exponent (of_nat n))"
  have u: "0 < u" "u \<le> of_nat n" using pow2_ulp [OF assms] by (simp_all add: u_def)
  have "(of_nat n / u - 1 / 2) * u \<le> of_int (round_even (of_nat n / u)) * u"
    using round_even_lower u(1) by (intro mult_right_mono) auto
  moreover have "(of_nat n / u - 1 / 2) * u = of_nat n - u / 2"
    using u(1) by (simp add: left_diff_distrib)
  ultimately have "of_nat n / 2 \<le> of_int (round_even (of_nat n / u)) * u"
    using u(2) by linarith
  then show ?thesis
    using assms by (simp add: round_f64_def u_def [symmetric] Let_def)
qed

end
