(* ===== verification/Floats.thy ===== *)
theory Floats
  imports Numbers
begin

text \<open>
  Floats as the guest stores and prints them: the bit patterns of \<open>to_bits\<close> and \<open>from_bits\<close>, the
  \<open>Display\<close> printing (the shortest digits that read back as the same number, without an exponent),
  sums, and durations in seconds.
\<close>

section \<open>Bit patterns\<close>

definition f64_of_bits :: "u64 \<Rightarrow> f64" where
  "f64_of_bits b =
     (let neg = bit b 63;
          e = unat b div 2 ^ 52 mod 2 ^ 11;
          m = unat b mod 2 ^ 52;
          v = (if e = 0 then of_nat m * pow2 (- 1074) else of_nat (2 ^ 52 + m) * pow2 (int e - 1075))
      in if e = 2047 then (if m = 0 then Infinite neg else NaN)
         else Finite (if neg then - v else v))"

definition f64_to_bits :: "f64 \<Rightarrow> u64" where
  "f64_to_bits x =
     (case x of
        NaN \<Rightarrow> 0x7FF8000000000000
      | Infinite neg \<Rightarrow> (if neg then 0xFFF0000000000000 else 0x7FF0000000000000)
      | Finite r \<Rightarrow>
          (if r = 0 then 0
           else
             (let u = ulp_exponent \<bar>r\<bar>;
                  n = nat (floor (\<bar>r\<bar> / pow2 u))
              in of_nat ((if r < 0 then 2 ^ 63 else 0) + nat (u + 1074) * 2 ^ 52 + n))))"

fun f_add :: "f64 \<Rightarrow> f64 \<Rightarrow> f64" where
  "f_add (Finite x) (Finite y) = round_f64 (x + y)"
| "f_add NaN y = NaN"
| "f_add x NaN = NaN"
| "f_add (Infinite s) (Infinite t) = (if s = t then Infinite s else NaN)"
| "f_add (Infinite s) y = Infinite s"
| "f_add x (Infinite t) = Infinite t"

text \<open>\<open>Duration::as_secs_f64\<close> of a number of nanoseconds\<close>

definition as_secs_f64 :: "nat \<Rightarrow> f64" where
  "as_secs_f64 ns =
     f_add (round_f64 (of_nat (ns div 1000000000)))
       (f_div (round_f64 (of_nat (ns mod 1000000000))) (Finite 1000000000))"

section \<open>Printing\<close>

text \<open>The \<open>k\<close> with \<open>10 ^ k \<le> x < 10 ^ (k + 1)\<close>, for a float; a positive one is at least \<open>10 ^ -324\<close>.\<close>

fun below_one :: "nat \<Rightarrow> rat \<Rightarrow> int" where
  "below_one 0 x = 0"
| "below_one (Suc n) x = (if 1 \<le> x then 0 else below_one n (10 * x) - 1)"

definition dec_exponent :: "rat \<Rightarrow> int" where
  "dec_exponent x =
     (if 1 \<le> x then int (length (dec (nat (floor x)))) - 1 else below_one 324 x)"

text \<open>The nearest decimal with \<open>n\<close> digits that reads back as \<open>x\<close>; of two equally near ones the larger.\<close>

definition digits_candidate :: "nat \<Rightarrow> rat \<Rightarrow> (nat \<times> int) option" where
  "digits_candidate n x =
     (let e = dec_exponent x - int n + 1;
          q = x / pow10 e;
          lo = nat (floor q);
          ok = (\<lambda>m. round_f64 (of_nat m * pow10 e) = Finite x)
      in if ok (lo + 1) \<and> (\<not> ok lo \<or> of_nat lo + 1 - q \<le> q - of_nat lo) then Some (lo + 1, e)
         else if ok lo then Some (lo, e) else None)"

text \<open>Seventeen digits always suffice; the last branch is not reached by floats.\<close>

fun shortest_digits :: "nat \<Rightarrow> nat \<Rightarrow> rat \<Rightarrow> nat \<times> int" where
  "shortest_digits 0 n x = (nat (floor (x / pow10 (dec_exponent x - 16))), dec_exponent x - 16)"
| "shortest_digits (Suc k) n x =
     (case digits_candidate n x of
        Some (m, e) \<Rightarrow> (if m mod 10 = 0 then (m div 10, e + 1) else (m, e))
      | None \<Rightarrow> shortest_digits k (n + 1) x)"

definition plain_decimal :: "nat \<Rightarrow> int \<Rightarrow> bytes" where
  "plain_decimal m e =
     (let ds = dec m; k = nat (- e)
      in if 0 \<le> e then ds @ replicate (nat e) 48
         else if k < length ds then take (length ds - k) ds @ [46] @ drop (length ds - k) ds
         else [48, 46] @ replicate (k - length ds) 48 @ ds)"

text \<open>\<open>{}\<close> of the float with the given bits\<close>

definition show_f64 :: "u64 \<Rightarrow> bytes" where
  "show_f64 b =
     (case f64_of_bits b of
        NaN \<Rightarrow> str ''NaN''
      | Infinite neg \<Rightarrow> (if neg then str ''-inf'' else str ''inf'')
      | Finite r \<Rightarrow>
          (if bit b 63 then [45] else [])
          @ (if r = 0 then [48] else (case shortest_digits 17 1 \<bar>r\<bar> of (m, e) \<Rightarrow> plain_decimal m e)))"

end
