(* ===== verification/RedisWire.thy ===== *)
theory RedisWire
  imports Floats
begin

text \<open>
  The wire protocol of \<open>src/sgx_vm/src/redis_store.rs\<close>: commands are arrays of bulk strings, responses
  are read byte by byte from the connection. The peer's bytes arrive in segments of any size; after them
  the connection is closed or silent until the read timeout. \<open>None\<close> stands for a call that does not
  return, \<open>Panic\<close> for an allocation that aborts the enclave.
\<close>

section \<open>Values and errors\<close>

datatype RedisValue =
    SimpleString bytes
  | RedisErr bytes
  | Integer int
  | BulkString "bytes option"
  | Array "RedisValue list"
  | Nil

text \<open>A message of the code: a text, or a text followed by the \<open>Debug\<close> form of a response.\<close>

datatype message = Plain bytes | Showing bytes RedisValue

datatype io_error = WriteFailed | TimedOut

datatype RedisError =
    ConnectionFailed bytes
  | AuthFailed message
  | CommandFailed message
  | ProtocolError bytes
  | RedisIo io_error

definition value_is_ok :: "RedisValue \<Rightarrow> bool" where
  "value_is_ok v \<longleftrightarrow> v = SimpleString (str ''OK'')"

definition as_int :: "RedisValue \<Rightarrow> int option" where
  "as_int v = (case v of Integer i \<Rightarrow> Some i | _ \<Rightarrow> None)"

definition as_string :: "RedisValue \<Rightarrow> bytes option" where
  "as_string v = (case v of SimpleString s \<Rightarrow> Some s | BulkString (Some s) \<Rightarrow> Some s | _ \<Rightarrow> None)"

text \<open>Calls on a connection (or any other world \<open>'c\<close>), and the \<open>?\<close> operator.\<close>

type_synonym ('c, 'a) redis = "'c \<Rightarrow> ((RedisError, 'a) result \<times> 'c) exec option"

definition rret :: "'a \<Rightarrow> ('c, 'a) redis" where
  "rret a c = Some (Done (Ok a, c))"

definition rfail :: "RedisError \<Rightarrow> ('c, 'a) redis" where
  "rfail e c = Some (Done (Err e, c))"

definition rbind :: "('c, 'a) redis \<Rightarrow> ('a \<Rightarrow> ('c, 'b) redis) \<Rightarrow> ('c, 'b) redis" where
  "rbind m f c =
     (case m c of
        None \<Rightarrow> None
      | Some Panic \<Rightarrow> Some Panic
      | Some (Done (Err e, c)) \<Rightarrow> Some (Done (Err e, c))
      | Some (Done (Ok a, c)) \<Rightarrow> f a c)"

lemma rbind_simps [simp]:
  "rbind (rret a) f = f a"
  "rbind (rfail e) f = rfail e"
  by (simp_all add: rbind_def rret_def rfail_def fun_eq_iff)

lemma rbind_Done: "m c = Some (Done (Ok a, c')) \<Longrightarrow> rbind m f c = f a c'"
  by (simp add: rbind_def)

lemma rbind_returns:
  "rbind m f c = Some (Done (Ok b, c'')) \<longleftrightarrow>
   (\<exists>a c'. m c = Some (Done (Ok a, c')) \<and> f a c' = Some (Done (Ok b, c'')))"
  by (auto simp: rbind_def split: option.splits exec.splits result.splits)

section \<open>The connection\<close>

record 'p Conn =
  cn_peer :: 'p
  cn_incoming :: "bytes list"
  cn_closed :: bool

text \<open>One read into a buffer: the result, the buffer after it, and the connection.\<close>

definition do_read :: "bytes \<Rightarrow> 'p Conn \<Rightarrow> (io_error, nat) result \<times> bytes \<times> 'p Conn" where
  "do_read buf c =
     (case cn_incoming c of
        [] \<Rightarrow> (if cn_closed c then Ok 0 else Err TimedOut, buf, c)
      | segment # segments \<Rightarrow>
          (let n = min (length buf) (length segment)
           in (Ok n, take n segment @ drop n buf,
               c\<lparr>cn_incoming := (if n < length segment then drop n segment # segments else segments)\<rparr>)))"

text \<open>\<open>do_write_all\<close> and \<open>do_flush\<close>: what the peer sends in return arrives, or the write fails.\<close>

type_synonym 'p peer = "'p \<Rightarrow> bytes \<Rightarrow> ('p \<times> bytes list \<times> bool) option"

definition do_write_all :: "'p peer \<Rightarrow> bytes \<Rightarrow> ('p Conn, unit) redis" where
  "do_write_all peer bs c =
     (case peer (cn_peer c) bs of
        None \<Rightarrow> rfail (RedisIo WriteFailed) c
      | Some (p, segments, ended) \<Rightarrow>
          rret () \<lparr>cn_peer = p, cn_incoming = cn_incoming c @ filter (\<lambda>s. s \<noteq> []) segments,
                   cn_closed = ended\<rparr>)"

text \<open>A byte as a \<open>char\<close>, in UTF-8\<close>

definition char_utf8 :: "u8 \<Rightarrow> bytes" where
  "char_utf8 b = (if b < 0x80 then [b] else [0xC0 OR drop_bit 6 b, 0x80 OR (b AND 0x3F)])"

text \<open>\<open>read_line\<close>: the buffer of one byte keeps its content when nothing is read.\<close>

partial_function (option) read_line :: "bytes \<Rightarrow> u8 \<Rightarrow> 'p Conn \<Rightarrow> ((RedisError, bytes) result \<times> 'p Conn) exec option" where
  "read_line line b c =
     (case do_read [b] c of
        (Err e, _, c) \<Rightarrow> Some (Done (Err (RedisIo e), c))
      | (Ok _, buf, c) \<Rightarrow>
          (if buf ! 0 = 13 then
             (case do_read buf c of
                (Err e, _, c) \<Rightarrow> Some (Done (Err (RedisIo e), c))
              | (Ok _, _, c) \<Rightarrow> Some (Done (Ok (utf8_lossy line), c)))
           else read_line (line @ [buf ! 0]) (buf ! 0) c))"

lemma do_read_length: "do_read buf c = (r, buf', c') \<Longrightarrow> length buf' = length buf"
  by (auto simp: do_read_def Let_def split: list.splits)

function conn_read_exact :: "nat \<Rightarrow> bytes \<Rightarrow> 'p Conn \<Rightarrow> (RedisError, bytes) result \<times> 'p Conn" where
  "conn_read_exact got buf c =
     (if got < length buf then
        (case do_read (drop got buf) c of
           (Err e, _, c) \<Rightarrow> (Err (RedisIo e), c)
         | (Ok n, rest, c) \<Rightarrow>
             (if n = 0 then (Err (ProtocolError (str ''Unexpected EOF'')), c)
              else conn_read_exact (got + n) (take got buf @ rest) c))
      else (Ok buf, c))"
  by pat_completeness auto
termination
  by (relation "measure (\<lambda>(got, buf, c). length buf - got)") (auto dest!: do_read_length [OF sym])

declare conn_read_exact.simps [simp del]

section \<open>Commands and responses\<close>

definition line_end :: bytes where
  "line_end = [13, 10]"

text \<open>\<open>${len}\r\n{arg}\r\n\<close> and the header of a command\<close>

definition encode_bulk :: "bytes \<Rightarrow> bytes" where
  "encode_bulk arg = 0x24 # dec (length arg) @ line_end @ arg @ line_end"

definition encode_command :: "bytes list \<Rightarrow> bytes" where
  "encode_command args = 0x2A # dec (length args) @ line_end @ concat (map encode_bulk args)"

definition encode_pipeline :: "bytes list list \<Rightarrow> bytes" where
  "encode_pipeline commands = concat (map encode_command commands)"

text \<open>\<open>line.parse::<i64>()\<close>\<close>

definition parse_i64 :: "bytes \<Rightarrow> int option" where
  "parse_i64 s =
     (case parse_i128 s of
        Some v \<Rightarrow> (if - (2 ^ 63) \<le> v \<and> v < 2 ^ 63 then Some v else None)
      | None \<Rightarrow> None)"

text \<open>Which allocations succeed: of \<open>n\<close> bytes, and of a vector of \<open>n\<close> values.\<close>

record memory =
  mem_bytes :: "nat \<Rightarrow> bool"
  mem_values :: "nat \<Rightarrow> bool"

text \<open>A response up to the items of an array: a whole value, or the number of items to read.\<close>

datatype head = Whole RedisValue | Items nat

definition read_bulk :: "memory \<Rightarrow> nat \<Rightarrow> ('p Conn, head) redis" where
  "read_bulk mem len c =
     (if \<not> mem_bytes mem len then Some Panic
      else
        (case conn_read_exact 0 (replicate len 0) c of
           (Err e, c) \<Rightarrow> rfail e c
         | (Ok data, c) \<Rightarrow>
             (case conn_read_exact 0 [0, 0] c of
                (Err e, c) \<Rightarrow> rfail e c
              | (Ok _, c) \<Rightarrow> rret (Whole (BulkString (Some (utf8_lossy data)))) c)))"

definition read_head :: "memory \<Rightarrow> ('p Conn, head) redis" where
  "read_head mem c =
     (case do_read [0] c of
        (Err e, _, c) \<Rightarrow> rfail (RedisIo e) c
      | (Ok _, buf, c) \<Rightarrow>
          (let kind = buf ! 0 in
           if kind = 0x2B then rbind (read_line [] 0) (\<lambda>line. rret (Whole (SimpleString line))) c
           else if kind = 0x2D then rbind (read_line [] 0) (\<lambda>line. rret (Whole (RedisErr line))) c
           else if kind = 0x3A then
             rbind (read_line [] 0) (\<lambda>line.
               case parse_i64 line of
                 None \<Rightarrow> rfail (ProtocolError (str ''Invalid integer: '' @ line))
               | Some num \<Rightarrow> rret (Whole (Integer num))) c
           else if kind = 0x24 then
             rbind (read_line [] 0) (\<lambda>line.
               case parse_i64 line of
                 None \<Rightarrow> rfail (ProtocolError (str ''Invalid length: '' @ line))
               | Some len \<Rightarrow> (if len < 0 then rret (Whole Nil) else read_bulk mem (nat len))) c
           else if kind = 0x2A then
             rbind (read_line [] 0) (\<lambda>line.
               case parse_i64 line of
                 None \<Rightarrow> rfail (ProtocolError (str ''Invalid array length: '' @ line))
               | Some len \<Rightarrow>
                   (if len < 0 then rret (Whole Nil)
                    else if \<not> mem_values mem (nat len) then (\<lambda>c. Some Panic)
                    else rret (Items (nat len)))) c
           else rfail (ProtocolError (str ''Unknown response type: '' @ char_utf8 kind)) c))"

text \<open>The items of an array, and the responses of a pipeline: \<open>k\<close> responses in a row.\<close>

partial_function (option) read_values ::
  "memory \<Rightarrow> nat \<Rightarrow> 'p Conn \<Rightarrow> ((RedisError, RedisValue list) result \<times> 'p Conn) exec option" where
  "read_values mem k c =
     (if k = 0 then Some (Done (Ok [], c))
      else
        Option.bind (read_head mem c) (\<lambda>r.
          case r of
            Panic \<Rightarrow> Some Panic
          | Done (Err e, c) \<Rightarrow> Some (Done (Err e, c))
          | Done (Ok (Whole v), c) \<Rightarrow>
              Option.bind (read_values mem (k - 1) c) (\<lambda>r.
                case r of
                  Done (Ok vs, c) \<Rightarrow> Some (Done (Ok (v # vs), c))
                | other \<Rightarrow> Some other)
          | Done (Ok (Items n), c) \<Rightarrow>
              Option.bind (read_values mem n c) (\<lambda>r.
                case r of
                  Done (Ok items, c) \<Rightarrow>
                    Option.bind (read_values mem (k - 1) c) (\<lambda>r.
                      case r of
                        Done (Ok vs, c) \<Rightarrow> Some (Done (Ok (Array items # vs), c))
                      | other \<Rightarrow> Some other)
                | other \<Rightarrow> Some other)))"

definition read_response :: "memory \<Rightarrow> ('p Conn, RedisValue) redis" where
  "read_response mem = rbind (read_values mem 1) (\<lambda>vs. rret (vs ! 0))"

definition command :: "memory \<Rightarrow> 'p peer \<Rightarrow> bytes list \<Rightarrow> ('p Conn, RedisValue) redis" where
  "command mem peer args =
     rbind (do_write_all peer (encode_command args)) (\<lambda>_. read_response mem)"

definition pipeline :: "memory \<Rightarrow> 'p peer \<Rightarrow> bytes list list \<Rightarrow> ('p Conn, RedisValue list) redis" where
  "pipeline mem peer commands =
     rbind (do_write_all peer (encode_pipeline commands)) (\<lambda>_. read_values mem (length commands))"

section \<open>What is read does not depend on the segments\<close>

text \<open>The bytes still to come, and the connection after \<open>n\<close> of them.\<close>

definition unread :: "'p Conn \<Rightarrow> bytes" where
  "unread c = concat (cn_incoming c)"

definition wf_conn :: "'p Conn \<Rightarrow> bool" where
  "wf_conn c \<longleftrightarrow> [] \<notin> set (cn_incoming c)"

fun skip :: "nat \<Rightarrow> bytes list \<Rightarrow> bytes list" where
  "skip n [] = []"
| "skip n (s # ss) = (if n < length s then drop n s # ss else skip (n - length s) ss)"

definition advance :: "nat \<Rightarrow> 'p Conn \<Rightarrow> 'p Conn" where
  "advance n c = c\<lparr>cn_incoming := skip n (cn_incoming c)\<rparr>"

named_theorems conn
  \<comment> \<open>how the operations read and advance a connection\<close>

lemma concat_skip: "concat (skip n ss) = drop n (concat ss)"
  by (induction n ss rule: skip.induct) auto

lemma skip_nonempty: "[] \<notin> set ss \<Longrightarrow> [] \<notin> set (skip n ss)"
  by (induction n ss rule: skip.induct) auto

lemma skip_skip: "skip m (skip n ss) = skip (n + m) ss"
  by (induction n ss rule: skip.induct) (auto simp: add.commute)

lemma skip_0: "[] \<notin> set ss \<Longrightarrow> skip 0 ss = ss"
  by (cases ss) auto

lemma unread_advance [conn]: "unread (advance n c) = drop n (unread c)"
  by (simp add: unread_def advance_def concat_skip)

lemma wf_advance [conn]: "wf_conn c \<Longrightarrow> wf_conn (advance n c)"
  by (simp add: wf_conn_def advance_def skip_nonempty)

lemma advance_advance [conn]: "advance m (advance n c) = advance (n + m) c"
  by (simp add: advance_def skip_skip)

lemma advance_0 [conn]: "wf_conn c \<Longrightarrow> advance 0 c = c"
  by (simp add: wf_conn_def advance_def skip_0)

lemma advance_closed [conn]: "cn_closed (advance n c) = cn_closed c"
  by (simp add: advance_def)

lemma do_read_empty:
  "wf_conn c \<Longrightarrow> unread c = [] \<Longrightarrow> do_read buf c = (if cn_closed c then Ok 0 else Err TimedOut, buf, c)"
  by (cases "cn_incoming c") (auto simp: do_read_def unread_def wf_conn_def)

lemma do_read_some:
  assumes "wf_conn c" "unread c \<noteq> []" "buf \<noteq> []"
  shows "\<exists>n. 0 < n \<and> n \<le> length buf \<and> n \<le> length (unread c) \<and>
    do_read buf c = (Ok n, take n (unread c) @ drop n buf, advance n c)"
proof -
  obtain s ss where c: "cn_incoming c = s # ss" and s: "s \<noteq> []"
    using assms by (cases "cn_incoming c") (auto simp: unread_def wf_conn_def)
  have "[] \<notin> set ss" using assms(1) c by (simp add: wf_conn_def)
  then show ?thesis
    using c s assms(3)
    by (intro exI [of _ "min (length buf) (length s)"])
      (auto simp: do_read_def unread_def advance_def skip_0 Let_def min_def)
qed

lemma do_read_byte:
  assumes "wf_conn c" "unread c = b # r"
  shows "do_read [x] c = (Ok 1, [b], advance 1 c)"
proof -
  have "unread c \<noteq> []" "[x] \<noteq> []" using assms(2) by simp_all
  from do_read_some [OF assms(1) this] obtain n where n: "0 < n" "n \<le> length [x]"
    and r: "do_read [x] c = (Ok n, take n (unread c) @ drop n [x], advance n c)"
    by blast
  from n have "n = 1" by simp
  with r assms(2) show ?thesis by simp
qed

lemma read_line_found:
  assumes "wf_conn c" "unread c = line @ 13 # x # rest" "13 \<notin> set line"
  shows "read_line acc b c = Some (Done (Ok (utf8_lossy (acc @ line)), advance (length line + 2) c))"
  using assms
proof (induction line arbitrary: acc b c)
  case Nil
  then have "do_read [b] c = (Ok 1, [13], advance 1 c)" by (simp add: do_read_byte)
  moreover have "do_read [13] (advance 1 c) = (Ok 1, [x], advance 1 (advance 1 c))"
    using Nil by (intro do_read_byte) (simp_all add: conn)
  ultimately show ?case by (subst read_line.simps) (simp add: conn)
next
  case (Cons y line)
  then have "do_read [b] c = (Ok 1, [y], advance 1 c)" by (simp add: do_read_byte)
  moreover have "read_line (acc @ [y]) y (advance 1 c) =
      Some (Done (Ok (utf8_lossy ((acc @ [y]) @ line)), advance (length line + 2) (advance 1 c)))"
    using Cons.prems by (intro Cons.IH) (simp_all add: conn)
  ultimately show ?case using Cons.prems by (subst read_line.simps) (simp add: conn)
qed

lemma read_line_timeout:
  assumes "wf_conn c" "13 \<notin> set (unread c)" "\<not> cn_closed c"
  shows "\<exists>c'. read_line acc b c = Some (Done (Err (RedisIo TimedOut), c'))"
  using assms
proof (induction "unread c" arbitrary: acc b c)
  case Nil
  then show ?case by (subst read_line.simps) (simp add: do_read_empty)
next
  case (Cons y r)
  then have "do_read [b] c = (Ok 1, [y], advance 1 c)" by (metis do_read_byte)
  moreover have "\<exists>c'. read_line (acc @ [y]) y (advance 1 c) = Some (Done (Err (RedisIo TimedOut), c'))"
    using Cons.hyps(2) [symmetric] Cons.prems by (intro Cons.hyps(1)) (simp_all add: conn)
  moreover have "y \<noteq> 13" using Cons.hyps(2) [symmetric] Cons.prems by auto
  ultimately show ?case by (subst read_line.simps) simp
qed

lemma read_line_stuck:
  assumes "read_line acc b c = Some r" "wf_conn c" "13 \<notin> set (unread c)" "cn_closed c" "b \<noteq> 13"
  shows False
proof -
  have "wf_conn c \<longrightarrow> 13 \<notin> set (unread c) \<longrightarrow> cn_closed c \<longrightarrow> b \<noteq> 13 \<longrightarrow> False"
  proof (rule read_line.raw_induct [where P = "\<lambda>acc b c r. wf_conn c \<longrightarrow> 13 \<notin> set (unread c) \<longrightarrow>
        cn_closed c \<longrightarrow> b \<noteq> 13 \<longrightarrow> False", OF _ assms(1)], intro impI)
    fix f acc b c r
    assume IH: "\<And>acc b c r. f acc b c = Some r \<Longrightarrow>
        wf_conn c \<longrightarrow> 13 \<notin> set (unread c) \<longrightarrow> cn_closed c \<longrightarrow> b \<noteq> 13 \<longrightarrow> False"
      and eq: "(case do_read [b] c of
        (Err e, _, c) \<Rightarrow> Some (Done (Err (RedisIo e), c))
      | (Ok _, buf, c) \<Rightarrow>
          (if buf ! 0 = 13 then
             (case do_read buf c of
                (Err e, _, c) \<Rightarrow> Some (Done (Err (RedisIo e), c))
              | (Ok _, _, c) \<Rightarrow> Some (Done (Ok (utf8_lossy acc), c)))
           else f (acc @ [buf ! 0]) (buf ! 0) c)) = Some r"
      and c: "wf_conn c" "13 \<notin> set (unread c)" "cn_closed c" "b \<noteq> 13"
    show False
    proof (cases "unread c")
      case Nil
      then have "f (acc @ [b]) b c = Some r" using eq c by (simp add: do_read_empty)
      from IH [OF this] c show False by simp
    next
      case (Cons y s)
      then have "y \<noteq> 13" using c by auto
      then have "f (acc @ [y]) y (advance 1 c) = Some r" using eq c Cons by (simp add: do_read_byte)
      from IH [OF this] c Cons \<open>y \<noteq> 13\<close> show False by (simp add: conn)
    qed
  qed
  with assms show False by simp
qed

text \<open>C33: Reading a line returns exactly when a carriage return is still to come or the peer is silent (then
  the read times out). On a connection that was closed before the end of a line it never returns, since
  an empty read leaves the last byte in the buffer and the loop takes it for a new one.\<close>
theorem read_line_returns_iff:
  assumes "wf_conn c"
  shows "read_line [] 0 c \<noteq> None \<longleftrightarrow> 13 \<in> set (unread c) \<or> \<not> cn_closed c"
proof (cases "13 \<in> set (unread c)")
  case True
  then obtain line rest where p: "unread c = line @ 13 # rest" "13 \<notin> set line"
    using split_list_first [OF True] by blast
  show ?thesis
  proof (cases rest)
    case (Cons x r)
    then show ?thesis using read_line_found [OF assms, of line x r] p True by simp
  next
    case Nil
    have "read_line acc b c \<noteq> None" if "unread c = line @ [13]" "13 \<notin> set line" "wf_conn c"
      for acc b line and c :: "'a Conn"
      using that
    proof (induction line arbitrary: acc b c)
      case Nil
      then have "do_read [b] c = (Ok 1, [13], advance 1 c)" by (simp add: do_read_byte)
      moreover have "do_read [13] (advance 1 c) = (if cn_closed c then Ok 0 else Err TimedOut, [13], advance 1 c)"
        using Nil by (subst do_read_empty) (simp_all add: conn)
      ultimately show ?case by (subst read_line.simps) simp
    next
      case (Cons y line)
      then have "do_read [b] c = (Ok 1, [y], advance 1 c)" by (simp add: do_read_byte)
      then show ?case using Cons by (subst read_line.simps) (simp add: conn)
    qed
    with Nil p assms True show ?thesis by simp
  qed
next
  case False
  show ?thesis
  proof (cases "cn_closed c")
    case True
    then have "read_line [] 0 c = None"
      using read_line_stuck [of "[]" 0 c] assms False by (cases "read_line [] 0 c") auto
    then show ?thesis using True False by simp
  next
    case open_conn: False
    then show ?thesis using read_line_timeout [OF assms False] by fastforce
  qed
qed

lemma read_line_returns_iff_witness:
  "read_line [] 0 \<lparr>cn_peer = (), cn_incoming = [str ''+O'', str ''K''], cn_closed = True\<rparr> = None"
  using read_line_returns_iff [of "\<lparr>cn_peer = (), cn_incoming = [str ''+O'', str ''K''], cn_closed = True\<rparr>"]
  by (auto simp: wf_conn_def unread_def str_def)

section \<open>Responses are read back as they were sent\<close>

lemma conn_read_exact_all:
  assumes "wf_conn c" "got \<le> length buf" "length buf - got \<le> length (unread c)"
  shows "conn_read_exact got buf c =
    (Ok (take got buf @ take (length buf - got) (unread c)), advance (length buf - got) c)"
  using assms
proof (induction "length buf - got" arbitrary: got buf c rule: less_induct)
  case less
  show ?case
  proof (cases "got < length buf")
    case False
    with less.prems show ?thesis by (subst conn_read_exact.simps) (simp add: conn)
  next
    case True
    then have "unread c \<noteq> []" "drop got buf \<noteq> []" using less.prems by auto
    from do_read_some [OF less.prems(1) this] obtain n where n: "0 < n" "n \<le> length buf - got" "n \<le> length (unread c)"
      and r: "do_read (drop got buf) c = (Ok n, take n (unread c) @ drop n (drop got buf), advance n c)"
      by auto
    define buf' where "buf' = take got buf @ take n (unread c) @ drop n (drop got buf)"
    have l: "length buf' = length buf" using n True by (simp add: buf'_def)
    have "conn_read_exact (got + n) buf' (advance n c) =
        (Ok (take (got + n) buf' @ take (length buf' - (got + n)) (unread (advance n c))),
         advance (length buf' - (got + n)) (advance n c))"
      using n less.prems True l by (intro less.hyps) (simp_all add: conn)
    also have "take (got + n) buf' = take got buf @ take n (unread c)"
      using n True by (simp add: buf'_def)
    also have "take (length buf' - (got + n)) (unread (advance n c)) =
        drop n (take (length buf - got) (unread c))"
      using n l by (simp add: conn drop_take)
    finally have "conn_read_exact (got + n) buf' (advance n c) =
        (Ok (take got buf @ take (length buf - got) (unread c)), advance (length buf - got) c)"
      using n l append_take_drop_id [of n "take (length buf - got) (unread c)"] by (simp add: conn min_def)
    then show ?thesis
      using True r n by (subst conn_read_exact.simps) (simp add: buf'_def)
  qed
qed

text \<open>A server's encoding of a response, and the responses that a server can send.\<close>

fun resp_encode :: "RedisValue \<Rightarrow> bytes" where
  "resp_encode (SimpleString s) = 0x2B # s @ line_end"
| "resp_encode (RedisErr s) = 0x2D # s @ line_end"
| "resp_encode (Integer i) = 0x3A # dec_int i @ line_end"
| "resp_encode (BulkString None) = str ''$-1'' @ line_end"
| "resp_encode (BulkString (Some s)) = encode_bulk s"
| "resp_encode (Array vs) = 0x2A # dec (length vs) @ line_end @ concat (map resp_encode vs)"
| "resp_encode Nil = str ''$-1'' @ line_end"

fun readable :: "memory \<Rightarrow> RedisValue \<Rightarrow> bool" where
  "readable mem (SimpleString s) = (13 \<notin> set s \<and> utf8_valid s)"
| "readable mem (RedisErr s) = (13 \<notin> set s \<and> utf8_valid s)"
| "readable mem (Integer i) = (- (2 ^ 63) \<le> i \<and> i < 2 ^ 63)"
| "readable mem (BulkString None) = False"
| "readable mem (BulkString (Some s)) = (length s < 2 ^ 63 \<and> mem_bytes mem (length s) \<and> utf8_valid s)"
| "readable mem (Array vs) = (length vs < 2 ^ 63 \<and> mem_values mem (length vs) \<and> list_all (readable mem) vs)"
| "readable mem Nil = True"

lemma parse_i64_dec_int: "- (2 ^ 63) \<le> i \<Longrightarrow> i < 2 ^ 63 \<Longrightarrow> parse_i64 (dec_int i) = Some i"
  by (simp add: parse_i64_def parse_dec_int i128_range_def)

lemma parse_i64_dec: "n < 2 ^ 63 \<Longrightarrow> parse_i64 (dec n) = Some (int n)"
  using parse_i64_dec_int [of "int n"] by (simp add: dec_int_def)

lemma dec_chars: "c \<in> set (dec n) \<Longrightarrow> 48 \<le> c \<and> c \<le> 57"
  using dec_digits [of n] by (auto simp: list_all_iff is_digit_def)

lemma digit_range: "48 \<le> (c :: u8) \<and> c \<le> 57 \<Longrightarrow> c < 0x80 \<and> c \<noteq> 13"
  by (auto simp: word_le_nat_alt word_less_nat_alt)

lemma dec_line [simp]: "13 \<notin> set (dec n)" "utf8_lossy (dec n) = dec n"
proof -
  show "13 \<notin> set (dec n)" using dec_chars [of 13 n] digit_range [of 13] by auto
  have "utf8_valid (dec n)"
    using dec_chars digit_range by (intro ascii_valid) (fastforce simp: list_all_iff)
  then show "utf8_lossy (dec n) = dec n" by (rule utf8_lossy_valid)
qed

lemma dec_int_line [simp]: "13 \<notin> set (dec_int i)" "utf8_lossy (dec_int i) = dec_int i"
proof -
  show "13 \<notin> set (dec_int i)" by (simp add: dec_int_def)
  have "utf8_valid (dec_int i)"
    using dec_chars digit_range by (intro ascii_valid) (fastforce simp: list_all_iff dec_int_def)
  then show "utf8_lossy (dec_int i) = dec_int i" by (rule utf8_lossy_valid)
qed

text \<open>A response whose line is \<open>line\<close>: after its kind and the line, the rest of the input remains.\<close>

lemma head_line:
  assumes "wf_conn c" "unread c = k # line @ line_end @ rest" "13 \<notin> set line"
  shows "do_read [0] c = (Ok 1, [k], advance 1 c)"
    and "read_line [] 0 (advance 1 c) = Some (Done (Ok (utf8_lossy line), advance (Suc (Suc (Suc (length line)))) c))"
proof -
  show "do_read [0] c = (Ok 1, [k], advance 1 c)" using assms by (intro do_read_byte) auto
  have "read_line [] 0 (advance 1 c) =
      Some (Done (Ok (utf8_lossy ([] @ line)), advance (length line + 2) (advance 1 c)))"
    using assms by (intro read_line_found [where rest = rest and x = 10]) (simp_all add: conn line_end_def)
  then show "read_line [] 0 (advance 1 c) = Some (Done (Ok (utf8_lossy line), advance (Suc (Suc (Suc (length line)))) c))"
    by (simp add: conn)
qed

lemma read_bulk_data:
  assumes "wf_conn c" "unread c = s @ line_end @ rest" "mem_bytes mem (length s)" "utf8_valid s"
  shows "read_bulk mem (length s) c = Some (Done (Ok (Whole (BulkString (Some s))), advance (length s + 2) c))"
proof -
  have a: "conn_read_exact 0 (replicate (length s) 0) c = (Ok s, advance (length s) c)"
    using assms by (subst conn_read_exact_all) simp_all
  have b: "conn_read_exact 0 [0, 0] (advance (length s) c) = (Ok line_end, advance 2 (advance (length s) c))"
    using assms by (subst conn_read_exact_all) (simp_all add: conn line_end_def)
  show ?thesis
    using a b assms by (simp add: read_bulk_def rret_def utf8_lossy_valid conn)
qed

lemma read_head_leaf:
  assumes "wf_conn c" "unread c = resp_encode v @ rest" "readable mem v" "\<And>vs. v \<noteq> Array vs"
  shows "read_head mem c = Some (Done (Ok (Whole v), advance (length (resp_encode v)) c))"
proof (cases v)
  case (SimpleString s)
  with assms have "unread c = 0x2B # s @ line_end @ rest" "13 \<notin> set s" "utf8_valid s" by simp_all
  from head_line [OF assms(1) this(1,2)] this show ?thesis
    by (simp add: SimpleString read_head_def rbind_Done rret_def utf8_lossy_valid line_end_def)
next
  case (RedisErr s)
  with assms have "unread c = 0x2D # s @ line_end @ rest" "13 \<notin> set s" "utf8_valid s" by simp_all
  from head_line [OF assms(1) this(1,2)] this show ?thesis
    by (simp add: RedisErr read_head_def rbind_Done rret_def utf8_lossy_valid line_end_def)
next
  case (Integer i)
  with assms have "unread c = 0x3A # dec_int i @ line_end @ rest" "parse_i64 (dec_int i) = Some i"
    by (simp_all add: parse_i64_dec_int)
  from head_line [OF assms(1) this(1)] this show ?thesis
    by (simp add: Integer read_head_def rbind_Done rret_def line_end_def)
next
  case Nil
  have "unread c = 0x24 # str ''-1'' @ line_end @ rest" "13 \<notin> set (str ''-1'')" "utf8_lossy (str ''-1'') = str ''-1''"
    "parse_i64 (str ''-1'') = Some (- 1)"
    using assms(2) by (simp add: Nil str_def) (simp add: str_def, code_simp, code_simp)
  from head_line [OF assms(1) this(1,2)] this show ?thesis
    by (simp add: Nil read_head_def rbind_Done rret_def line_end_def)
next
  case (BulkString t)
  with assms(3) obtain s where s: "t = Some s" "length s < 2 ^ 63" "mem_bytes mem (length s)" "utf8_valid s"
    by (cases t) auto
  with assms(2) BulkString have p: "unread c = 0x24 # dec (length s) @ line_end @ s @ line_end @ rest"
    by (simp add: encode_bulk_def)
  define c1 where "c1 = advance (Suc (Suc (Suc (length (dec (length s)))))) c"
  have "wf_conn c1" "unread c1 = s @ line_end @ rest"
    using assms(1) p by (simp_all add: c1_def conn line_end_def)
  from read_bulk_data [OF this s(3,4)]
  have "read_bulk mem (length s) c1 =
      Some (Done (Ok (Whole v), advance (length (resp_encode v)) c))"
    by (simp add: c1_def conn BulkString s(1) encode_bulk_def line_end_def add.commute)
  with head_line [OF assms(1) p] s show ?thesis
    by (simp add: read_head_def rbind_Done parse_i64_dec c1_def)
next
  case (Array vs)
  with assms(4) show ?thesis by blast
qed

lemma read_head_array:
  assumes "wf_conn c" "unread c = resp_encode (Array vs) @ rest" "readable mem (Array vs)"
  shows "read_head mem c = Some (Done (Ok (Items (length vs)), advance (Suc (Suc (Suc (length (dec (length vs)))))) c))"
proof -
  have "unread c = 0x2A # dec (length vs) @ line_end @ concat (map resp_encode vs) @ rest"
    using assms(2) by simp
  from head_line [OF assms(1) this] assms(3) show ?thesis
    by (simp add: read_head_def rbind_Done rret_def parse_i64_dec)
qed

lemma read_values_all:
  assumes "wf_conn c" "unread c = concat (map resp_encode vs) @ rest" "list_all (readable mem) vs"
  shows "read_values mem (length vs) c =
    Some (Done (Ok vs, advance (length (concat (map resp_encode vs))) c))"
  using assms
proof (induction "size_list size vs" arbitrary: vs c rest rule: less_induct)
  case less
  show ?case
  proof (cases vs)
    case Nil
    then show ?thesis using less.prems by (subst read_values.simps) (simp add: conn)
  next
    case (Cons v ws)
    have r: "readable mem v" "list_all (readable mem) ws" using less.prems Cons by simp_all
    have p: "unread c = resp_encode v @ concat (map resp_encode ws) @ rest" using less.prems Cons by simp
    have tail: "read_values mem (length ws) (advance (length (resp_encode v)) c) =
        Some (Done (Ok ws, advance (length (concat (map resp_encode vs))) c))"
      using less.hyps [of ws "advance (length (resp_encode v)) c" rest] less.prems r p
      by (simp add: Cons conn)
    show ?thesis
    proof (cases "\<exists>items. v = Array items")
      case False
      with read_head_leaf [OF less.prems(1) p r(1)] tail show ?thesis
        by (subst read_values.simps) (simp add: Cons)
    next
      case True
      then obtain items where v: "v = Array items" by blast
      define c1 where "c1 = advance (Suc (Suc (Suc (length (dec (length items)))))) c"
      have "read_values mem (length items) c1 =
          Some (Done (Ok items, advance (length (concat (map resp_encode items))) c1))"
        using less.prems p r
        by (intro less.hyps [where rest = "concat (map resp_encode ws) @ rest"])
          (simp_all add: Cons v c1_def conn line_end_def)
      also have "advance (length (concat (map resp_encode items))) c1 = advance (length (resp_encode v)) c"
        by (simp add: c1_def conn v line_end_def)
      finally show ?thesis
        using read_head_array [OF less.prems(1) p [unfolded v] r(1) [unfolded v]] tail
        by (subst read_values.simps) (simp add: Cons v c1_def)
    qed
  qed
qed

text \<open>C18: A response is read back exactly as the server sent it, in whatever segments it arrives and whatever
  follows it: for every response whose texts are UTF-8 (and have no carriage return where they are lines)
  and whose sizes can be allocated, reading returns it and consumes its encoding and nothing else.\<close>
theorem response_roundtrip:
  assumes "wf_conn c" "unread c = resp_encode v @ rest" "readable mem v"
  shows "read_response mem c = Some (Done (Ok v, advance (length (resp_encode v)) c))"
  using read_values_all [of c "[v]" rest mem] assms
  by (simp add: read_response_def rbind_Done rret_def)

lemma response_roundtrip_witness:
  "read_response \<lparr>mem_bytes = (\<lambda>n. n < 100), mem_values = (\<lambda>n. n < 10)\<rparr>
     \<lparr>cn_peer = (), cn_incoming = [str ''*2'', [13, 10, 36, 49, 13], [10, 97, 13, 10, 58], [55, 13, 10, 43]], cn_closed = False\<rparr>
   = Some (Done (Ok (Array [BulkString (Some (str ''a'')), Integer 7]),
       \<lparr>cn_peer = (), cn_incoming = [[43]], cn_closed = False\<rparr>))"
proof -
  have dec_small: "dec (Suc (Suc 0)) = [50]" "dec (Suc 0) = [49]" "dec 7 = [55]" by code_simp+
  have u: "utf8_valid [97]" by code_simp
  show ?thesis
    using response_roundtrip [of "\<lparr>cn_peer = (), cn_incoming = [str ''*2'', [13, 10, 36, 49, 13],
        [10, 97, 13, 10, 58], [55, 13, 10, 43]], cn_closed = False\<rparr>"
      "Array [BulkString (Some (str ''a'')), Integer 7]" "[43]" "\<lparr>mem_bytes = (\<lambda>n. n < 100), mem_values = (\<lambda>n. n < 10)\<rparr>"]
    by (simp add: wf_conn_def unread_def str_def encode_bulk_def line_end_def u dec_int_def advance_def
        dec_small)
qed

section \<open>Commands are unambiguous\<close>

context prefix_code
begin

lemma list_split:
  "length xs = length ys \<Longrightarrow> list_all valid xs \<Longrightarrow> list_all valid ys \<Longrightarrow>
   concat (map enc xs) @ r = concat (map enc ys) @ s \<Longrightarrow> xs = ys \<and> r = s"
proof (induction xs ys rule: list_induct2)
  case (Cons x xs y ys)
  then have "x = y \<and> concat (map enc xs) @ r = concat (map enc ys) @ s"
    using split [of x y "concat (map enc xs) @ r" "concat (map enc ys) @ s"] by simp
  with Cons show ?case by simp
qed simp

lemma concat_injective:
  assumes "\<And>x. enc x \<noteq> []"
  shows "list_all valid xs \<Longrightarrow> list_all valid ys \<Longrightarrow> concat (map enc xs) = concat (map enc ys) \<Longrightarrow> xs = ys"
proof (induction xs arbitrary: ys)
  case Nil
  then show ?case using assms by (cases ys) simp_all
next
  case (Cons x xs)
  then have "concat (map enc ys) \<noteq> []" using assms by (metis Nil_is_append_conv concat.simps(2) list.simps(9))
  then obtain y zs where ys: "ys = y # zs" by (cases ys) simp_all
  with Cons have "x = y \<and> concat (map enc xs) = concat (map enc zs)" by (intro split) simp_all
  with Cons.prems ys Cons.IH [of zs] show ?case by simp
qed

end

lemma first_cr: "13 \<notin> set x \<Longrightarrow> 13 \<notin> set y \<Longrightarrow> x @ (13 :: u8) # u = y @ 13 # v \<Longrightarrow> x = y \<and> u = v"
proof (induction x arbitrary: y)
  case Nil
  then show ?case by (cases y) auto
next
  case (Cons a x)
  then show ?case by (cases y) auto
qed

lemma dec_line_split: "dec m @ line_end @ r = dec n @ line_end @ s \<Longrightarrow> m = n \<and> r = s"
  using first_cr [of "dec m" "dec n" "10 # r" "10 # s"] dec_inj by (auto simp: line_end_def)

interpretation bulk: prefix_code encode_bulk "\<lambda>_. True"
proof
  fix a b r s
  assume "encode_bulk a @ r = encode_bulk b @ s"
  then have "dec (length a) @ line_end @ (a @ line_end @ r) = dec (length b) @ line_end @ (b @ line_end @ s)"
    by (simp add: encode_bulk_def)
  then have "length a = length b \<and> a @ line_end @ r = b @ line_end @ s" by (rule dec_line_split)
  then show "a = b \<and> r = s" by auto
qed

interpretation cmd: prefix_code encode_command "\<lambda>_. True"
proof
  fix a b r s
  assume "encode_command a @ r = encode_command b @ s"
  then have "dec (length a) @ line_end @ (concat (map encode_bulk a) @ r) =
      dec (length b) @ line_end @ (concat (map encode_bulk b) @ s)"
    by (simp add: encode_command_def)
  then have "length a = length b \<and> concat (map encode_bulk a) @ r = concat (map encode_bulk b) @ s"
    by (rule dec_line_split)
  then show "a = b \<and> r = s" using bulk.list_split [of a b r s] by (simp add: list_all_iff)
qed

text \<open>What is sent to Redis determines the commands and their arguments: two sequences of commands with
  the same bytes are equal, whatever bytes the arguments hold, so no value can be read as another
  argument or command.\<close>
theorem pipeline_injective: "encode_pipeline cs = encode_pipeline ds \<longleftrightarrow> cs = ds"
  using cmd.concat_injective [of cs ds] by (auto simp: encode_pipeline_def encode_command_def list_all_iff)

end
