(* ===== verification/RedisStore.thy ===== *)
theory RedisStore
  imports RedisWire Blockchain
begin

text \<open>
  The block store of \<open>src/sgx_vm/src/redis_store.rs\<close>: configurations, connecting, the commands, the
  search for the latest block of a tenant, and the insertion of a block. The operations work over any
  world \<open>'c\<close> that answers commands (\<open>RedisOps\<close>); \<open>wire_ops\<close> is the one of the wire protocol. TCP,
  certificates and the TLS handshake are parameters.
\<close>

section \<open>Configuration\<close>

record RedisConfig =
  rc_host :: bytes
  rc_port :: u16
  rc_username :: "bytes option"
  rc_password :: "bytes option"
  rc_db :: u8
  rc_use_tls :: bool
  rc_ca_cert :: "bytes option"

definition config_new :: "bytes \<Rightarrow> u16 \<Rightarrow> RedisConfig" where
  "config_new host port =
     \<lparr>rc_host = host, rc_port = port, rc_username = None, rc_password = None, rc_db = 0,
      rc_use_tls = False, rc_ca_cert = None\<rparr>"

definition with_password :: "bytes \<Rightarrow> RedisConfig \<Rightarrow> RedisConfig" where
  "with_password password c = c\<lparr>rc_password := Some password\<rparr>"

definition with_auth :: "bytes \<Rightarrow> bytes \<Rightarrow> RedisConfig \<Rightarrow> RedisConfig" where
  "with_auth username password c = c\<lparr>rc_username := Some username, rc_password := Some password\<rparr>"

definition with_db :: "u8 \<Rightarrow> RedisConfig \<Rightarrow> RedisConfig" where
  "with_db db c = c\<lparr>rc_db := db\<rparr>"

definition new_with_tls :: "bytes \<Rightarrow> u16 \<Rightarrow> bytes \<Rightarrow> RedisConfig" where
  "new_with_tls host port ca_cert =
     \<lparr>rc_host = host, rc_port = port, rc_username = None, rc_password = None, rc_db = 0,
      rc_use_tls = True, rc_ca_cert = Some ca_cert\<rparr>"

definition new_with_tls_auth :: "bytes \<Rightarrow> u16 \<Rightarrow> bytes \<Rightarrow> bytes \<Rightarrow> bytes \<Rightarrow> RedisConfig" where
  "new_with_tls_auth host port ca_cert username password =
     \<lparr>rc_host = host, rc_port = port, rc_username = Some username, rc_password = Some password, rc_db = 0,
      rc_use_tls = True, rc_ca_cert = Some ca_cert\<rparr>"

definition addr :: "RedisConfig \<Rightarrow> bytes" where
  "addr c = rc_host c @ str '':'' @ dec (unat (rc_port c))"

section \<open>Connecting\<close>

text \<open>
  The world: opening a TCP connection to an address, parsing a CA certificate, the TLS handshake, one
  command, and a pipeline of commands.
\<close>

record 'c RedisOps =
  ro_tcp :: "bytes \<Rightarrow> 'c \<Rightarrow> (bytes, unit) result \<times> 'c"
  ro_cert :: "bytes \<Rightarrow> (bytes, unit) result"
  ro_handshake :: "'c \<Rightarrow> (bytes, unit) result \<times> 'c"
  ro_command :: "bytes list \<Rightarrow> ('c, RedisValue) redis"
  ro_pipeline :: "bytes list list \<Rightarrow> ('c, RedisValue list) redis"

definition wire_ops ::
  "(bytes \<Rightarrow> 'p Conn \<Rightarrow> (bytes, unit) result \<times> 'p Conn) \<Rightarrow> (bytes \<Rightarrow> (bytes, unit) result) \<Rightarrow>
   ('p Conn \<Rightarrow> (bytes, unit) result \<times> 'p Conn) \<Rightarrow> memory \<Rightarrow> 'p peer \<Rightarrow> 'p Conn RedisOps" where
  "wire_ops tcp cert handshake mem peer =
     \<lparr>ro_tcp = tcp, ro_cert = cert, ro_handshake = handshake, ro_command = command mem peer,
      ro_pipeline = pipeline mem peer\<rparr>"

text \<open>A step whose error text becomes a \<open>ConnectionFailed\<close>.\<close>

definition connecting :: "bytes \<Rightarrow> ('c \<Rightarrow> (bytes, unit) result \<times> 'c) \<Rightarrow> ('c, unit) redis" where
  "connecting what m c =
     (case m c of
        (Err e, c) \<Rightarrow> rfail (ConnectionFailed (what @ e)) c
      | (Ok _, c) \<Rightarrow> rret () c)"

definition expect_ok :: "(RedisValue \<Rightarrow> RedisError) \<Rightarrow> RedisValue \<Rightarrow> ('c, unit) redis" where
  "expect_ok err resp = (if value_is_ok resp then rret () else rfail (err resp))"

definition authenticate_redis :: "'c RedisOps \<Rightarrow> RedisConfig \<Rightarrow> ('c, unit) redis" where
  "authenticate_redis ops config =
     (case (rc_username config, rc_password config) of
        (Some username, Some password) \<Rightarrow>
          rbind (ro_command ops [str ''AUTH'', username, password])
            (expect_ok (\<lambda>resp. AuthFailed (Showing (str ''ACL auth failed: '') resp)))
      | (None, Some password) \<Rightarrow>
          rbind (ro_command ops [str ''AUTH'', password])
            (expect_ok (\<lambda>resp. AuthFailed (Showing [] resp)))
      | _ \<Rightarrow> rret ())"

definition init :: "'c RedisOps \<Rightarrow> RedisConfig \<Rightarrow> ('c, unit) redis" where
  "init ops config =
     rbind (authenticate_redis ops config) (\<lambda>_.
       if rc_db config > 0 then
         rbind (ro_command ops [str ''SELECT'', dec (unat (rc_db config))])
           (expect_ok (\<lambda>resp. CommandFailed (Showing (str ''SELECT failed: '') resp)))
       else rret ())"

definition connect_plain :: "'c RedisOps \<Rightarrow> RedisConfig \<Rightarrow> ('c, unit) redis" where
  "connect_plain ops config =
     rbind (connecting [] (ro_tcp ops (addr config))) (\<lambda>_. init ops config)"

definition connect_tls :: "'c RedisOps \<Rightarrow> RedisConfig \<Rightarrow> ('c, unit) redis" where
  "connect_tls ops config =
     rbind (connecting [] (ro_tcp ops (addr config))) (\<lambda>_.
       case rc_ca_cert config of
         None \<Rightarrow> rfail (ConnectionFailed (str ''CA certificate required for TLS''))
       | Some ca_pem \<Rightarrow>
           rbind (connecting (str ''Invalid CA certificate: '') (\<lambda>c. (ro_cert ops (ca_pem @ [0]), c))) (\<lambda>_.
           rbind (connecting (str ''TLS handshake failed: '') (ro_handshake ops)) (\<lambda>_.
             init ops config)))"

definition connect :: "'c RedisOps \<Rightarrow> RedisConfig \<Rightarrow> ('c, unit) redis" where
  "connect ops config = (if rc_use_tls config then connect_tls ops config else connect_plain ops config)"

text \<open>The build without mbedTLS connects in the clear, whatever the configuration says.\<close>

definition connect_without_mbedtls :: "'c RedisOps \<Rightarrow> RedisConfig \<Rightarrow> ('c, unit) redis" where
  "connect_without_mbedtls ops config =
     rbind (connecting [] (ro_tcp ops (addr config))) (\<lambda>_. init ops config)"

section \<open>Commands\<close>

text \<open>\<open>resp.as_int().ok_or_else(...)\<close>\<close>

definition expect_int :: "bytes \<Rightarrow> RedisValue \<Rightarrow> ('c, int) redis" where
  "expect_int what resp =
     (case as_int resp of
        Some i \<Rightarrow> rret i
      | None \<Rightarrow> rfail (CommandFailed (Showing (what @ str '' failed: '') resp)))"

definition ping :: "'c RedisOps \<Rightarrow> ('c, bool) redis" where
  "ping ops = rbind (ro_command ops [str ''PING'']) (\<lambda>resp. rret (resp = SimpleString (str ''PONG'')))"

definition redis_set :: "'c RedisOps \<Rightarrow> bytes \<Rightarrow> bytes \<Rightarrow> ('c, bool) redis" where
  "redis_set ops key v = rbind (ro_command ops [str ''SET'', key, v]) (\<lambda>resp. rret (value_is_ok resp))"

definition redis_get :: "'c RedisOps \<Rightarrow> bytes \<Rightarrow> ('c, bytes option) redis" where
  "redis_get ops key = rbind (ro_command ops [str ''GET'', key]) (\<lambda>resp. rret (as_string resp))"

definition hset :: "'c RedisOps \<Rightarrow> bytes \<Rightarrow> (bytes \<times> bytes) list \<Rightarrow> ('c, int) redis" where
  "hset ops key entries =
     rbind (ro_command ops ([str ''HSET'', key] @ concat (map (\<lambda>(field, v). [field, v]) entries)))
       (expect_int (str ''HSET''))"

definition rpush :: "'c RedisOps \<Rightarrow> bytes \<Rightarrow> bytes list \<Rightarrow> ('c, int) redis" where
  "rpush ops key vs = rbind (ro_command ops ([str ''RPUSH'', key] @ vs)) (expect_int (str ''RPUSH''))"

definition incr :: "'c RedisOps \<Rightarrow> bytes \<Rightarrow> ('c, int) redis" where
  "incr ops key = rbind (ro_command ops [str ''INCR'', key]) (expect_int (str ''INCR''))"

definition hget :: "'c RedisOps \<Rightarrow> bytes \<Rightarrow> bytes \<Rightarrow> ('c, bytes option) redis" where
  "hget ops key field = rbind (ro_command ops [str ''HGET'', key, field]) (\<lambda>resp. rret (as_string resp))"

text \<open>Pairs of items; an odd last one is dropped, and so are pairs that are not texts.\<close>

fun pairs_of :: "RedisValue list \<Rightarrow> (bytes \<times> bytes) list" where
  "pairs_of (k # v # rest) =
     (case (as_string k, as_string v) of
        (Some key, Some val) \<Rightarrow> (key, val) # pairs_of rest
      | _ \<Rightarrow> pairs_of rest)"
| "pairs_of _ = []"

definition hgetall :: "'c RedisOps \<Rightarrow> bytes \<Rightarrow> ('c, (bytes \<times> bytes) list) redis" where
  "hgetall ops key =
     rbind (ro_command ops [str ''HGETALL'', key])
       (\<lambda>resp. rret (case resp of Array arr \<Rightarrow> pairs_of arr | _ \<Rightarrow> []))"

definition redis_keys :: "'c RedisOps \<Rightarrow> bytes \<Rightarrow> ('c, bytes list) redis" where
  "redis_keys ops pattern =
     rbind (ro_command ops [str ''KEYS'', pattern])
       (\<lambda>resp. rret (case resp of Array arr \<Rightarrow> List.map_filter as_string arr | _ \<Rightarrow> []))"

section \<open>The latest block\<close>

text \<open>One key of the search: a block of the tenant with a larger number becomes the latest.\<close>

definition consider_key ::
  "'c RedisOps \<Rightarrow> bytes \<Rightarrow> bytes \<Rightarrow> (u64 \<times> bytes) option \<Rightarrow> ('c, (u64 \<times> bytes) option) redis" where
  "consider_key ops vm_name key latest =
     rbind (hget ops key (str ''vm_name'')) (\<lambda>stored_vm.
       if stored_vm = Some vm_name then
         rbind (hget ops key (str ''block_number'')) (\<lambda>text.
           case text of
             None \<Rightarrow> rret latest
           | Some block_num_str \<Rightarrow>
               (case parse_u64 block_num_str of
                  None \<Rightarrow> rret latest
                | Some block_num \<Rightarrow>
                    rret (case latest of
                            None \<Rightarrow> Some (block_num, key)
                          | Some (n, k) \<Rightarrow> (if block_num > n then Some (block_num, key) else latest))))
       else rret latest)"

fun search_keys ::
  "'c RedisOps \<Rightarrow> bytes \<Rightarrow> bytes list \<Rightarrow> (u64 \<times> bytes) option \<Rightarrow> ('c, (u64 \<times> bytes) option) redis" where
  "search_keys ops vm_name [] latest = rret latest"
| "search_keys ops vm_name (key # ks) latest =
     rbind (consider_key ops vm_name key latest) (search_keys ops vm_name ks)"

text \<open>The stored root, or zeros when it is absent or not 32 bytes in hexadecimal.\<close>

definition root_of_text :: "(bytes \<Rightarrow> (bytes, bytes) result) \<Rightarrow> bytes option \<Rightarrow> bytes" where
  "root_of_text hexdec text =
     (case text of
        None \<Rightarrow> zero_hash
      | Some chained_root_hex \<Rightarrow>
          (case hexdec chained_root_hex of
             Err _ \<Rightarrow> zero_hash
           | Ok bs \<Rightarrow> (if length bs = 32 then bs else zero_hash)))"

definition get_latest_block_state ::
  "'c RedisOps \<Rightarrow> (bytes \<Rightarrow> (bytes, bytes) result) \<Rightarrow> bytes \<Rightarrow> ('c, (u64 \<times> bytes) option) redis" where
  "get_latest_block_state ops hexdec vm_name =
     rbind (redis_keys ops (str ''block:*'')) (\<lambda>block_keys.
       if block_keys = [] then rret None
       else
         rbind (search_keys ops vm_name block_keys None) (\<lambda>latest.
           case latest of
             None \<Rightarrow> rret None
           | Some (block_num, key) \<Rightarrow>
               rbind (hget ops key (str ''chained_root'')) (\<lambda>text.
                 rret (Some (block_num, root_of_text hexdec text)))))"

section \<open>Inserting a block\<close>

fun chunks_of :: "nat \<Rightarrow> 'a list \<Rightarrow> 'a list list" where
  "chunks_of n xs = (if xs = [] \<or> n = 0 then [] else take n xs # chunks_of n (drop n xs))"

declare chunks_of.simps [simp del]

definition chrono_timestamp :: bytes where
  "chrono_timestamp = str ''2026-02-13T00:00:00Z''"

definition block_fields :: "(bytes \<Rightarrow> bytes) \<Rightarrow> Block \<Rightarrow> (bytes \<times> bytes) list" where
  "block_fields hexenc b =
     [(str ''block_number'', dec_u64 (bk_block_number b)),
      (str ''merkle_root'', hexenc (bk_merkle_root b)),
      (str ''prev_chained_root'', hexenc (bk_prev_chained_root b)),
      (str ''chained_root'', hexenc (bk_chained_root b)),
      (str ''record_count'', dec (unat (bk_record_count b))),
      (str ''tree_height'', dec (bk_tree_height b)),
      (str ''vm_name'', bk_vm_name b),
      (str ''created_at'', chrono_timestamp)]"

definition record_text :: "bytes \<Rightarrow> EnergyRecord \<Rightarrow> bytes" where
  "record_text leaf_hash r =
     leaf_hash @ str ''|'' @ dec (unat (er_pid r)) @ str ''|'' @ show_f64 (er_cpu_time r) @ str ''|''
     @ show_f64 (er_energy_joules r) @ str ''|'' @ show_f64 (er_power_watts r) @ str ''|''
     @ er_vm_name r @ str ''|'' @ er_timestamp r"

definition leaf_text :: "(bytes \<Rightarrow> bytes) \<Rightarrow> bytes list \<Rightarrow> nat \<Rightarrow> bytes" where
  "leaf_text hexenc leaf_hashes i = (if i < length leaf_hashes then hexenc (leaf_hashes ! i) else [])"

definition STORE_BATCH :: nat where
  "STORE_BATCH = 100"

text \<open>One \<open>RPUSH\<close> per chunk of records, with the running index of the leaf hashes.\<close>

fun record_commands :: "(bytes \<Rightarrow> bytes) \<Rightarrow> bytes \<Rightarrow> bytes list \<Rightarrow> nat \<Rightarrow> EnergyRecord list list \<Rightarrow> bytes list list" where
  "record_commands hexenc records_key leaf_hashes i [] = []"
| "record_commands hexenc records_key leaf_hashes i (chunk # rest) =
     ([str ''RPUSH'', records_key]
      @ map (\<lambda>(j, r). record_text (leaf_text hexenc leaf_hashes j) r) (enumerate i chunk))
     # record_commands hexenc records_key leaf_hashes (i + length chunk) rest"

definition node_fields :: "(bytes \<Rightarrow> bytes) \<Rightarrow> MerkleNode \<Rightarrow> bytes list" where
  "node_fields hexenc n =
     (let child = (\<lambda>h. case h of Some h \<Rightarrow> hexenc h | None \<Rightarrow> [])
      in [dec (unat (mn_level n)) @ str '':'' @ dec (unat (mn_position n)),
          hexenc (mn_hash n) @ str ''|'' @ child (mn_left_child n) @ str ''|'' @ child (mn_right_child n)])"

definition node_commands :: "(bytes \<Rightarrow> bytes) \<Rightarrow> bytes \<Rightarrow> MerkleNode list \<Rightarrow> bytes list list" where
  "node_commands hexenc merkle_key nodes =
     map (\<lambda>chunk. [str ''HSET'', merkle_key] @ concat (map (node_fields hexenc) chunk))
       (chunks_of STORE_BATCH nodes)"

definition pipeline_nonempty :: "'c RedisOps \<Rightarrow> bytes list list \<Rightarrow> ('c, unit) redis" where
  "pipeline_nonempty ops commands =
     (if commands = [] then rret () else rbind (ro_pipeline ops commands) (\<lambda>_. rret ()))"

definition insert_block :: "'c RedisOps \<Rightarrow> (bytes \<Rightarrow> bytes) \<Rightarrow> Block \<Rightarrow> ('c, int) redis" where
  "insert_block ops hexenc b =
     rbind (incr ops (str ''block_counter'')) (\<lambda>block_id.
     rbind (hset ops (str ''block:'' @ dec_int block_id) (block_fields hexenc b)) (\<lambda>_.
     rbind (pipeline_nonempty ops
              (record_commands hexenc (str ''records:'' @ dec_int block_id) (bk_leaf_hashes b) 0
                 (chunks_of STORE_BATCH (bk_records b)))) (\<lambda>_.
     rbind (pipeline_nonempty ops
              (node_commands hexenc (str ''merkle:'' @ dec_int block_id) (bk_internal_nodes b))) (\<lambda>_.
       rret block_id))))"

section \<open>The search finds the largest block number\<close>

text \<open>A store that answers the two reading commands from the keys \<open>ks\<close> and the fields \<open>view\<close>.\<close>

definition text_value :: "bytes option \<Rightarrow> RedisValue" where
  "text_value t = (case t of Some v \<Rightarrow> BulkString (Some v) | None \<Rightarrow> Nil)"

definition answers_reads :: "'c RedisOps \<Rightarrow> 'c \<Rightarrow> bytes list \<Rightarrow> (bytes \<Rightarrow> bytes \<Rightarrow> bytes option) \<Rightarrow> bool" where
  "answers_reads ops c ks view \<longleftrightarrow>
     ro_command ops [str ''KEYS'', str ''block:*''] c =
       Some (Done (Ok (Array (map (\<lambda>k. BulkString (Some k)) ks)), c)) \<and>
     (\<forall>k f. ro_command ops [str ''HGET'', k, f] c = Some (Done (Ok (text_value (view k f)), c)))"

definition block_number_at :: "(bytes \<Rightarrow> bytes \<Rightarrow> bytes option) \<Rightarrow> bytes \<Rightarrow> bytes \<Rightarrow> u64 option" where
  "block_number_at view vm_name key =
     (if view key (str ''vm_name'') = Some vm_name
      then Option.bind (view key (str ''block_number'')) parse_u64 else None)"

definition better :: "(bytes \<Rightarrow> u64 option) \<Rightarrow> bytes \<Rightarrow> (u64 \<times> bytes) option \<Rightarrow> (u64 \<times> bytes) option" where
  "better num key latest =
     (case num key of
        None \<Rightarrow> latest
      | Some block_num \<Rightarrow>
          (case latest of
             None \<Rightarrow> Some (block_num, key)
           | Some (n, k) \<Rightarrow> (if block_num > n then Some (block_num, key) else latest)))"

lemma as_string_text [simp]: "as_string (text_value t) = t"
  by (cases t) (simp_all add: as_string_def text_value_def)

lemma map_filter_strings [simp]: "List.map_filter as_string (map (\<lambda>k. BulkString (Some k)) ks) = ks"
  by (induction ks) (simp_all add: List.map_filter_simps as_string_def)

lemma hget_reads: "answers_reads ops c ks view \<Longrightarrow> hget ops k f c = Some (Done (Ok (view k f), c))"
  by (simp add: hget_def answers_reads_def rbind_Done rret_def)

lemma keys_reads: "answers_reads ops c ks view \<Longrightarrow> redis_keys ops (str ''block:*'') c = Some (Done (Ok ks, c))"
  by (simp add: redis_keys_def answers_reads_def rbind_Done rret_def)

lemma consider_key_reads:
  assumes "answers_reads ops c ks view"
  shows "consider_key ops vm key latest c = Some (Done (Ok (better (block_number_at view vm) key latest), c))"
  using hget_reads [OF assms]
  by (auto simp: consider_key_def rbind_Done rret_def better_def block_number_at_def split: option.splits)

lemma search_keys_reads:
  assumes "answers_reads ops c ks view"
  shows "search_keys ops vm keys latest c =
    Some (Done (Ok (fold (better (block_number_at view vm)) keys latest), c))"
  using consider_key_reads [OF assms] by (induction keys arbitrary: latest) (simp_all add: rbind_Done rret_def)

lemma fold_better:
  "(case fold (better num) ks latest of
      None \<Rightarrow> latest = None \<and> (\<forall>k \<in> set ks. num k = None)
    | Some (n, k) \<Rightarrow>
        (latest = Some (n, k) \<or> k \<in> set ks \<and> num k = Some n) \<and>
        (\<forall>k \<in> set ks. \<forall>m. num k = Some m \<longrightarrow> m \<le> n) \<and>
        (\<forall>m k. latest = Some (m, k) \<longrightarrow> m \<le> n))"
proof (induction ks arbitrary: latest)
  case Nil
  show ?case by (auto split: option.split)
next
  case (Cons key ks)
  show ?case
    using Cons.IH [of "better num key latest"]
    by (fastforce simp: better_def split: option.splits prod.splits if_splits)
qed

lemma latest_block:
  assumes "answers_reads ops c ks view"
  shows "\<exists>latest. get_latest_block_state ops hexdec vm c = Some (Done (Ok latest, c)) \<and>
    (case latest of
       None \<Rightarrow> \<forall>k \<in> set ks. block_number_at view vm k = None
     | Some (n, head_root) \<Rightarrow>
         (\<exists>k \<in> set ks. block_number_at view vm k = Some n \<and>
            head_root = root_of_text hexdec (view k (str ''chained_root''))) \<and>
         (\<forall>k \<in> set ks. \<forall>m. block_number_at view vm k = Some m \<longrightarrow> m \<le> n))"
proof -
  define found where "found = fold (better (block_number_at view vm)) ks None"
  have "get_latest_block_state ops hexdec vm c = Some (Done (Ok
      (map_option (\<lambda>(n, key). (n, root_of_text hexdec (view key (str ''chained_root'')))) found), c))"
    using search_keys_reads [OF assms, of vm ks None] hget_reads [OF assms]
    by (simp add: get_latest_block_state_def keys_reads [OF assms] rbind_Done rret_def found_def
        split: option.split)
  moreover have "case found of
      None \<Rightarrow> \<forall>k \<in> set ks. block_number_at view vm k = None
    | Some (n, k) \<Rightarrow> k \<in> set ks \<and> block_number_at view vm k = Some n \<and>
        (\<forall>k \<in> set ks. \<forall>m. block_number_at view vm k = Some m \<longrightarrow> m \<le> n)"
    using fold_better [where num = "block_number_at view vm" and ks = ks and latest = None]
    by (cases found) (auto simp: found_def)
  ultimately show ?thesis by (cases found) auto
qed


section \<open>A restart resumes at the inserted block\<close>

text \<open>
  What Redis documents of the commands used: \<open>db c k\<close> is the hash stored under \<open>k\<close> (empty when there is
  none) and \<open>counter c\<close> the value of the block counter.
\<close>

definition block_key :: "bytes \<Rightarrow> bool" where
  "block_key k \<longleftrightarrow> starts_with (str ''block:'') k"

definition other_key :: "bytes list \<Rightarrow> bool" where
  "other_key cmd \<longleftrightarrow> 2 \<le> length cmd \<and> \<not> block_key (cmd ! 1)"

definition redis_documented ::
  "'c RedisOps \<Rightarrow> ('c \<Rightarrow> bytes \<Rightarrow> bytes \<rightharpoonup> bytes) \<Rightarrow> ('c \<Rightarrow> int) \<Rightarrow> bool" where
  "redis_documented ops db counter \<longleftrightarrow>
     (\<forall>c. \<exists>ks. answers_reads ops c ks (db c) \<and> set ks = {k. block_key k \<and> db c k \<noteq> Map.empty}) \<and>
     (\<forall>c. counter c < 2 ^ 63 - 1 \<longrightarrow>
        (\<exists>c'. ro_command ops [str ''INCR'', str ''block_counter''] c =
                Some (Done (Ok (Integer (counter c + 1)), c')) \<and> db c' = db c)) \<and>
     (\<forall>c k entries. \<exists>n c'. ro_command ops ([str ''HSET'', k] @ concat (map (\<lambda>(f, v). [f, v]) entries)) c =
                Some (Done (Ok (Integer n), c')) \<and> db c' = (db c)(k := db c k ++ map_of (rev entries))) \<and>
     (\<forall>c cmds. list_all other_key cmds \<longrightarrow>
        (\<exists>vs c'. ro_pipeline ops cmds c = Some (Done (Ok vs, c')) \<and> (\<forall>k. block_key k \<longrightarrow> db c' k = db c k)))"

lemma hset_documented:
  assumes "redis_documented ops db counter"
  shows "\<exists>n c'. hset ops k entries c = Some (Done (Ok n, c')) \<and> db c' = (db c)(k := db c k ++ map_of (rev entries))"
proof -
  obtain n c' where "ro_command ops ([str ''HSET'', k] @ concat (map (\<lambda>(f, v). [f, v]) entries)) c =
      Some (Done (Ok (Integer n), c'))" "db c' = (db c)(k := db c k ++ map_of (rev entries))"
    using assms unfolding redis_documented_def by meson
  then show ?thesis by (simp add: hset_def rbind_Done expect_int_def as_int_def rret_def)
qed

lemma incr_documented:
  assumes "redis_documented ops db counter" "counter c < 2 ^ 63 - 1"
  shows "\<exists>c'. incr ops (str ''block_counter'') c = Some (Done (Ok (counter c + 1), c')) \<and> db c' = db c"
proof -
  obtain c' where "ro_command ops [str ''INCR'', str ''block_counter''] c =
      Some (Done (Ok (Integer (counter c + 1)), c'))" "db c' = db c"
    using assms unfolding redis_documented_def by blast
  then show ?thesis by (simp add: incr_def rbind_Done expect_int_def as_int_def rret_def)
qed

lemma pipeline_documented:
  assumes "redis_documented ops db counter" "list_all other_key cmds"
  shows "\<exists>c'. pipeline_nonempty ops cmds c = Some (Done (Ok (), c')) \<and> (\<forall>k. block_key k \<longrightarrow> db c' k = db c k)"
proof (cases "cmds = []")
  case True
  then show ?thesis by (simp add: pipeline_nonempty_def rret_def)
next
  case False
  obtain vs c' where "ro_pipeline ops cmds c = Some (Done (Ok vs, c'))" "\<forall>k. block_key k \<longrightarrow> db c' k = db c k"
    using assms unfolding redis_documented_def by blast
  then show ?thesis using False by (simp add: pipeline_nonempty_def rbind_Done rret_def)
qed

lemma record_commands_other:
  "\<not> block_key key \<Longrightarrow> list_all other_key (record_commands hexenc key leaf_hashes i chunks)"
  by (induction chunks arbitrary: i) (simp_all add: other_key_def)

lemma node_commands_other: "\<not> block_key key \<Longrightarrow> list_all other_key (node_commands hexenc key nodes)"
  by (simp add: node_commands_def other_key_def list_all_iff)

lemma block_keys_of_ids:
  "block_key (str ''block:'' @ s)" "\<not> block_key (str ''records:'' @ s)" "\<not> block_key (str ''merkle:'' @ s)"
  by (simp_all add: block_key_def starts_with_def str_def)

lemma map_of_fields:
  "map_of (rev (block_fields hexenc b)) (str ''vm_name'') = Some (bk_vm_name b)"
  "map_of (rev (block_fields hexenc b)) (str ''block_number'') = Some (dec_u64 (bk_block_number b))"
  "map_of (rev (block_fields hexenc b)) (str ''chained_root'') = Some (hexenc (bk_chained_root b))"
  by (simp_all add: block_fields_def str_def)

lemma insert_then_latest:
  assumes redis: "redis_documented ops db counter" and room: "counter c < 2 ^ 63 - 1"
    and fresh: "db c (str ''block:'' @ dec_int (counter c + 1)) = Map.empty"
    and older: "\<forall>k m. block_key k \<longrightarrow> block_number_at (db c) (bk_vm_name b) k = Some m \<longrightarrow> m < bk_block_number b"
    and hex: "hexdec (hexenc (bk_chained_root b)) = Ok (bk_chained_root b)" "length (bk_chained_root b) = 32"
  shows "\<exists>c'. insert_block ops hexenc b c = Some (Done (Ok (counter c + 1), c')) \<and>
    (\<forall>d. (\<forall>k. block_key k \<longrightarrow> db d k = db c' k) \<longrightarrow> get_latest_block_state ops hexdec (bk_vm_name b) d =
      Some (Done (Ok (Some (bk_block_number b, bk_chained_root b)), d)))"
proof -
  define key where "key = str ''block:'' @ dec_int (counter c + 1)"
  define stored where "stored = map_of (rev (block_fields hexenc b))"
  obtain c1 where c1: "incr ops (str ''block_counter'') c = Some (Done (Ok (counter c + 1), c1))" "db c1 = db c"
    using incr_documented [OF redis room] by blast
  obtain n c2 where c2: "hset ops key (block_fields hexenc b) c1 = Some (Done (Ok n, c2))"
      "db c2 = (db c)(key := stored)"
    using hset_documented [OF redis, of key "block_fields hexenc b" c1] fresh c1(2)
    by (auto simp: key_def stored_def)
  obtain c3 where c3: "pipeline_nonempty ops (record_commands hexenc (str ''records:'' @ dec_int (counter c + 1))
        (bk_leaf_hashes b) 0 (chunks_of STORE_BATCH (bk_records b))) c2 = Some (Done (Ok (), c3))"
      "\<forall>k. block_key k \<longrightarrow> db c3 k = db c2 k"
    using pipeline_documented [OF redis record_commands_other [OF block_keys_of_ids(2)]] by blast
  obtain c4 where c4: "pipeline_nonempty ops (node_commands hexenc (str ''merkle:'' @ dec_int (counter c + 1))
        (bk_internal_nodes b)) c3 = Some (Done (Ok (), c4))"
      "\<forall>k. block_key k \<longrightarrow> db c4 k = db c3 k"
    using pipeline_documented [OF redis node_commands_other [OF block_keys_of_ids(3)]] by blast
  have ins: "insert_block ops hexenc b c = Some (Done (Ok (counter c + 1), c4))"
    using c1(1) c2(1) c3(1) c4(1) by (simp add: insert_block_def rbind_Done rret_def key_def)
  have stored: "stored \<noteq> Map.empty"
  proof
    assume "stored = Map.empty"
    then show False using map_of_fields(1) [of hexenc b] by (simp add: stored_def)
  qed
  have "get_latest_block_state ops hexdec (bk_vm_name b) d =
      Some (Done (Ok (Some (bk_block_number b, bk_chained_root b)), d))"
    if d: "\<forall>k. block_key k \<longrightarrow> db d k = db c4 k" for d
  proof -
    have at: "db d k = ((db c)(key := stored)) k" if "block_key k" for k
      using that c2(2) c3(2) c4(2) d by simp
    have new: "block_key key" "db d key = stored" using at [of key] by (simp_all add: key_def block_keys_of_ids)
    have num: "block_number_at (db d) (bk_vm_name b) key = Some (bk_block_number b)"
      by (simp add: block_number_at_def new stored_def map_of_fields parse_dec_u64)
    have small: "m < bk_block_number b \<or> k = key" if "block_key k" "block_number_at (db d) (bk_vm_name b) k = Some m" for k m
    proof (cases "k = key")
      case False
      then have "block_number_at (db d) (bk_vm_name b) k = block_number_at (db c) (bk_vm_name b) k"
        using at [OF that(1)] by (simp add: block_number_at_def)
      then show ?thesis using older that by simp
    qed simp
    obtain ks where ks: "answers_reads ops d ks (db d)" "set ks = {k. block_key k \<and> db d k \<noteq> Map.empty}"
      using redis unfolding redis_documented_def by blast
    have "key \<in> set ks" unfolding ks(2) using new stored by simp
    obtain latest where latest: "get_latest_block_state ops hexdec (bk_vm_name b) d = Some (Done (Ok latest, d))"
      "case latest of
         None \<Rightarrow> \<forall>k \<in> set ks. block_number_at (db d) (bk_vm_name b) k = None
       | Some (n, head_root) \<Rightarrow>
           (\<exists>k \<in> set ks. block_number_at (db d) (bk_vm_name b) k = Some n \<and>
              head_root = root_of_text hexdec (db d k (str ''chained_root''))) \<and>
           (\<forall>k \<in> set ks. \<forall>m. block_number_at (db d) (bk_vm_name b) k = Some m \<longrightarrow> m \<le> n)"
      using latest_block [OF ks(1)] by blast
    then obtain n head_root k where l: "latest = Some (n, head_root)" "k \<in> set ks"
        "block_number_at (db d) (bk_vm_name b) k = Some n" "head_root = root_of_text hexdec (db d k (str ''chained_root''))"
        "bk_block_number b \<le> n"
      using \<open>key \<in> set ks\<close> num by (fastforce split: option.splits)
    then have "k = key" using small [of k n] ks(2) by auto
    then have "n = bk_block_number b" "head_root = bk_chained_root b"
      using l num hex new by (simp_all add: stored_def map_of_fields root_of_text_def)
    then show ?thesis using latest(1) l(1) by simp
  qed
  then show ?thesis using ins by blast
qed

text \<open>A block that is inserted is where a restarted enclave resumes. If the store keeps what Redis documents,
  its counter is not exhausted, the next block key is unused and every stored block of the tenant has a
  smaller number, then inserting a block succeeds, and the search for the tenant's latest block then
  returns exactly its number and its chained root.\<close>
theorem inserted_block_is_resumed:
  assumes redis: "redis_documented ops db counter" and room: "counter c < 2 ^ 63 - 1"
    and fresh: "db c (str ''block:'' @ dec_int (counter c + 1)) = Map.empty"
    and older: "\<forall>k m. block_key k \<longrightarrow> block_number_at (db c) (bk_vm_name b) k = Some m \<longrightarrow> m < bk_block_number b"
    and hex: "hexdec (hexenc (bk_chained_root b)) = Ok (bk_chained_root b)" "length (bk_chained_root b) = 32"
  shows "\<exists>c'. insert_block ops hexenc b c = Some (Done (Ok (counter c + 1), c')) \<and>
    get_latest_block_state ops hexdec (bk_vm_name b) c' =
      Some (Done (Ok (Some (bk_block_number b, bk_chained_root b)), c'))"
  using insert_then_latest [where ops = ops and db = db and counter = counter and c = c and b = b
      and hexenc = hexenc and hexdec = hexdec, OF assms] by blast

text \<open>A store of hash entries \<open>(key, field, value)\<close>, the newest first, and a counter.\<close>

type_synonym tiny = "(bytes \<times> bytes \<times> bytes) list \<times> int"

definition tiny_db :: "tiny \<Rightarrow> bytes \<Rightarrow> bytes \<rightharpoonup> bytes" where
  "tiny_db c k = map_of (map snd (filter (\<lambda>e. fst e = k) (fst c)))"

fun tiny_pairs :: "bytes list \<Rightarrow> (bytes \<times> bytes) list" where
  "tiny_pairs (f # v # rest) = (f, v) # tiny_pairs rest"
| "tiny_pairs _ = []"

definition tiny_command :: "bytes list \<Rightarrow> (tiny, RedisValue) redis" where
  "tiny_command args c =
     (if args ! 0 = str ''AUTH'' then rret (SimpleString (str ''OK'')) c
      else if args ! 0 = str ''KEYS'' then
        rret (Array (map (\<lambda>k. BulkString (Some k)) (filter block_key (map fst (fst c))))) c
      else if args ! 0 = str ''HGET'' then rret (text_value (tiny_db c (args ! 1) (args ! 2))) c
      else if args ! 0 = str ''GET'' then rret (text_value (tiny_db c (args ! 1) [])) c
      else if args ! 0 = str ''SET'' then
        rret (SimpleString (str ''OK'')) ((args ! 1, [], args ! 2) # fst c, snd c)
      else if args ! 0 = str ''INCR'' then rret (Integer (snd c + 1)) (fst c, snd c + 1)
      else rret (Integer 0) (map (\<lambda>e. (args ! 1, e)) (rev (tiny_pairs (drop 2 args))) @ fst c, snd c))"

definition tiny_ops :: "tiny RedisOps" where
  "tiny_ops = \<lparr>ro_tcp = (\<lambda>_ c. (Ok (), c)), ro_cert = (\<lambda>_. Ok ()), ro_handshake = (\<lambda>c. (Ok (), c)),
     ro_command = tiny_command, ro_pipeline = (\<lambda>_. rret [])\<rparr>"

lemma tiny_pairs_concat: "tiny_pairs (concat (map (\<lambda>(f, v). [f, v]) entries)) = entries"
  by (induction entries) auto

lemma tiny_hset:
  "tiny_db (map (\<lambda>e. (k, e)) es @ s, n) = (tiny_db (s, m))(k := tiny_db (s, m) k ++ map_of es)"
proof -
  have 1: "filter (\<lambda>e. fst e = k) (map (Pair k) es) = map (Pair k) es"
    and 2: "k' \<noteq> k \<Longrightarrow> filter (\<lambda>e. fst e = k') (map (Pair k) es) = []" for k'
    by (induction es) auto
  show ?thesis
  proof
    fix k'
    show "tiny_db (map (\<lambda>e. (k, e)) es @ s, n) k' = ((tiny_db (s, m))(k := tiny_db (s, m) k ++ map_of es)) k'"
      using 1 2 [of k'] by (cases "k' = k") (simp_all add: tiny_db_def comp_def)
  qed
qed

lemma tiny_keys: "tiny_db c k \<noteq> Map.empty \<longleftrightarrow> k \<in> fst ` set (fst c)"
proof -
  have "tiny_db c k = Map.empty \<longleftrightarrow> map snd (filter (\<lambda>e. fst e = k) (fst c)) = []"
    unfolding tiny_db_def by (cases "map snd (filter (\<lambda>e. fst e = k) (fst c))") (auto simp: fun_eq_iff split: if_splits)
  then show ?thesis by (auto simp: filter_empty_conv)
qed

lemma tiny_names [simp]:
  "str ''KEYS'' \<noteq> str ''AUTH''" "str ''HGET'' \<noteq> str ''AUTH''" "str ''INCR'' \<noteq> str ''AUTH''" "str ''HSET'' \<noteq> str ''AUTH''"
  "str ''HGET'' \<noteq> str ''GET''" "str ''HGET'' \<noteq> str ''SET''" "str ''KEYS'' \<noteq> str ''GET''" "str ''KEYS'' \<noteq> str ''SET''"
  "str ''INCR'' \<noteq> str ''GET''" "str ''INCR'' \<noteq> str ''SET''" "str ''HSET'' \<noteq> str ''GET''" "str ''HSET'' \<noteq> str ''SET''"
  "str ''GET'' \<noteq> str ''AUTH''" "str ''GET'' \<noteq> str ''KEYS''" "str ''GET'' \<noteq> str ''HGET''" "str ''SET'' \<noteq> str ''AUTH''"
  "str ''SET'' \<noteq> str ''KEYS''" "str ''SET'' \<noteq> str ''HGET''" "str ''SET'' \<noteq> str ''GET''"
  "str ''HGET'' \<noteq> str ''KEYS''" "str ''INCR'' \<noteq> str ''KEYS''" "str ''INCR'' \<noteq> str ''HGET''"
  "str ''HSET'' \<noteq> str ''KEYS''" "str ''HSET'' \<noteq> str ''HGET''" "str ''HSET'' \<noteq> str ''INCR''"
  by (simp_all add: str_def)

lemma tiny_reads: "answers_reads tiny_ops c (filter block_key (map fst (fst c))) (tiny_db c)"
  by (simp add: answers_reads_def tiny_ops_def tiny_command_def rret_def)

lemma tiny_documented: "redis_documented tiny_ops tiny_db snd"
proof -
  have "set (filter block_key (map fst (fst c))) = {k. block_key k \<and> tiny_db c k \<noteq> Map.empty}" for c
    by (auto simp: tiny_keys)
  then have keys: "\<exists>ks. answers_reads tiny_ops c ks (tiny_db c) \<and> set ks = {k. block_key k \<and> tiny_db c k \<noteq> Map.empty}" for c
    using tiny_reads by blast
  have db: "tiny_db (fst c, n) = tiny_db c" for c n by (simp add: tiny_db_def fun_eq_iff)
  have hset: "\<exists>n c'. ro_command tiny_ops ([str ''HSET'', k] @ concat (map (\<lambda>(f, v). [f, v]) entries)) c =
      Some (Done (Ok (Integer n), c')) \<and> tiny_db c' = (tiny_db c)(k := tiny_db c k ++ map_of (rev entries))"
    for c k entries
    using tiny_hset [of k "rev entries" "fst c" "snd c" "snd c"]
    by (simp add: tiny_ops_def tiny_command_def rret_def tiny_pairs_concat)
  show ?thesis
    unfolding redis_documented_def
    using keys db hset by (auto simp: tiny_ops_def tiny_command_def rret_def)
qed


lemma inserted_block_is_resumed_witness:
  "\<exists>c'. get_latest_block_state tiny_ops Ok (str ''vm1'') c' =
     Some (Done (Ok (Some (4, replicate 32 7)), c'))"
proof -
  define b where "b = \<lparr>bk_block_number = 4, bk_vm_name = str ''vm1'', bk_merkle_root = zero_hash,
    bk_prev_chained_root = zero_hash, bk_chained_root = replicate 32 7, bk_record_count = 0, bk_timestamp = [],
    bk_records = [], bk_leaf_hashes = [], bk_internal_nodes = [], bk_tree_height = 0\<rparr>"
  define c :: tiny where "c = ([], 0)"
  have e: "tiny_db c k = Map.empty" "snd c = 0" for k by (simp_all add: tiny_db_def c_def)
  have "\<exists>c'. insert_block tiny_ops id b c = Some (Done (Ok (snd c + 1), c')) \<and>
    get_latest_block_state tiny_ops Ok (bk_vm_name b) c' =
      Some (Done (Ok (Some (bk_block_number b, bk_chained_root b)), c'))"
    by (rule inserted_block_is_resumed [where ops = tiny_ops and db = tiny_db and counter = snd, OF tiny_documented])
      (simp_all add: b_def e block_number_at_def)
  then show ?thesis by (auto simp: b_def)
qed

end
