(* ===== verification/SipTag.thy ===== *)
theory SipTag
  imports HexTools
begin

text \<open>
  The keyed measurement tag of \<open>src/verified/src/lib.rs\<close> (\<open>siptag\<close>) and the host's copy of the
  round function in \<open>src/src/sensors/powercap_rapl.rs\<close>. The reference is SipHash-2-4 over a byte
  string, written independently of the code and checked on the published test vector.
\<close>

type_synonym sipstate = "u64 \<times> u64 \<times> u64 \<times> u64"

definition SIPTAG_IV0 :: u64 where "SIPTAG_IV0 = 0x736f6d6570736575"
definition SIPTAG_IV1 :: u64 where "SIPTAG_IV1 = 0x646f72616e646f6d"
definition SIPTAG_IV2 :: u64 where "SIPTAG_IV2 = 0x6c7967656e657261"
definition SIPTAG_IV3 :: u64 where "SIPTAG_IV3 = 0x7465646279746573"
definition SIPTAG_LEN_BLOCK :: u64 where "SIPTAG_LEN_BLOCK = 0x2000000000000000"
definition SIPTAG_VERSION :: u16 where "SIPTAG_VERSION = 1"
definition SIPTAG_PRODUCER_RAPL_SEEDED :: u16 where "SIPTAG_PRODUCER_RAPL_SEEDED = 1"
definition SIPTAG_PRODUCER_GPU_NVML :: u16 where "SIPTAG_PRODUCER_GPU_NVML = 3"
definition TAG_PRODUCER_GPU :: u32 where "TAG_PRODUCER_GPU = 0x8000"

definition sipround :: "u64 \<Rightarrow> u64 \<Rightarrow> u64 \<Rightarrow> u64 \<Rightarrow> sipstate" where
  "sipround v0 v1 v2 v3 =
     (let a0 = v0 + v1;
          b1 = (push_bit 13 v1 OR drop_bit 51 v1) XOR a0;
          a0r = push_bit 32 a0 OR drop_bit 32 a0;
          a2 = v2 + v3;
          b3 = (push_bit 16 v3 OR drop_bit 48 v3) XOR a2;
          c0 = a0r + b3;
          d3 = (push_bit 21 b3 OR drop_bit 43 b3) XOR c0;
          c2 = a2 + b1;
          d1 = (push_bit 17 b1 OR drop_bit 47 b1) XOR c2;
          c2r = push_bit 32 c2 OR drop_bit 32 c2
      in (c0, d1, c2r, d3))"

definition absorb :: "u64 \<Rightarrow> u64 \<Rightarrow> u64 \<Rightarrow> u64 \<Rightarrow> u64 \<Rightarrow> sipstate" where
  "absorb v0 v1 v2 v3 m =
     (case sipround v0 v1 v2 (v3 XOR m) of (a0, a1, a2, a3) \<Rightarrow>
      case sipround a0 a1 a2 a3 of (b0, b1, b2, b3) \<Rightarrow> (b0 XOR m, b1, b2, b3))"

definition spec_siptag_words ::
  "u64 \<Rightarrow> u64 \<Rightarrow> u32 \<Rightarrow> u32 \<Rightarrow> u16 \<Rightarrow> u16 \<Rightarrow> u32 \<Rightarrow> sipstate" where
  "spec_siptag_words energy_uj timestamp_ns unit_id domain_id version producer key_epoch =
     (energy_uj, timestamp_ns,
      ucast unit_id OR push_bit 32 (ucast domain_id),
      (ucast version OR push_bit 16 (ucast producer)) OR push_bit 32 (ucast key_epoch))"

definition siptag ::
  "u64 \<Rightarrow> u64 \<Rightarrow> u64 \<Rightarrow> u64 \<Rightarrow> u32 \<Rightarrow> u32 \<Rightarrow> u16 \<Rightarrow> u16 \<Rightarrow> u32 \<Rightarrow> u64" where
  "siptag k0 k1 energy_uj timestamp_ns unit_id domain_id version producer key_epoch =
     (let m0 = energy_uj;
          m1 = timestamp_ns;
          m2 = ucast unit_id OR push_bit 32 (ucast domain_id);
          m3 = (ucast version OR push_bit 16 (ucast producer)) OR push_bit 32 (ucast key_epoch)
      in
      case absorb (SIPTAG_IV0 XOR k0) (SIPTAG_IV1 XOR k1) (SIPTAG_IV2 XOR k0) (SIPTAG_IV3 XOR k1) m0
        of (a0, a1, a2, a3) \<Rightarrow>
      case absorb a0 a1 a2 a3 m1 of (b0, b1, b2, b3) \<Rightarrow>
      case absorb b0 b1 b2 b3 m2 of (c0, c1, c2, c3) \<Rightarrow>
      case absorb c0 c1 c2 c3 m3 of (d0, d1, d2, d3) \<Rightarrow>
      case absorb d0 d1 d2 d3 SIPTAG_LEN_BLOCK of (e0, e1, e2, e3) \<Rightarrow>
      case sipround e0 e1 (e2 XOR 0xff) e3 of (f0, f1, f2, f3) \<Rightarrow>
      case sipround f0 f1 f2 f3 of (g0, g1, g2, g3) \<Rightarrow>
      case sipround g0 g1 g2 g3 of (h0, h1, h2, h3) \<Rightarrow>
      case sipround h0 h1 h2 h3 of (i0, i1, i2, i3) \<Rightarrow>
        i0 XOR i1 XOR i2 XOR i3)"

section \<open>The host's round function\<close>

text \<open>\<open>rotl64\<close> and the in-place \<open>sipround\<close> of \<open>powercap_rapl.rs\<close>, statement by statement.\<close>

definition rotl64 :: "u64 \<Rightarrow> nat \<Rightarrow> u64" where
  "rotl64 x b = push_bit b x OR drop_bit (64 - b) x"

definition host_sipround :: "sipstate \<Rightarrow> sipstate" where
  "host_sipround s =
     (case s of (v0, v1, v2, v3) \<Rightarrow>
        let v0 = v0 + v1;
            v1 = rotl64 v1 13;
            v1 = v1 XOR v0;
            v0 = rotl64 v0 32;
            v2 = v2 + v3;
            v3 = rotl64 v3 16;
            v3 = v3 XOR v2;
            v0 = v0 + v3;
            v3 = rotl64 v3 21;
            v3 = v3 XOR v0;
            v2 = v2 + v1;
            v1 = rotl64 v1 17;
            v1 = v1 XOR v2;
            v2 = rotl64 v2 32
        in (v0, v1, v2, v3))"

definition host_absorb :: "sipstate \<Rightarrow> u64 \<Rightarrow> sipstate" where
  "host_absorb s m =
     (case s of (v0, v1, v2, v3) \<Rightarrow>
      case host_sipround (host_sipround (v0, v1, v2, v3 XOR m)) of (w0, w1, w2, w3) \<Rightarrow>
        (w0 XOR m, w1, w2, w3))"

definition compute_siphash24 :: "u64 \<Rightarrow> u64 \<Rightarrow> u32 \<Rightarrow> u32 \<Rightarrow> u64" where
  "compute_siphash24 energy timestamp socket domain =
     (let K0 = 0x0706050403020100; K1 = 0x0f0e0d0c0b0a0908;
          s = (0x736f6d6570736575 XOR K0, 0x646f72616e646f6d XOR K1,
               0x6c7967656e657261 XOR K0, 0x7465646279746573 XOR K1);
          s = host_absorb s energy;
          s = host_absorb s timestamp;
          ids = push_bit 32 (ucast socket) OR ucast domain;
          s = host_absorb s ids
      in case s of (v0, v1, v2, v3) \<Rightarrow>
         case host_sipround (host_sipround (host_sipround (host_sipround (v0, v1, v2 XOR 0xff, v3))))
           of (w0, w1, w2, w3) \<Rightarrow> w0 XOR w1 XOR w2 XOR w3)"

lemma host_sipround_eq: "host_sipround (v0, v1, v2, v3) = sipround v0 v1 v2 v3"
  by (simp add: host_sipround_def sipround_def rotl64_def Let_def)

lemma host_absorb_eq: "host_absorb (v0, v1, v2, v3) m = absorb v0 v1 v2 v3 m"
  by (simp add: host_absorb_def absorb_def host_sipround_eq split: prod.splits)

section \<open>The reference: SipHash-2-4 over a byte string\<close>

fun sip_step :: "sipstate \<Rightarrow> sipstate" where
  "sip_step (v0, v1, v2, v3) =
     (let a = v0 + v1; b = v2 + v3;
          v1' = word_rotl 13 v1 XOR a; v3' = word_rotl 16 v3 XOR b;
          c = word_rotl 32 a + v3'; d = b + v1'
      in (c, word_rotl 17 v1' XOR d, word_rotl 32 d, word_rotl 21 v3' XOR c))"

fun sip_compress :: "sipstate \<Rightarrow> u64 \<Rightarrow> sipstate" where
  "sip_compress (v0, v1, v2, v3) m =
     (case (sip_step ^^ 2) (v0, v1, v2, v3 XOR m) of (w0, w1, w2, w3) \<Rightarrow> (w0 XOR m, w1, w2, w3))"

fun sip_finish :: "sipstate \<Rightarrow> u64" where
  "sip_finish (v0, v1, v2, v3) =
     (case (sip_step ^^ 4) (v0, v1, v2 XOR 0xff, v3) of (w0, w1, w2, w3) \<Rightarrow> w0 XOR w1 XOR w2 XOR w3)"

definition sip_words :: "bytes \<Rightarrow> u64 list" where
  "sip_words msg =
     map (\<lambda>i. u64_from_le (slice msg (8 * i) (8 * i + 8))) [0..<length msg div 8]
     @ [u64_from_le (drop (8 * (length msg div 8)) msg) OR push_bit 56 (of_nat (length msg))]"

definition siphash24 :: "u64 \<Rightarrow> u64 \<Rightarrow> bytes \<Rightarrow> u64" where
  "siphash24 k0 k1 msg =
     sip_finish (foldl sip_compress
       (0x736f6d6570736575 XOR k0, 0x646f72616e646f6d XOR k1,
        0x6c7967656e657261 XOR k0, 0x7465646279746573 XOR k1) (sip_words msg))"

lemma rotl_shifts:
  assumes "0 < n" "n < 64" shows "word_rotl n (x :: u64) = push_bit n x OR drop_bit (64 - n) x"
proof (rule bit_word_eqI)
  fix k assume "k < LENGTH(64)"
  then have k: "k < 64" by simp
  have "bit (word_rotl n x) k \<longleftrightarrow> bit x ((k + (64 - n)) mod 64)"
    using assms k by (simp add: bit_word_rotl_iff)
  also have "\<dots> \<longleftrightarrow> bit (push_bit n x OR drop_bit (64 - n) x) k"
  proof (cases "n \<le> k")
    case True
    have "(k + (64 - n)) mod 64 = (k - n + 64) mod 64" using True assms by (simp add: algebra_simps)
    also have "\<dots> = k - n" using k by (metis less_imp_diff_less mod_add_self2 mod_less)
    finally show ?thesis using True k bit_imp_le_length [of x "64 - n + k"]
      by (auto simp: bit_simps)
  next
    case False
    then show ?thesis using assms k by (simp add: bit_simps add.commute)
  qed
  finally show "bit (word_rotl n x) k \<longleftrightarrow> bit (push_bit n x OR drop_bit (64 - n) x) k" .
qed

lemma iterate_2: "(f ^^ 2) x = f (f x)"
  by (simp add: numeral_2_eq_2)

lemma iterate_4: "(f ^^ 4) x = f (f (f (f x)))"
  by (simp add: numeral_eq_Suc)

lemma sip_step_sipround: "sip_step (v0, v1, v2, v3) = sipround v0 v1 v2 v3"
  by (simp add: sipround_def rotl_shifts Let_def)

lemma sip_compress_absorb: "sip_compress (v0, v1, v2, v3) m = absorb v0 v1 v2 v3 m"
  by (simp add: absorb_def sip_step_sipround iterate_2 del: sip_step.simps split: prod.splits)

lemma sip_words_four:
  assumes "length a = 8" "length b = 8" "length c = 8" "length d = 8"
  shows "sip_words (a @ b @ c @ d) =
    [u64_from_le a, u64_from_le b, u64_from_le c, u64_from_le d, SIPTAG_LEN_BLOCK]"
proof -
  have "[0..<4] = [0, 1, 2, 3 :: nat]" by (simp add: upt_rec)
  then show ?thesis using assms
    by (simp add: sip_words_def slice_def SIPTAG_LEN_BLOCK_def u64_from_le_def)
qed

lemma siptag_siphash_words:
  "siptag k0 k1 e t u d v p q = siphash24 k0 k1
     (case spec_siptag_words e t u d v p q of (m0, m1, m2, m3) \<Rightarrow>
        spec_u64_le m0 @ spec_u64_le m1 @ spec_u64_le m2 @ spec_u64_le m3)"
  by (simp add: siptag_def siphash24_def spec_siptag_words_def sip_words_four Let_def
      SIPTAG_IV0_def SIPTAG_IV1_def SIPTAG_IV2_def SIPTAG_IV3_def sip_compress_absorb
      sip_step_sipround iterate_4 del: sip_step.simps sip_compress.simps split: prod.splits)

text \<open>The published test vector of SipHash-2-4.\<close>

lemma siphash24_test_vector:
  "siphash24 0x0706050403020100 0x0f0e0d0c0b0a0908 [0, 1, 2, 3, 4, 5, 6, 7, 8, 9, 10, 11, 12, 13, 14]
   = 0xa129ca6149be45e5"
proof -
  have w: "sip_words [0, 1, 2, 3, 4, 5, 6, 7, 8, 9, 10, 11, 12, 13, 14] =
      [0x0706050403020100, 0x0f0e0d0c0b0a0908]"
    by (simp add: sip_words_def slice_def u64_from_le_def)
  show ?thesis
    unfolding siphash24_def w
    by (simp add: sip_compress_absorb sip_step_sipround absorb_def sipround_def Let_def iterate_4
       del: sip_step.simps sip_compress.simps)
qed

section \<open>The tag is SipHash-2-4 of the packed reading\<close>

lemma le_bytes_append:
  "a < 256 ^ j \<Longrightarrow> le_bytes (j + k) (a + 256 ^ j * b) = le_bytes j a @ le_bytes k b"
proof (induction j arbitrary: a)
  case (Suc j)
  have "(a + 256 ^ Suc j * b) div 256 = a div 256 + 256 ^ j * b"
    by (simp add: mult.assoc)
  moreover have "a div 256 < 256 ^ j" using Suc.prems by (simp add: less_mult_imp_div_less mult.commute)
  moreover have "(of_nat ((a + 256 ^ Suc j * b) mod 256) :: u8) = of_nat (a mod 256)"
    by (simp add: mult.assoc)
  ultimately show ?case using Suc.IH by simp
qed simp

lemma unat_or_shift:
  fixes x y :: u64
  assumes "unat x < 2 ^ n" "unat x + 2 ^ n * unat y < 2 ^ 64"
  shows "unat (x OR push_bit n y) = unat x + 2 ^ n * unat y"
proof -
  have x: "take_bit n x = x"
    using assms(1) by (simp add: word_unat_eq_iff unsigned_take_bit_eq take_bit_nat_eq_self)
  have "x AND push_bit n y = 0"
    by (subst x [symmetric]) (rule bit_word_eqI, auto simp: bit_simps)
  then have "x OR push_bit n y = x + push_bit n y" by (simp add: disjunctive_add_eq_or)
  moreover have "unat (push_bit n y) = 2 ^ n * unat y"
    using assms(2)
    by (simp only: unsigned_push_bit_eq) (simp add: push_bit_eq_mult [of n "unat y"] take_bit_nat_eq_self mult.commute)
  ultimately show ?thesis using assms(2) by (simp add: unat_word_ariths)
qed

definition tag_bytes :: "u64 \<Rightarrow> u64 \<Rightarrow> u32 \<Rightarrow> u32 \<Rightarrow> u16 \<Rightarrow> u16 \<Rightarrow> u32 \<Rightarrow> bytes" where
  "tag_bytes e t u d v p q =
     le_bytes 8 (unat e) @ le_bytes 8 (unat t) @ le_bytes 4 (unat u) @ le_bytes 4 (unat d)
     @ le_bytes 2 (unat v) @ le_bytes 2 (unat p) @ le_bytes 4 (unat q)"

lemma unat_ucast_u32: "unat (ucast (x :: u32) :: u64) = unat x"
  by (simp add: unsigned_ucast_eq take_bit_nat_eq_self less_trans [OF unat_u32_less])

lemma unat_u16_less: "unat (x :: u16) < 65536"
  using unsigned_less [of x, where 'a = nat] by simp

lemma unat_ucast_u16: "unat (ucast (x :: u16) :: u64) = unat x"
  by (simp add: unsigned_ucast_eq take_bit_nat_eq_self less_trans [OF unat_u16_less])

lemma tag_word_ids:
  "spec_u64_le (ucast (u :: u32) OR push_bit 32 (ucast (d :: u32))) =
   le_bytes 4 (unat u) @ le_bytes 4 (unat d)"
proof -
  have "unat (ucast u OR push_bit 32 (ucast d) :: u64) = unat u + 2 ^ 32 * unat d"
    using unat_u32_less [of u] unat_u32_less [of d]
    by (subst unat_or_shift) (simp_all add: unat_ucast_u32 unat_ucast_u16)
  then show ?thesis
    using le_bytes_append [of "unat u" 4 4 "unat d"] unat_u32_less [of u]
    by (simp add: spec_u64_le_bytes)
qed

lemma tag_word_meta:
  "spec_u64_le ((ucast (v :: u16) OR push_bit 16 (ucast (p :: u16))) OR push_bit 32 (ucast (q :: u32))) =
   le_bytes 2 (unat v) @ le_bytes 2 (unat p) @ le_bytes 4 (unat q)"
proof -
  have b: "unat v < 65536" "unat p < 65536" "unat q < 4294967296"
    by (simp_all add: unat_u16_less unat_u32_less)
  have "unat (ucast v OR push_bit 16 (ucast p) :: u64) = unat v + 2 ^ 16 * unat p"
    using b by (subst unat_or_shift) (simp_all add: unat_ucast_u32 unat_ucast_u16)
  then have "unat ((ucast v OR push_bit 16 (ucast p)) OR push_bit 32 (ucast q) :: u64) =
      (unat v + 2 ^ 16 * unat p) + 2 ^ 32 * unat q"
    using b by (subst unat_or_shift) (simp_all add: unat_ucast_u32 unat_ucast_u16)
  then show ?thesis
    using le_bytes_append [of "unat v + 65536 * unat p" 4 4 "unat q"]
      le_bytes_append [of "unat v" 2 2 "unat p"] b
    by (simp add: spec_u64_le_bytes)
qed

text \<open>C32: The measurement tag is SipHash-2-4, under the same key, of the 32 bytes that pack the reading in
  little-endian order: energy, timestamp, unit, domain, version, producer and key epoch.\<close>
theorem siptag_is_siphash24:
  "siptag k0 k1 e t u d v p q = siphash24 k0 k1 (tag_bytes e t u d v p q)"
  by (simp add: siptag_siphash_words spec_siptag_words_def tag_word_ids tag_word_meta tag_bytes_def
      spec_u64_le_bytes [of e] spec_u64_le_bytes [of t])

lemma tag_bytes_inj:
  assumes "tag_bytes e t u d v p q = tag_bytes e' t' u' d' v' p' q'"
  shows "(e, t, u, d, v, p, q) = (e', t', u', d', v', p', q')"
proof -
  have f: "le_bytes k m = le_bytes k n \<Longrightarrow> m < 256 ^ k \<Longrightarrow> n < 256 ^ k \<Longrightarrow> m = n" for k m n
    by (rule le_bytes_inj)
  show ?thesis
    using assms f [of 8 "unat e" "unat e'"] f [of 8 "unat t" "unat t'"] f [of 4 "unat u" "unat u'"]
      f [of 4 "unat d" "unat d'"] f [of 2 "unat v" "unat v'"] f [of 2 "unat p" "unat p'"]
      f [of 4 "unat q" "unat q'"]
    by (simp add: tag_bytes_def word_unat_eq_iff unat_u32_less unat_u64_less unat_u16_less)
qed

text \<open>The host's in-place round function computes the same round as the verified core's, and so does
  its absorption of a word, so the host and the core differ only in how they pack a reading.\<close>
theorem host_round_agrees:
  "host_sipround (v0, v1, v2, v3) = sipround v0 v1 v2 v3 \<and>
   host_absorb (v0, v1, v2, v3) m = absorb v0 v1 v2 v3 m"
  by (simp add: host_sipround_eq host_absorb_eq)

end
