(* ===== verification/GuestExport.thy ===== *)
theory GuestExport
  imports RedisStore EnergyChain Attribution SipTag GuestBoot
begin

text \<open>
  The guest enclave's exports (\<open>src/sgx_vm/src/main.rs\<close>): the verified energy of a virtual machine is
  split over its processes, and every hundred exports the accumulated records become a block of the
  chain in Redis. The statics of the enclave are
  the record \<open>GuestState\<close>; crates, clocks, the random generator and the outside world \<open>'c\<close> are the
  record \<open>GuestLib\<close>. The timing log and debug output are left out.
\<close>

section \<open>State and parameters\<close>

record GuestState =
  gs_chains :: chain_states
  gs_iteration_count :: u64
  gs_records :: "EnergyRecord list"
  gs_block_number :: u64
  gs_chained_root :: bytes
  gs_initialized :: bool
  gs_resume_refused :: bool
  gs_prev_cycle_at :: "nat option"
  gs_gpu_energy :: "bytes \<rightharpoonup> u64"
  gs_bindings :: "bytes \<rightharpoonup> bool"
  gs_nonce :: "bytes option"
  gs_events :: nat

definition guest_start :: GuestState where
  "guest_start =
     \<lparr>gs_chains = Map.empty, gs_iteration_count = 0, gs_records = [], gs_block_number = 0,
      gs_chained_root = zero_hash, gs_initialized = False, gs_resume_refused = False,
      gs_prev_cycle_at = None, gs_gpu_energy = Map.empty, gs_bindings = Map.empty, gs_nonce = None,
      gs_events = 0\<rparr>"

record GuestResponse =
  gr_status :: int
  gr_message :: bytes
  gr_output :: "bytes option"

definition answer :: "int \<Rightarrow> bytes \<Rightarrow> GuestResponse" where
  "answer status message = \<lparr>gr_status = status, gr_message = message, gr_output = None\<rparr>"

text \<open>The requests.\<close>

record DbExportReq =
  dq_vm_name :: bytes
  dq_energy_uj :: u64
  dq_counter :: u64
  dq_previous_hash :: bytes
  dq_signature :: bytes
  dq_energy_delta :: u64
  dq_processes :: "(u32 \<times> u64) list"

record GpuProcSample =
  gp_pid :: u32
  gp_util :: u64
  gp_cgroup :: bytes

record GpuTagReq =
  gt_energy_uj :: u64
  gt_timestamp_ns :: u64
  gt_hash :: u64

record GpuGroup =
  gg_gpu_index :: u32
  gg_gpu_uuid :: bytes
  gg_energy_uj :: u64
  gg_procs :: "GpuProcSample list"
  gg_tag :: "GpuTagReq option"

record GpuDbExportReq =
  nq_node_id :: bytes
  nq_gpus :: "GpuGroup list"
  nq_immudb_addr :: bytes
  nq_deployment_type :: bytes
  nq_tag_key :: "(u64 \<times> u64) option"
  nq_tag_epoch :: u32

text \<open>
  SHA-256, HMAC, the hex crate, the enclave's keys, the anchor signature (P-256 over mbedTLS), serde's
  parsers and printers, the clocks at the \<open>n\<close>-th event, the connections to ImmuDB, and Redis.
\<close>

record 'c GuestLib =
  gl_sha :: "bytes \<Rightarrow> bytes"
  gl_hmac :: "bytes \<Rightarrow> bytes \<Rightarrow> bytes"
  gl_hexenc :: "bytes \<Rightarrow> bytes"
  gl_hexdec :: "bytes \<Rightarrow> (bytes, bytes) result"
  gl_master :: "bytes \<Rightarrow> bytes"
  gl_build_key :: "bytes \<Rightarrow> bytes"
  gl_pk_of :: "bytes \<Rightarrow> (bytes, bytes option) result"
  gl_ecdsa :: "bytes \<Rightarrow> bytes \<Rightarrow> (bytes, bytes) result"
  gl_der :: "bytes \<Rightarrow> (bytes, bytes) result"
  gl_db_req :: "bytes \<Rightarrow> (bytes, DbExportReq) result"
  gl_gpu_req :: "bytes \<Rightarrow> (bytes, GpuDbExportReq) result"
  gl_results_json :: "(u32 \<times> u64) list \<Rightarrow> bytes"
  gl_labels_json :: "(bytes \<times> u64) list \<Rightarrow> bytes"
  gl_now :: "nat \<Rightarrow> nat"
  gl_secs :: "nat \<Rightarrow> nat"
  gl_cert_ok :: "bytes \<Rightarrow> bool"
  gl_immudb_ca :: bytes
  gl_dial :: dial
  gl_redis :: "'c RedisOps"

text \<open>Code that may panic and may not return.\<close>

type_synonym 'a outcome = "'a exec option"

definition obind :: "'a outcome \<Rightarrow> ('a \<Rightarrow> 'b outcome) \<Rightarrow> 'b outcome" where
  "obind m f = (case m of None \<Rightarrow> None | Some Panic \<Rightarrow> Some Panic | Some (Done x) \<Rightarrow> f x)"

definition oret :: "'a \<Rightarrow> 'a outcome" where
  "oret x = Some (Done x)"

lemma obind_simps [simp]:
  "obind (Some (Done x)) f = f x" "obind (Some Panic) f = Some Panic" "obind None f = None"
  "obind (oret x) f = f x"
  by (simp_all add: obind_def oret_def)

lemma obind_eq_Done:
  "obind m f = Some (Done y) \<longleftrightarrow> (\<exists>x. m = Some (Done x) \<and> f x = Some (Done y))"
  by (auto simp: obind_def split: option.splits exec.splits)

text \<open>Which branch of a match gave a result.\<close>

named_theorems branches
  \<comment> \<open>a match that equals a value, as the disjunction of its branches\<close>

lemma result_branch [branches]:
  "(case r of Err e \<Rightarrow> f e | Ok x \<Rightarrow> h x) = y \<longleftrightarrow> (\<exists>e. r = Err e \<and> f e = y) \<or> (\<exists>x. r = Ok x \<and> h x = y)"
  by (cases r) auto

lemma option_branch [branches]:
  "(case r of None \<Rightarrow> f | Some x \<Rightarrow> h x) = y \<longleftrightarrow> r = None \<and> f = y \<or> (\<exists>x. r = Some x \<and> h x = y)"
  by (cases r) auto

lemma exec_branch [branches]:
  "(case r of Panic \<Rightarrow> f | Done x \<Rightarrow> h x) = y \<longleftrightarrow> r = Panic \<and> f = y \<or> (\<exists>x. r = Done x \<and> h x = y)"
  by (cases r) auto

text \<open>The two readings of the clocks.\<close>

definition take_now :: "'c GuestLib \<Rightarrow> GuestState \<Rightarrow> nat \<times> GuestState" where
  "take_now lib g = (gl_now lib (gs_events g), g\<lparr>gs_events := gs_events g + 1\<rparr>)"

definition take_timestamp :: "'c GuestLib \<Rightarrow> GuestState \<Rightarrow> bytes \<times> GuestState" where
  "take_timestamp lib g =
     (main_get_timestamp (gl_secs lib (gs_events g)), g\<lparr>gs_events := gs_events g + 1\<rparr>)"

definition decode_32 :: "'c GuestLib \<Rightarrow> bytes \<Rightarrow> bytes option" where
  "decode_32 lib text =
     (case gl_hexdec lib text of Ok v \<Rightarrow> (if length v = 32 then Some v else None) | Err _ \<Rightarrow> None)"

section \<open>Redis\<close>

definition join_lines :: "bytes list \<Rightarrow> bytes" where
  "join_lines ls = (case ls of [] \<Rightarrow> [] | l # rest \<Rightarrow> l @ concat (map (\<lambda>m. 10 # m) rest))"

definition REDIS_CA_CERT :: bytes where
  "REDIS_CA_CERT = join_lines
     [str ''-----BEGIN CERTIFICATE-----'',
      str ''MIIFBzCCAu+gAwIBAgIUClqKfzeZ5MXU0+ugyLSnJWQGLfgwDQYJKoZIhvcNAQEL'',
      str ''BQAwEzERMA8GA1UEAwwIUmVkaXMgQ0EwHhcNMjYwNDA0MDI0MDQ5WhcNMzYwNDAx'',
      str ''MDI0MDQ5WjATMREwDwYDVQQDDAhSZWRpcyBDQTCCAiIwDQYJKoZIhvcNAQEBBQAD'',
      str ''ggIPADCCAgoCggIBALdxqTgMyMjhtfbOHQp7XIT8+GP0hGkNwANCxkt4P/xdBikt'',
      str ''K6BtykH7eXP59KhSij4pi5pAC5TpOb+fysFfu/VWL4Et4fVzusTXyKc7zhznScAv'',
      str ''gpNk1zzRTVH0oNlS18noc12ZBC3/U8ADAJGSFSgkVzwpsGuw0hivfVcvGh5+iyL3'',
      str ''fuUeh367a9ITmwYAfXgqjXxSURA7/Y7NYUJt0SepZUL/D2kiIEA1lB7I6LbadifU'',
      str ''Ydg2Fw9WoUAgn4nUNifFUu8KP+uEn64ThnjI77bA7tzf45xHKodwIyNZ6tL6lbYF'',
      str ''PrI6UQ3dMaw30vojC7XV0lqQLUM6e/GvXvHESanaYZ5vf23esrVZuRVifjgdbcGb'',
      str ''U1QX0KoT+Gn+TWdCyXn8AUmFzG9q8fYH89os8Ie2sPfJJJphN25y7EhqLDAUwfH2'',
      str ''rRX6c3bOp6zHDrRdcbSbnAwYd8wIdXWG7VkBwz5N8vKamnCR73PcRIOX2AyBcQs9'',
      str ''Lv2mlpyo8K5TFf7g/JuNG7nOrO9g4oYJOyCieJNskzmtXsOMxGK5pb1tXFIE1xwH'',
      str ''o3+o3Ds7+N+iQ1f0bsEm5orLeV/QAGFkhaviX6qGMvMopTlxXikcqEBG0fU2Lely'',
      str ''odu8m0gQBmoG/6YxknhxadJTUhsngAVtuX7fSPQ0Gz8+GLSKoyTxXcGOLMGDAgMB'',
      str ''AAGjUzBRMB0GA1UdDgQWBBQ9M3YTu7STyGREcKYb9eGxFNPMqDAfBgNVHSMEGDAW'',
      str ''gBQ9M3YTu7STyGREcKYb9eGxFNPMqDAPBgNVHRMBAf8EBTADAQH/MA0GCSqGSIb3'',
      str ''DQEBCwUAA4ICAQAYOlFjOa5M1gmUAZC6AQcvTckTXO8Z2Y8HWMw8+r80gYN4Z1x6'',
      str ''mhc5ss08HZRQuisresOykVIKTbipdwz7KK0JAdRy4DfAx/IFSfu6ZP5J3/9FtJ1j'',
      str ''qlowgCPbr5v3nuCpwIiBNSSYVGCL0/K5ch6+YdGV4RnTxoaFQYpRsLfxCZimUjMR'',
      str ''HZ/ez4PuesSygCOIDyRnXW8e5LIpd9eTOr7LQLvwpt+wPv5nGd/DD1jm6CCRUyk+'',
      str ''hHsPwyou/Ik49Tr0TJGrz3BEfWFRtO+CkK+S2cyc6JecGQpvvp+XyaT8XUluyhgH'',
      str ''zf9vQNXhfwLtEnKMkm/d7VFQMVWroktWKnfW/HAH5Z/9urL4E733sXvZ6Iy3/5Jz'',
      str ''is0ZXIg8V/vMdq151XnpjzNV7X5fmwhZcHwkpqeYsxtjIJNUcwgkxtM4nHdhzQwF'',
      str ''oU2XMttjEKi25j4+A1ScErAXTh/1LIkY0urGzdefeDAjDiFRgXSNQQ1u/BQTfxr3'',
      str ''XVgS3rH7bStRstcINlcRN3/KCYL5XX7uQDOrGcFCeOsUWFRkPuA9GnvMAvbrRMjG'',
      str ''7PWWo8Hc8yC/SmueueJTPnSF9MfSuVwwz4nmteibDEh+30hYaImqswOXHVXmOLIh'',
      str ''0KkPerovsWDDVHnn5+Ze2ZQNl9QjT3gOjns75gZXHbZOCN1kgadTVqjfWQ=='',
      str ''-----END CERTIFICATE-----'']"

definition redis_config :: "bytes \<Rightarrow> RedisConfig" where
  "redis_config host = new_with_tls_auth host 6379 REDIS_CA_CERT (str ''sgx'') (str ''changeme'')"

definition with_connection ::
  "'c GuestLib \<Rightarrow> bytes \<Rightarrow> 'c \<Rightarrow> ((RedisError, unit) result \<times> 'c) outcome" where
  "with_connection lib host c = connect (gl_redis lib) (redis_config host) c"

section \<open>The records of a process export\<close>

definition BATCH_SIZE :: u64 where
  "BATCH_SIZE = 100"

text \<open>Pid, ticks, and whether the entry stands for energy without any activity.\<close>

definition export_buckets :: "(u32 \<times> u64) list \<Rightarrow> (u32 \<times> u64 \<times> bool) list" where
  "export_buckets processes =
     (let buckets = map (\<lambda>(pid, ticks). (pid, ticks, False)) processes
      in if list_all (\<lambda>(_, ticks, _). ticks = 0) buckets then buckets @ [(0, 1, True)] else buckets)"

definition microjoules :: "u64 \<Rightarrow> f64" where
  "microjoules uj = f_div (u64_as_f64 uj) (Finite 1000000)"

definition process_record ::
  "bytes \<Rightarrow> bytes \<Rightarrow> f64 \<Rightarrow> u32 \<times> u64 \<times> bool \<Rightarrow> u64 \<Rightarrow> EnergyRecord" where
  "process_record vm_name timestamp cycle_interval_s bucket out_energy =
     (let (pid, ticks, is_placeholder) = bucket;
          cpu_time_seconds = (if is_placeholder then Finite 0 else f_div (u64_as_f64 ticks) (Finite 100));
          energy_joules = microjoules out_energy;
          power_watts = (if f_less (Finite 0) cycle_interval_s then f_div energy_joules cycle_interval_s
                         else Finite 0)
      in \<lparr>er_pid = pid, er_cpu_time = f64_to_bits cpu_time_seconds,
          er_energy_joules = f64_to_bits energy_joules, er_power_watts = f64_to_bits power_watts,
          er_vm_name = vm_name, er_timestamp = timestamp\<rparr>)"

text \<open>The loop over buckets and shares: attribution returns one share per weight.\<close>

fun process_rows ::
  "bytes \<Rightarrow> bytes \<Rightarrow> f64 \<Rightarrow> ((u32 \<times> u64 \<times> bool) \<times> u64) list \<Rightarrow> (u32 \<times> u64) list \<times> EnergyRecord list" where
  "process_rows vm_name timestamp interval [] = ([], [])"
| "process_rows vm_name timestamp interval ((bucket, out_energy) # rest) =
     (let (results, records) = process_rows vm_name timestamp interval rest
      in if out_energy = 0 then (results, records)
         else ((fst bucket, out_energy) # results,
               process_record vm_name timestamp interval bucket out_energy # records))"

text \<open>\<open>now.duration_since(prev)\<close> saturates at zero.\<close>

definition cycle_interval :: "nat option \<Rightarrow> nat \<Rightarrow> f64" where
  "cycle_interval prev now = (case prev of Some p \<Rightarrow> as_secs_f64 (now - p) | None \<Rightarrow> Finite 0)"

section \<open>Storing a block of process records\<close>

definition db_host :: bytes where
  "db_host = str ''192.168.122.1''"

text \<open>The first batch takes up the state found in Redis; an error of the search counts as none.\<close>

definition init_from_redis ::
  "'c GuestLib \<Rightarrow> bytes \<Rightarrow> GuestState \<Rightarrow> 'c \<Rightarrow> (GuestState \<times> 'c) outcome" where
  "init_from_redis lib vm_name g c =
     obind (with_connection lib db_host c) (\<lambda>(r, c).
       case r of
         Err e \<Rightarrow> oret (g, c)
       | Ok _ \<Rightarrow>
           obind (get_latest_block_state (gl_redis lib) (gl_hexdec lib) vm_name c) (\<lambda>(found, c).
             case found of
               Ok (Some (block_num, chained_root)) \<Rightarrow>
                 (case checked_add block_num 1 of
                    Panic \<Rightarrow> Some Panic
                  | Done n \<Rightarrow> oret (g\<lparr>gs_block_number := n, gs_chained_root := chained_root,
                                      gs_initialized := True\<rparr>, c))
             | Ok None \<Rightarrow> oret (g\<lparr>gs_initialized := True\<rparr>, c)
             | Err e \<Rightarrow> oret (g\<lparr>gs_initialized := True\<rparr>, c)))"

text \<open>The block made of the accumulated records, and the chain's head after it is stored.\<close>

definition next_block :: "'c GuestLib \<Rightarrow> bytes \<Rightarrow> bytes \<Rightarrow> GuestState \<Rightarrow> Block" where
  "next_block lib tenant timestamp g =
     new_block (gl_sha lib) (gs_block_number g) tenant (gs_chained_root g) (gs_records g) timestamp"

definition extend_head :: "Block \<Rightarrow> GuestState \<Rightarrow> GuestState exec" where
  "extend_head b g =
     and_then (checked_add (gs_block_number g) 1)
       (\<lambda>n. Done (g\<lparr>gs_block_number := n, gs_chained_root := bk_chained_root b\<rparr>))"

text \<open>Connecting and inserting: whether the block was inserted, the state and the world.\<close>

definition insert_next ::
  "'c GuestLib \<Rightarrow> bytes \<Rightarrow> Block \<Rightarrow> GuestState \<Rightarrow> 'c \<Rightarrow> (bool \<times> GuestState \<times> 'c) outcome" where
  "insert_next lib host b g c =
     obind (with_connection lib host c) (\<lambda>(r, c).
       case r of
         Err e \<Rightarrow> oret (False, g, c)
       | Ok _ \<Rightarrow>
           obind (insert_block (gl_redis lib) (gl_hexenc lib) b c) (\<lambda>(r, c).
             case r of
               Err e \<Rightarrow> oret (False, g, c)
             | Ok block_id \<Rightarrow> obind (Some (extend_head b g)) (\<lambda>g. oret (True, g, c))))"

definition reset_batch :: "GuestState \<Rightarrow> GuestState" where
  "reset_batch g = g\<lparr>gs_iteration_count := 0, gs_records := []\<rparr>"

definition store_batch ::
  "'c GuestLib \<Rightarrow> bytes \<Rightarrow> bytes \<Rightarrow> GuestState \<Rightarrow> 'c \<Rightarrow> (GuestState \<times> 'c) outcome" where
  "store_batch lib vm_name timestamp g c =
     obind (if gs_initialized g then oret (g, c) else init_from_redis lib vm_name g c) (\<lambda>(g, c).
     obind (insert_next lib db_host (next_block lib vm_name timestamp g) g c) (\<lambda>(_, g, c).
       oret (reset_batch g, c)))"

section \<open>Exporting the energy of a virtual machine\<close>

text \<open>The rows of a cycle: records, the count of exports, and the block of a full batch.\<close>

definition record_export ::
  "'c GuestLib \<Rightarrow> DbExportReq \<Rightarrow> ((u32 \<times> u64 \<times> bool) \<times> u64) list \<Rightarrow> GuestState \<Rightarrow> 'c \<Rightarrow>
   (GuestResponse \<times> GuestState \<times> 'c) outcome" where
  "record_export lib request rows g c =
     (let (now, g) = take_now lib g;
          interval = cycle_interval (gs_prev_cycle_at g) now;
          g = g\<lparr>gs_prev_cycle_at := Some now\<rparr>;
          (timestamp, g) = take_timestamp lib g;
          (results, records) = process_rows (dq_vm_name request) timestamp interval rows;
          g = g\<lparr>gs_records := gs_records g @ records\<rparr>
      in obind (Some (checked_add (gs_iteration_count g) 1)) (\<lambda>n.
           let g = g\<lparr>gs_iteration_count := n\<rparr>
           in obind (if n = BATCH_SIZE then store_batch lib (dq_vm_name request) timestamp g c
                     else oret (g, c)) (\<lambda>(g, c).
                oret (\<lparr>gr_status = 0,
                       gr_message = str ''Processed '' @ dec (length (dq_processes request))
                         @ str '' processes, '' @ dec (length results) @ str '' with energy'',
                       gr_output = Some (gl_results_json lib results)\<rparr>, g, c))))"

text \<open>The part after the chain is verified.\<close>

definition export_verified ::
  "'c GuestLib \<Rightarrow> DbExportReq \<Rightarrow> GuestState \<Rightarrow> 'c \<Rightarrow> (GuestResponse \<times> GuestState \<times> 'c) outcome" where
  "export_verified lib request g c =
     (if length (dq_processes request) \<ge> 0xFFFFFFFF then
        oret (answer (-104) (str ''process list too large: '' @ dec (length (dq_processes request))), g, c)
      else
        (let buckets = export_buckets (dq_processes request)
         in obind (Some (attribute_by_weight (dq_energy_delta request) (map (\<lambda>(_, w, _). w) buckets))) (\<lambda>shares.
              case shares of
                None \<Rightarrow> oret (answer (-105) (str ''attribution failed: weights sum to zero''), g, c)
              | Some shares \<Rightarrow>
                  (let attributed = foldl saturating_add 0 shares
                   in if attributed \<noteq> dq_energy_delta request then
                        oret (answer (-106) (str ''conservation violated: shares sum to '' @ dec_u64 attributed
                                @ str '' but delta is '' @ dec_u64 (dq_energy_delta request)), g, c)
                      else record_export lib request (zip buckets shares) g c))))"

definition handle_db_export ::
  "'c GuestLib \<Rightarrow> bytes \<Rightarrow> GuestState \<Rightarrow> 'c \<Rightarrow> (GuestResponse \<times> GuestState \<times> 'c) outcome" where
  "handle_db_export lib json g c =
     (case gl_db_req lib json of
        Err e \<Rightarrow> oret (answer (-101) (str ''Failed to parse db_export request: '' @ e), g, c)
      | Ok request \<Rightarrow>
          obind (Some (checked_add (gs_iteration_count g) 1)) (\<lambda>_.
          case decode_32 lib (dq_previous_hash request) of
            None \<Rightarrow> oret (answer (-102) (str ''Invalid previous_hash''), g, c)
          | Some previous_hash \<Rightarrow>
              (case decode_32 lib (dq_signature request) of
                 None \<Rightarrow> oret (answer (-103) (str ''Invalid signature''), g, c)
               | Some signature \<Rightarrow>
                   (let (verify_result, chains) =
                          ecall_verify_energy_chain (gl_hmac lib) (gl_hexenc lib) (gl_master lib)
                            (Some (dq_vm_name request)) (dq_energy_uj request) (dq_energy_delta request)
                            (dq_counter request) (Some previous_hash) (Some signature) (gs_chains g);
                        g = g\<lparr>gs_chains := chains\<rparr>
                    in if verify_result < 0 then
                         oret (answer verify_result (str ''Chain verification failed: '' @ dec_int verify_result), g, c)
                       else if verify_result = 2 then
                         oret (answer 2 (str ''Skipped (same counter, host not updated)''), g, c)
                       else export_verified lib request g c))))"

section \<open>What a process export does\<close>

definition row_energy :: "('a \<times> u64) list \<Rightarrow> nat" where
  "row_energy rows = (\<Sum>row\<leftarrow>rows. unat (snd row))"

lemma row_energy_simps [simp]:
  "row_energy [] = 0" "row_energy (x # xs) = unat (snd x) + row_energy xs"
  "row_energy (xs @ ys) = row_energy xs + row_energy ys"
  by (simp_all add: row_energy_def)

lemma row_energy_zip: "length xs = length ss \<Longrightarrow> row_energy (zip xs ss) = sum_list (map unat ss)"
  by (induction xs ss rule: list_induct2) simp_all

lemma foldl_saturating:
  "unat (foldl saturating_add a xs) = min (unat a + sum_list (map unat xs)) 18446744073709551615"
proof (induction xs arbitrary: a)
  case Nil
  then show ?case using unat_u64_less [of a] by simp
qed (simp add: unat_saturating_add)

text \<open>The loop keeps the rows with energy.\<close>

lemma process_rows_closed [loops]:
  "process_rows vm ts interval rows =
     (let kept = filter (\<lambda>row. snd row \<noteq> 0) rows
      in (map (\<lambda>row. (fst (fst row), snd row)) kept,
          map (\<lambda>row. process_record vm ts interval (fst row) (snd row)) kept))"
  by (induction rows) (auto simp: Let_def)

lemma process_rows_energy: "row_energy (fst (process_rows vm ts interval rows)) = row_energy rows"
  by (induction rows) (auto simp: process_rows_closed Let_def)

lemma process_rows_origin:
  "(p, e) \<in> set (fst (process_rows vm ts interval rows)) \<Longrightarrow> e \<noteq> 0 \<and> (\<exists>b. fst b = p \<and> (b, e) \<in> set rows)"
  by (force simp: process_rows_closed Let_def)

definition idle_cycle :: "(u32 \<times> u64) list \<Rightarrow> bool" where
  "idle_cycle processes \<longleftrightarrow> (\<forall>(p, ticks) \<in> set processes. ticks = 0)"

lemma idle_buckets: "list_all (\<lambda>(_, ticks, _). ticks = 0) (map (\<lambda>(pid, ticks). (pid, ticks, False)) processes) = idle_cycle processes"
  by (induction processes) (auto simp: idle_cycle_def)

lemma export_buckets_cases:
  "export_buckets processes = map (\<lambda>(p, t). (p, t, False)) processes @ (if idle_cycle processes then [(0, 1, True)] else [])"
  by (simp add: export_buckets_def idle_buckets)

lemma export_weights:
  "\<exists>w \<in> set (map (\<lambda>(_, w, _). w) (export_buckets processes)). w \<noteq> 0"
proof (cases "idle_cycle processes")
  case True
  then show ?thesis by (simp add: export_buckets_cases)
next
  case False
  then obtain p t where "(p, t) \<in> set processes" "t \<noteq> 0" by (auto simp: idle_cycle_def)
  with False show ?thesis by (intro bexI [of _ t]) (auto simp: export_buckets_cases intro!: image_eqI [of _ _ "(p, t)"])
qed

text \<open>The bucket of a row: a process that used CPU time, or the placeholder of an idle cycle.\<close>

definition row_ok :: "(u32 \<times> u64) list \<Rightarrow> u32 \<Rightarrow> bool" where
  "row_ok processes p \<longleftrightarrow>
     (\<exists>ticks. ticks \<noteq> 0 \<and> (p, ticks) \<in> set processes) \<or> p = 0 \<and> idle_cycle processes"

lemma bucket_row_ok:
  "b \<in> set (export_buckets processes) \<Longrightarrow> fst (snd b) \<noteq> 0 \<Longrightarrow> row_ok processes (fst b)"
  by (auto simp: export_buckets_cases row_ok_def split: if_splits)

text \<open>Attribution always succeeds here, so the two later refusals are not reached.\<close>

lemma export_verified_rows:
  assumes "length (dq_processes request) < 0xFFFFFFFF"
  obtains rows where "export_verified lib request g c = record_export lib request rows g c"
    "row_energy rows = unat (dq_energy_delta request)"
    "\<And>b e. (b, e) \<in> set rows \<Longrightarrow> e \<noteq> 0 \<Longrightarrow> row_ok (dq_processes request) (fst b)"
proof -
  define buckets where "buckets = export_buckets (dq_processes request)"
  define ws where "ws = map (\<lambda>(_, w, _). w) buckets"
  have "length ws < 2 ^ 32" using assms by (simp add: ws_def buckets_def export_buckets_cases)
  moreover have "\<exists>w \<in> set ws. w \<noteq> 0" by (simp only: ws_def buckets_def export_weights)
  ultimately obtain ss where a: "attribute_by_weight (dq_energy_delta request) ws = Done (Some ss)"
    and ss: "length ss = length ws" "sum_list (map unat ss) = unat (dq_energy_delta request)"
      "\<forall>i < length ws. ws ! i = 0 \<longrightarrow> ss ! i = 0"
    using attribution_total [of ws "dq_energy_delta request"] by blast
  have "unat (foldl saturating_add 0 ss) = unat (dq_energy_delta request)"
    using unat_u64_less [of "dq_energy_delta request"] by (simp add: foldl_saturating ss(2))
  then have "foldl saturating_add 0 ss = dq_energy_delta request" by (simp only: u64_eq_iff)
  then have 1: "export_verified lib request g c = record_export lib request (zip buckets ss) g c"
    using assms a by (simp add: export_verified_def buckets_def ws_def)
  have 2: "row_energy (zip buckets ss) = unat (dq_energy_delta request)"
    using ss by (simp add: row_energy_zip ws_def)
  have 3: "row_ok (dq_processes request) (fst b)" if "(b, e) \<in> set (zip buckets ss)" "e \<noteq> 0" for b e
  proof -
    from that(1) obtain i where i: "i < length buckets" "b = buckets ! i" "e = ss ! i"
      by (auto simp: set_zip)
    then have "ws ! i \<noteq> 0" using ss(3) that(2) by (auto simp: ws_def)
    then have "fst (snd b) \<noteq> 0" using i by (simp add: ws_def case_prod_unfold)
    then show ?thesis using i bucket_row_ok by (simp add: buckets_def)
  qed
  from 1 2 3 show ?thesis by (rule that)
qed

lemma record_export_ok:
  assumes "record_export lib request rows g c = Some (Done (r, g', c'))"
  shows "gr_status r = 0 \<and> (\<exists>ts interval.
    gr_output r = Some (gl_results_json lib (fst (process_rows (dq_vm_name request) ts interval rows))))"
  using assms by (auto simp: record_export_def obind_eq_Done Let_def oret_def case_prod_unfold) (intro exI, rule refl)

text \<open>C8: A process export conserves energy. When it answers 0, the rows it returns have energies that add up to
  exactly the verified energy of the cycle, each row has some energy, and it belongs to a process of the
  request that used CPU time, or to pid 0 when none did.\<close>
theorem db_export_conserves:
  assumes req: "gl_db_req lib json = Ok request"
    and run: "handle_db_export lib json g c = Some (Done (r, g', c'))" and ok: "gr_status r = 0"
  shows "\<exists>results. gr_output r = Some (gl_results_json lib results) \<and>
    row_energy results = unat (dq_energy_delta request) \<and>
    (\<forall>(p, e) \<in> set results. e \<noteq> 0 \<and> row_ok (dq_processes request) p)"
proof -
  obtain g1 where ev: "export_verified lib request g1 c = Some (Done (r, g', c'))"
    using run ok by (auto simp: handle_db_export_def req obind_eq_Done answer_def oret_def Let_def
        split: option.splits prod.splits if_splits)
  then have "length (dq_processes request) < 0xFFFFFFFF"
    using ok by (auto simp: export_verified_def answer_def oret_def split: if_splits)
  from export_verified_rows [OF this, of lib g1 c] obtain rows
    where rows: "export_verified lib request g1 c = record_export lib request rows g1 c"
      "row_energy rows = unat (dq_energy_delta request)"
      "\<And>b e. (b, e) \<in> set rows \<Longrightarrow> e \<noteq> 0 \<Longrightarrow> row_ok (dq_processes request) (fst b)"
    by blast
  with ev have "record_export lib request rows g1 c = Some (Done (r, g', c'))" by simp
  from record_export_ok [OF this] obtain ts interval where
    out: "gr_output r = Some (gl_results_json lib (fst (process_rows (dq_vm_name request) ts interval rows)))"
    by blast
  have "e \<noteq> 0 \<and> row_ok (dq_processes request) p"
    if "(p, e) \<in> set (fst (process_rows (dq_vm_name request) ts interval rows))" for p e
    using process_rows_origin [OF that] rows(3) by blast
  then show ?thesis using out rows(2)
    by (intro exI [of _ "fst (process_rows (dq_vm_name request) ts interval rows)"])
      (auto simp: process_rows_energy)
qed

section \<open>Nothing is recorded without a verified step\<close>

lemma init_from_redis_chains:
  "init_from_redis lib vm g c = Some (Done (g', c')) \<Longrightarrow> gs_chains g' = gs_chains g"
  by (auto simp: init_from_redis_def obind_eq_Done oret_def branches split: prod.splits)

lemma insert_next_chains:
  "insert_next lib host b g c = Some (Done (i, g', c')) \<Longrightarrow> gs_chains g' = gs_chains g"
  by (auto simp: insert_next_def obind_eq_Done oret_def extend_head_def and_then_eq_Done branches)

lemma store_batch_chains:
  "store_batch lib vm ts g c = Some (Done (g', c')) \<Longrightarrow> gs_chains g' = gs_chains g"
  by (auto simp: store_batch_def obind_eq_Done oret_def reset_batch_def
      dest!: insert_next_chains init_from_redis_chains split: if_splits)

lemma record_export_chains:
  "record_export lib request rows g c = Some (Done (r, g', c')) \<Longrightarrow> gs_chains g' = gs_chains g"
  by (auto simp: record_export_def obind_eq_Done oret_def Let_def take_now_def take_timestamp_def
      dest!: store_batch_chains split: prod.splits if_splits)

text \<open>C2: Energy is recorded only for a verified chain step. When the two hexadecimal fields decode, the chain
  table after an export is the one the chain verifier leaves; if the verifier denies the step or reports a
  replay, its status is the answer and neither the records, the batch, the chain head nor Redis change;
  otherwise the export succeeds unless the list of processes is too long. The conservation check that
  follows the attribution never fails.\<close>
theorem db_export_gated:
  assumes req: "gl_db_req lib json = Ok request"
    and ph: "decode_32 lib (dq_previous_hash request) = Some ph"
    and sg: "decode_32 lib (dq_signature request) = Some sg"
    and step: "ecall_verify_energy_chain (gl_hmac lib) (gl_hexenc lib) (gl_master lib)
      (Some (dq_vm_name request)) (dq_energy_uj request) (dq_energy_delta request)
      (dq_counter request) (Some ph) (Some sg) (gs_chains g) = (v, table)"
    and run: "handle_db_export lib json g c = Some (Done (r, g', c'))"
  shows "gs_chains g' = table \<and>
    (if v < 0 \<or> v = 2 then gr_status r = v \<and> g' = g\<lparr>gs_chains := table\<rparr> \<and> c' = c
     else if length (dq_processes request) \<ge> 0xFFFFFFFF then
       gr_status r = -104 \<and> g' = g\<lparr>gs_chains := table\<rparr> \<and> c' = c
     else gr_status r = 0)"
proof (cases "v < 0 \<or> v = 2")
  case True
  then show ?thesis
    using run by (auto simp: handle_db_export_def req ph sg step obind_eq_Done answer_def oret_def Let_def)
next
  case False
  then have ev: "export_verified lib request (g\<lparr>gs_chains := table\<rparr>) c = Some (Done (r, g', c'))"
    using run by (auto simp: handle_db_export_def req ph sg step obind_eq_Done Let_def)
  show ?thesis
  proof (cases "length (dq_processes request) \<ge> 0xFFFFFFFF")
    case True
    then show ?thesis using ev False by (auto simp: export_verified_def answer_def oret_def)
  next
    case small: False
    then obtain rows where "record_export lib request rows (g\<lparr>gs_chains := table\<rparr>) c = Some (Done (r, g', c'))"
      using export_verified_rows [of request lib "g\<lparr>gs_chains := table\<rparr>" c] ev by (metis not_le)
    from record_export_ok [OF this] record_export_chains [OF this] show ?thesis
      using False small by simp
  qed
qed

section \<open>A restarted enclave continues the stored chain\<close>

text \<open>Connecting succeeds and leaves what is seen of the store as it is.\<close>

definition redis_reachable :: "'c GuestLib \<Rightarrow> bytes \<Rightarrow> ('c \<Rightarrow> 'v) \<Rightarrow> bool" where
  "redis_reachable lib host view \<longleftrightarrow>
     (\<forall>c. \<exists>c'. with_connection lib host c = Some (Done (Ok (), c')) \<and> view c' = view c)"


section \<open>An instance\<close>

text \<open>An enclave whose Redis is the small store; requests are fixed.\<close>

definition demo_export :: DbExportReq where
  "demo_export =
     \<lparr>dq_vm_name = str ''vm1'', dq_energy_uj = 10, dq_counter = 1, dq_previous_hash = zero_hash,
      dq_signature = chain_mac toy_hmac id id (str ''vm1'') 1 10 10 zero_hash, dq_energy_delta = 10,
      dq_processes = [(7, 3), (9, 0)]\<rparr>"

definition demo_guest :: "tiny GuestLib" where
  "demo_guest =
     \<lparr>gl_sha = toy_sha, gl_hmac = toy_hmac, gl_hexenc = id, gl_hexdec = Ok, gl_master = id, gl_build_key = id,
      gl_pk_of = (\<lambda>_. Err []), gl_ecdsa = (\<lambda>_ _. Err []), gl_der = (\<lambda>_. Err []),
      gl_db_req = (\<lambda>_. Ok demo_export), gl_gpu_req = (\<lambda>_. Err []), gl_results_json = (\<lambda>_. []),
      gl_labels_json = (\<lambda>_. []), gl_now = id, gl_secs = id, gl_cert_ok = (\<lambda>_. True), gl_immudb_ca = [],
      gl_dial = (\<lambda>_ _ _. Err (-5)), gl_redis = tiny_ops\<rparr>"

lemma demo_guest_simps [simp]:
  "gl_sha demo_guest = toy_sha" "gl_hmac demo_guest = toy_hmac" "gl_hexenc demo_guest = id"
  "gl_hexdec demo_guest = Ok" "gl_master demo_guest = id" "gl_db_req demo_guest json = Ok demo_export"
  "gl_redis demo_guest = tiny_ops" "gl_dial demo_guest = (\<lambda>_ _ _. Err (-5))"
  by (simp_all add: demo_guest_def)

lemma demo_export_simps [simp]:
  "dq_vm_name demo_export = str ''vm1''" "dq_energy_uj demo_export = 10" "dq_counter demo_export = 1"
  "dq_previous_hash demo_export = zero_hash" "dq_energy_delta demo_export = 10"
  "dq_signature demo_export = chain_mac toy_hmac id id (str ''vm1'') 1 10 10 zero_hash"
  "dq_processes demo_export = [(7, 3), (9, 0)]"
  by (simp_all add: demo_export_def)

lemma demo_step:
  "\<exists>chains. ecall_verify_energy_chain toy_hmac id id (Some (str ''vm1'')) 10 10 1 (Some zero_hash)
     (Some (chain_mac toy_hmac id id (str ''vm1'') 1 10 10 zero_hash)) Map.empty = (1, chains)"
proof -
  have "utf8_valid (str ''vm1'')" by code_simp
  then show ?thesis
    by (simp add: ecall_verify_energy_chain_def entry_or_new_def vm_chain_new_def admit_chain_step_def
        Let_def)
qed

lemma demo_decode [simp]:
  "decode_32 demo_guest zero_hash = Some zero_hash"
  "decode_32 demo_guest (chain_mac toy_hmac id id vm n e d ph) = Some (chain_mac toy_hmac id id vm n e d ph)"
  using length_toy_hmac by (simp_all add: decode_32_def zero_hash_def chain_mac_def)

lemma demo_runs:
  "\<exists>r g' c'. handle_db_export demo_guest [] guest_start c = Some (Done (r, g', c')) \<and> gr_status r = 0"
proof -
  obtain chains where step: "ecall_verify_energy_chain toy_hmac id id (Some (str ''vm1'')) 10 10 1 (Some zero_hash)
     (Some (chain_mac toy_hmac id id (str ''vm1'') 1 10 10 zero_hash)) Map.empty = (1, chains)"
    using demo_step by blast
  have l: "length (dq_processes demo_export) < 0xFFFFFFFF" by simp
  define g where "g = guest_start\<lparr>gs_chains := chains\<rparr>"
  have "handle_db_export demo_guest [] guest_start c = export_verified demo_guest demo_export g c"
    using step by (simp add: handle_db_export_def checked_add_def guest_start_def g_def)
  moreover obtain rows where "export_verified demo_guest demo_export g c = record_export demo_guest demo_export rows g c"
    using export_verified_rows [OF l] by metis
  moreover have "\<exists>r g' c'. record_export demo_guest demo_export rows g c = Some (Done (r, g', c')) \<and> gr_status r = 0"
    by (simp add: record_export_def g_def guest_start_def take_now_def take_timestamp_def checked_add_def
        BATCH_SIZE_def oret_def case_prod_unfold Let_def)
  ultimately show ?thesis by simp
qed

lemma db_export_conserves_witness:
  "\<exists>results. row_energy results = 10 \<and> (\<forall>(p, e) \<in> set results. e \<noteq> 0 \<and> row_ok [(7, 3), (9, 0)] p)"
proof -
  have req: "gl_db_req demo_guest [] = Ok demo_export" by simp
  obtain r g' c' where run: "handle_db_export demo_guest [] guest_start ([], 0) = Some (Done (r, g', c'))"
    "gr_status r = 0" using demo_runs by blast
  from db_export_conserves [OF req run] show ?thesis by auto
qed

lemma db_export_gated_witness:
  "\<exists>r g' c'. handle_db_export demo_guest [] guest_start ([], 0) = Some (Done (r, g', c')) \<and> gr_status r = 0"
proof -
  have req: "gl_db_req demo_guest [] = Ok demo_export" by simp
  obtain r g' c' where run: "handle_db_export demo_guest [] guest_start ([], 0) = Some (Done (r, g', c'))"
    using demo_runs by blast
  obtain chains where "ecall_verify_energy_chain toy_hmac id id (Some (str ''vm1'')) 10 10 1 (Some zero_hash)
     (Some (chain_mac toy_hmac id id (str ''vm1'') 1 10 10 zero_hash)) Map.empty = (1, chains)"
    using demo_step by blast
  with db_export_gated [OF req _ _ _ run, of zero_hash "dq_signature demo_export" 1 chains] run
  show ?thesis by (simp add: guest_start_def)
qed

lemma tiny_connection: "gl_redis lib = tiny_ops \<Longrightarrow> with_connection lib host c = Some (Done (Ok (), c))"
  by (simp add: with_connection_def connect_def redis_config_def new_with_tls_auth_def connect_tls_def
      connecting_def tiny_ops_def init_def authenticate_redis_def tiny_command_def expect_ok_def
      value_is_ok_def rbind_def rret_def)

lemma tiny_connects: "gl_redis lib = tiny_ops \<Longrightarrow> redis_reachable lib host view"
  by (simp add: redis_reachable_def tiny_connection)


end
