(* ===== verification/GuestGpu.thy ===== *)
theory GuestGpu
  imports GuestExport
begin

text \<open>
  The GPU exports of the guest enclave (\<open>src/sgx_vm/src/main.rs\<close>): a node's GPU energy is checked (device
  bindings in ImmuDB, integrity tags), split over the processes' owners, signed as a step of the node's
  chain, and every hundred exports the accumulated records become a block whose head is anchored; the
  stored chain is taken up only when its anchor verifies.
\<close>

section \<open>The owner of a GPU process\<close>

definition is_hex_text :: "bytes \<Rightarrow> bool" where
  "is_hex_text s \<longleftrightarrow> list_all is_ascii_hexdigit s"

fun container_segments :: "bytes list \<Rightarrow> bytes option" where
  "container_segments [] = None"
| "container_segments (seg # segs) =
     (let s = (case strip_suffix (str ''.scope'') seg of Some t \<Rightarrow> t | None \<Rightarrow> seg);
          candidate = last_piece 0x2D s
      in if 12 \<le> length candidate \<and> is_hex_text candidate then Some (take_chars 12 candidate)
         else if 32 \<le> length seg \<and> is_hex_text seg then Some (take_chars 12 seg)
         else container_segments segs)"

fun container_lines :: "bytes list \<Rightarrow> bytes option" where
  "container_lines [] = None"
| "container_lines (line # rest) =
     (case container_segments (split_on 0x2F (last_piece 0x3A line)) of
        Some found \<Rightarrow> Some found
      | None \<Rightarrow> container_lines rest)"

definition extract_container_id_from_cgroup :: "bytes \<Rightarrow> bytes option" where
  "extract_container_id_from_cgroup content = container_lines (lines content)"

text \<open>The machine named by one segment of the path.\<close>

definition machine_name :: "bytes \<Rightarrow> bytes option" where
  "machine_name seg =
     (let decoded = replace_all (0x5C # str ''x2d'') (str ''-'') seg
      in case strip_suffix (str ''.scope'') decoded of
           None \<Rightarrow> None
         | Some without_scope \<Rightarrow>
             (let named =
                (case strip_prefix (str ''machine-qemu-'') without_scope of
                   Some rest \<Rightarrow> Some (case splitn 2 0x2D rest of [a, b] \<Rightarrow> b | _ \<Rightarrow> rest)
                 | None \<Rightarrow> strip_prefix (str ''vm-'') without_scope)
              in case named of
                   None \<Rightarrow> None
                 | Some name \<Rightarrow> (if is_valid_tenant_label name then Some name else None)))"

text \<open>The segments after a \<open>machine.slice\<close>; the last one that names a machine counts.\<close>

fun machine_segments :: "bytes list \<Rightarrow> bytes option \<Rightarrow> bytes option" where
  "machine_segments (before # seg # segs) found =
     machine_segments (seg # segs)
       (if before = str ''machine.slice''
        then (case machine_name seg of Some name \<Rightarrow> Some name | None \<Rightarrow> found) else found)"
| "machine_segments _ found = found"

definition extract_vm_name_from_cgroup :: "bytes \<Rightarrow> bytes option" where
  "extract_vm_name_from_cgroup content =
     fold (\<lambda>line found. machine_segments (split_on 0x2F (last_piece 0x3A line)) found) (lines content) None"

definition resolve_gpu_owner :: "bytes \<Rightarrow> bytes \<Rightarrow> bytes" where
  "resolve_gpu_owner cgroup node_id =
     (case extract_vm_name_from_cgroup cgroup of
        Some vm \<Rightarrow> str ''vm:'' @ vm
      | None \<Rightarrow>
          (case extract_container_id_from_cgroup cgroup of
             Some ctr \<Rightarrow> str ''ctr:'' @ ctr
           | None \<Rightarrow> str ''node:'' @ node_id))"

section \<open>The checks of a GPU export\<close>

text \<open>The first index that occurs a second time.\<close>

fun duplicate_index :: "u32 list \<Rightarrow> GpuGroup list \<Rightarrow> u32 option" where
  "duplicate_index seen [] = None"
| "duplicate_index seen (gpu # gpus) =
     (if gg_gpu_index gpu \<in> set seen then Some (gg_gpu_index gpu)
      else duplicate_index (gg_gpu_index gpu # seen) gpus)"

text \<open>Whether ImmuDB holds a non-empty value under the key; any failure counts as no.\<close>

definition binding_lookup :: "'c GuestLib \<Rightarrow> GpuDbExportReq \<Rightarrow> bytes \<Rightarrow> GuestState \<Rightarrow> bool \<times> GuestState" where
  "binding_lookup lib request key g =
     (case fetch_expected_hash_from_immudb (gl_cert_ok lib) (gl_dial lib) (gs_events g) key
             (nq_node_id request) (nq_deployment_type request) (nq_immudb_addr request) (gl_immudb_ca lib) of
        (Ok (h, _), n) \<Rightarrow> (h \<noteq> [], g\<lparr>gs_events := n\<rparr>)
      | (Err _, n) \<Rightarrow> (False, g\<lparr>gs_events := n\<rparr>))"

definition cached_or :: "'c GuestLib \<Rightarrow> GpuDbExportReq \<Rightarrow> bytes \<Rightarrow> GuestState \<Rightarrow> bool \<times> GuestState" where
  "cached_or lib request key g =
     (case gs_bindings g key of
        Some v \<Rightarrow> (v, g)
      | None \<Rightarrow>
          (let (v, g) = binding_lookup lib request key g
           in (v, g\<lparr>gs_bindings := (gs_bindings g)(key \<mapsto> v)\<rparr>)))"

definition uuid_key :: "GpuGroup \<Rightarrow> bytes" where
  "uuid_key gpu = take_chars 48 (gg_gpu_uuid gpu)"

definition single_quoted :: "bytes \<Rightarrow> bytes" where
  "single_quoted s = [39] @ s @ [39]"

definition unbound_answer :: "GpuDbExportReq \<Rightarrow> GpuGroup \<Rightarrow> GuestResponse" where
  "unbound_answer request gpu = answer (-13)
     (str ''GPU '' @ uuid_key gpu @ str '' is not registered to node '' @ single_quoted (nq_node_id request)
      @ str ''. Under passthrough the host chooses which physical card a node sees, so an unbound device means this energy would be attributed to a tenant that may not have burned it.'')"

fun binding_loop ::
  "'c GuestLib \<Rightarrow> GpuDbExportReq \<Rightarrow> bool \<Rightarrow> GpuGroup list \<Rightarrow> GuestState \<Rightarrow> GuestResponse option \<times> GuestState" where
  "binding_loop lib request enforced [] g = (None, g)"
| "binding_loop lib request enforced (gpu # gpus) g =
     (let (bound, g) = cached_or lib request (str ''gpu:'' @ uuid_key gpu) g
      in if \<not> bound \<and> enforced then (Some (unbound_answer request gpu), g)
         else binding_loop lib request enforced gpus g)"

text \<open>The device bindings: a refusal or whether tags are enforced, and the state.\<close>

definition check_bindings ::
  "'c GuestLib \<Rightarrow> GpuDbExportReq \<Rightarrow> GuestState \<Rightarrow> (GuestResponse, bool) result \<times> GuestState" where
  "check_bindings lib request g =
     (if nq_immudb_addr request = [] then (Ok False, g)
      else
        (let (enforced, g) = cached_or lib request (str ''gpu_binding_enforced'') g;
             (tag_enforced, g) = cached_or lib request (str ''gpu_tag_enforced'') g
         in case binding_loop lib request enforced (nq_gpus request) g of
              (Some r, g) \<Rightarrow> (Err r, g)
            | (None, g) \<Rightarrow> (Ok tag_enforced, g)))"

text \<open>The tag of one reading: a refusal, or nothing.\<close>

definition check_tag :: "GpuDbExportReq \<Rightarrow> bool \<Rightarrow> GpuGroup \<Rightarrow> GuestResponse option" where
  "check_tag request tag_enforced gpu =
     (case gg_tag gpu of
        Some t \<Rightarrow>
          (case nq_tag_key request of
             None \<Rightarrow>
               Some (answer (-127) (str ''gpu'' @ dec (unat (gg_gpu_index gpu)) @ str '' presented an integrity tag but no SipTag key was supplied - the tag cannot be checked, so it is not evidence''))
           | Some (k0, k1) \<Rightarrow>
               (let expected = siptag k0 k1 (gt_energy_uj t) (gt_timestamp_ns t) (gg_gpu_index gpu)
                      TAG_PRODUCER_GPU SIPTAG_VERSION SIPTAG_PRODUCER_GPU_NVML (nq_tag_epoch request);
                    tag_ok = admit_measurement_tag (gt_hash t) expected \<noteq> None
                in if \<not> tag_ok \<or> gt_energy_uj t \<noteq> gg_energy_uj gpu then
                     Some (answer (-102) (str ''GPU tag verification failed for gpu'' @ dec (unat (gg_gpu_index gpu))))
                   else None))
      | None \<Rightarrow>
          (if tag_enforced then
             Some (answer (-105) (str ''gpu'' @ dec (unat (gg_gpu_index gpu)) @ str '' sent no eBPF integrity tag while enforcement is provisioned for node '' @ single_quoted (nq_node_id request) @ str ''. Energy with no tag has no evidence of kernel origin.''))
           else None))"

text \<open>\<open>iter().sum()\<close> of \<open>u64\<close> values\<close>

fun sum_checked :: "u64 list \<Rightarrow> u64 exec" where
  "sum_checked [] = Done 0"
| "sum_checked (x # xs) = and_then (sum_checked xs) (checked_add x)"

section \<open>The energy of one GPU\<close>

function trim_prefixes :: "bytes \<Rightarrow> bytes \<Rightarrow> bytes" where
  "trim_prefixes p s =
     (case strip_prefix p s of Some r \<Rightarrow> (if p = [] then s else trim_prefixes p r) | None \<Rightarrow> s)"
  by pat_completeness auto
termination
  by (relation "measure (\<lambda>(p, s). length s)")
    (auto simp: strip_prefix_def starts_with_def split: if_splits intro!: diff_less)

declare trim_prefixes.simps [simp del]

definition uuid_tag :: "GpuGroup \<Rightarrow> bytes" where
  "uuid_tag gpu = take 8 (filter is_ascii_alphanumeric (trim_prefixes (str ''GPU-'') (uuid_key gpu)))"

definition state_key :: "GpuDbExportReq \<Rightarrow> GpuGroup \<Rightarrow> bytes" where
  "state_key request gpu =
     nq_node_id request @ str '':idx'' @ dec (unat (gg_gpu_index gpu)) @ str '':'' @ uuid_key gpu"

text \<open>The energy since the last reading of the device; a counter that went back gives none.\<close>

definition gpu_delta :: "u64 option \<Rightarrow> u64 \<Rightarrow> u64" where
  "gpu_delta previous energy_uj =
     (case previous of
        Some last_uj \<Rightarrow> (if energy_uj \<ge> last_uj then energy_uj - last_uj else 0)
      | None \<Rightarrow> 0)"

definition gpu_baseline :: "u64 option \<Rightarrow> u64 \<Rightarrow> u64" where
  "gpu_baseline previous energy_uj =
     (case previous of Some last_uj \<Rightarrow> max last_uj energy_uj | None \<Rightarrow> energy_uj)"

definition MAX_UJ_PER_CYCLE :: u64 where
  "MAX_UJ_PER_CYCLE = 400 * 10 * 1000000"

text \<open>Label, weight and pid of each share.\<close>

definition gpu_suffix :: "GpuGroup \<Rightarrow> bytes" where
  "gpu_suffix gpu = str ''@gpu'' @ dec (unat (gg_gpu_index gpu)) @ str '':'' @ uuid_tag gpu"

definition gpu_buckets :: "GpuDbExportReq \<Rightarrow> bool \<Rightarrow> GpuGroup \<Rightarrow> (bytes \<times> u64 \<times> u32) list" where
  "gpu_buckets request bracketed gpu =
     (if bracketed then
        map (\<lambda>p. (str ''pid:'' @ dec (unat (gp_pid p)) @ str ''@''
                    @ resolve_gpu_owner (gp_cgroup p) (nq_node_id request) @ gpu_suffix gpu,
                  min (gp_util p) 100, gp_pid p))
          (filter (\<lambda>p. gp_util p \<noteq> 0) (gg_procs gpu))
      else [])"

definition gpu_shares_for :: "GpuDbExportReq \<Rightarrow> u64 \<Rightarrow> GpuGroup \<Rightarrow> (bytes \<times> u64 \<times> u32) list exec" where
  "gpu_shares_for request delta gpu =
     (let bracketed = delta \<le> MAX_UJ_PER_CYCLE;
          buckets = gpu_buckets request bracketed gpu
      in and_then (sum_checked (map (\<lambda>(_, u, _). u) buckets)) (\<lambda>total_util.
           Done (if total_util = 0 then
                   buckets @ [(str ''pid:0@'' @ (if bracketed then str ''idle'' else str ''unattributed'')
                               @ gpu_suffix gpu, 1, 0)]
                 else buckets)))"

fun gpu_rows :: "bytes \<Rightarrow> ((bytes \<times> u64 \<times> u32) \<times> u64) list \<Rightarrow> (bytes \<times> u64) list \<times> EnergyRecord list" where
  "gpu_rows timestamp [] = ([], [])"
| "gpu_rows timestamp (((label, util, pid), out_energy) # rest) =
     (let (results, records) = gpu_rows timestamp rest
      in if out_energy = 0 then (results, records)
         else ((label, out_energy) # results,
               \<lparr>er_pid = pid, er_cpu_time = f64_to_bits (u64_as_f64 util),
                er_energy_joules = f64_to_bits (microjoules out_energy), er_power_watts = f64_to_bits (Finite 0),
                er_vm_name = label, er_timestamp = timestamp\<rparr> # records))"

text \<open>What the loop over the GPUs carries: the rows, the two totals, and the statics.\<close>

record GpuAcc =
  ga_results :: "(bytes \<times> u64) list"
  ga_energy_uj :: u64
  ga_delta :: u64
  ga_state :: GuestState

text \<open>One GPU: a refusal (with the statics as they are then), or the loop's values after it.\<close>

definition attribute_gpu ::
  "GpuDbExportReq \<Rightarrow> bytes \<Rightarrow> GpuGroup \<Rightarrow> GpuAcc \<Rightarrow> GpuAcc exec" where
  "attribute_gpu request timestamp gpu acc =
     (let g = ga_state acc;
          energy = saturating_add (ga_energy_uj acc) (gg_energy_uj gpu);
          key = state_key request gpu;
          previous = gs_gpu_energy g key;
          delta = gpu_delta previous (gg_energy_uj gpu);
          g = g\<lparr>gs_gpu_energy := (gs_gpu_energy g)(key \<mapsto> gpu_baseline previous (gg_energy_uj gpu))\<rparr>;
          acc = acc\<lparr>ga_energy_uj := energy, ga_delta := saturating_add (ga_delta acc) delta, ga_state := g\<rparr>
      in if delta = 0 then Done acc
         else
           and_then (gpu_shares_for request delta gpu) (\<lambda>buckets.
           and_then (attribute_by_weight delta (map (\<lambda>(_, util, _). util) buckets)) (\<lambda>shares.
             case shares of
               None \<Rightarrow> Done acc
             | Some shares \<Rightarrow>
                 (let (results, records) = gpu_rows timestamp (zip buckets shares)
                  in Done (acc\<lparr>ga_results := ga_results acc @ results,
                               ga_state := g\<lparr>gs_records := gs_records g @ records\<rparr>\<rparr>)))))"

fun gpu_groups ::
  "GpuDbExportReq \<Rightarrow> bytes \<Rightarrow> bool \<Rightarrow> GpuGroup list \<Rightarrow> GpuAcc \<Rightarrow> (GuestResponse option \<times> GpuAcc) exec" where
  "gpu_groups request timestamp tag_enforced [] acc = Done (None, acc)"
| "gpu_groups request timestamp tag_enforced (gpu # gpus) acc =
     (case check_tag request tag_enforced gpu of
        Some r \<Rightarrow> Done (Some r, acc)
      | None \<Rightarrow>
          and_then (attribute_gpu request timestamp gpu acc) (gpu_groups request timestamp tag_enforced gpus))"

section \<open>Storing a block of GPU records\<close>

definition gpu_host :: bytes where
  "gpu_host = str ''127.0.0.1''"

text \<open>\<open>.ok().flatten()\<close>: an error counts as nothing found.\<close>

definition ok_flatten :: "(RedisError, 'a option) result \<Rightarrow> 'a option" where
  "ok_flatten r = (case r of Ok v \<Rightarrow> v | Err _ \<Rightarrow> None)"

text \<open>Taking up the stored chain; \<open>True\<close> when it is refused.\<close>

definition resume_state ::
  "(u64 \<times> bytes) option \<Rightarrow> (u64 \<times> bytes) option \<Rightarrow> GuestState \<Rightarrow> (bool \<times> GuestState) exec" where
  "resume_state anchor stored g =
     (let (have_anchor, anchor_block, anchor_root) =
            (case anchor of Some (b, r) \<Rightarrow> (True, b, r) | None \<Rightarrow> (False, 0, zero_hash));
          (have_stored, stored_block, stored_root) =
            (case stored of Some (b, r) \<Rightarrow> (True, b, r) | None \<Rightarrow> (False, 0, zero_hash));
          roots_equal = slices_eq anchor_root stored_root
      in case decide_resume have_anchor anchor_block have_stored stored_block roots_equal of
           Resume block_number \<Rightarrow>
             and_then (checked_add block_number 1) (\<lambda>n.
               Done (False, g\<lparr>gs_block_number := n, gs_chained_root := anchor_root, gs_initialized := True\<rparr>))
         | Fresh \<Rightarrow> Done (False, g\<lparr>gs_initialized := True\<rparr>)
         | Refuse reason \<Rightarrow> Done (True, g\<lparr>gs_resume_refused := True\<rparr>))"

definition resume_chain ::
  "'c GuestLib \<Rightarrow> bytes \<Rightarrow> GuestState \<Rightarrow> 'c \<Rightarrow> (bool \<times> GuestState \<times> 'c) outcome" where
  "resume_chain lib tenant g c =
     obind (with_connection lib gpu_host c) (\<lambda>(r, c).
       case r of
         Err e \<Rightarrow> oret (False, g, c)
       | Ok _ \<Rightarrow>
           obind (redis_get (gl_redis lib) (str ''gpu_checkpoint:'' @ tenant) c) (\<lambda>(line, c).
           obind (get_latest_block_state (gl_redis lib) (gl_hexdec lib) tenant c) (\<lambda>(found, c).
           obind (Some (resume_state
                    (Option.bind (ok_flatten line) (verify_checkpoint_line (gl_hmac lib) (gl_master lib) tenant))
                    (ok_flatten found) g)) (\<lambda>(refused, g).
             oret (refused, g, c)))))"

text \<open>The two anchors of the new head; a failed write is logged only.\<close>

definition public_anchor_line :: "'c GuestLib \<Rightarrow> bytes \<Rightarrow> Block \<Rightarrow> bytes \<times> bytes \<Rightarrow> bytes" where
  "public_anchor_line lib tenant b = (\<lambda>(sig_hex, pub_hex).
     str ''anchor-ecdsa-p256-v2|'' @ tenant @ str ''|'' @ dec_u64 (bk_block_number b) @ str ''|''
     @ gl_hexenc lib (bk_chained_root b) @ str ''|'' @ sig_hex @ str ''|'' @ pub_hex)"

definition store_anchors :: "'c GuestLib \<Rightarrow> bytes \<Rightarrow> Block \<Rightarrow> 'c \<Rightarrow> 'c outcome" where
  "store_anchors lib tenant b c =
     obind (case public_anchor_signature (gl_sha lib) (gl_hexenc lib) (gl_build_key lib) (gl_pk_of lib)
             (gl_ecdsa lib) (gl_der lib) tenant (bk_block_number b) (bk_chained_root b) of
              Ok pair \<Rightarrow>
                obind (redis_set (gl_redis lib) (str ''gpu_anchor_sig:'' @ tenant)
                         (public_anchor_line lib tenant b pair) c) (\<lambda>(_, c). oret c)
            | Err e \<Rightarrow> oret c) (\<lambda>c.
     obind (redis_set (gl_redis lib) (str ''gpu_checkpoint:'' @ tenant)
              (checkpoint_line (gl_hmac lib) (gl_hexenc lib) (gl_master lib) tenant
                 (bk_block_number b) (bk_chained_root b)) c) (\<lambda>(_, c). oret c))"

definition flush_gpu_block_to_redis ::
  "'c GuestLib \<Rightarrow> bytes \<Rightarrow> bytes \<Rightarrow> GuestState \<Rightarrow> 'c \<Rightarrow> (GuestState \<times> 'c) outcome" where
  "flush_gpu_block_to_redis lib tenant timestamp g c =
     (if gs_resume_refused g then oret (g, c)
      else
        obind (if gs_initialized g then oret (False, g, c) else resume_chain lib tenant g c) (\<lambda>(refused, g, c).
          if refused then oret (g, c)
          else
            (let b = next_block lib tenant timestamp g
             in obind (insert_next lib gpu_host b g c) (\<lambda>(inserted, g, c).
                obind (if inserted then store_anchors lib tenant b c else oret c) (\<lambda>c.
                  oret (reset_batch g, c))))))"

section \<open>Exporting the energy of a node's GPUs\<close>

definition GPU_BATCH_SIZE :: u64 where
  "GPU_BATCH_SIZE = 100"

text \<open>The signed step of the node's chain, and the block of a full batch.\<close>

definition sign_and_store ::
  "'c GuestLib \<Rightarrow> GpuDbExportReq \<Rightarrow> bytes \<Rightarrow> GpuAcc \<Rightarrow> 'c \<Rightarrow> (GuestResponse \<times> GuestState \<times> 'c) outcome" where
  "sign_and_store lib request timestamp acc c =
     (let g = ga_state acc
      in obind (Some (ecall_sign_energy_chain (gl_hmac lib) (gl_hexenc lib) (gl_master lib)
                  (Some (str ''gpu:'' @ nq_node_id request)) (ga_energy_uj acc) (ga_delta acc) True (gs_chains g)))
           (\<lambda>(sign_result, _, chains).
              let g = g\<lparr>gs_chains := chains\<rparr>
              in if sign_result < 0 then
                   oret (answer sign_result (str ''GPU chain signing failed: '' @ dec_int sign_result), g, c)
                 else
                   obind (Some (checked_add (gs_iteration_count g) 1)) (\<lambda>n.
                     let g = g\<lparr>gs_iteration_count := n\<rparr>
                     in obind (if n = GPU_BATCH_SIZE
                               then flush_gpu_block_to_redis lib (nq_node_id request) timestamp g c
                               else oret (g, c)) (\<lambda>(g, c).
                          oret (\<lparr>gr_status = 0,
                                 gr_message = str ''GPU: attributed '' @ dec (length (ga_results acc))
                                   @ str '' container rows across '' @ dec (length (nq_gpus request)) @ str '' GPU(s)'',
                                 gr_output = Some (gl_labels_json lib (ga_results acc))\<rparr>, g, c)))))"

definition handle_gpu_db_export ::
  "'c GuestLib \<Rightarrow> bytes \<Rightarrow> GuestState \<Rightarrow> 'c \<Rightarrow> (GuestResponse \<times> GuestState \<times> 'c) outcome" where
  "handle_gpu_db_export lib json g c =
     (case gl_gpu_req lib json of
        Err e \<Rightarrow> oret (answer (-101) (str ''Failed to parse gpu_db_export request: '' @ e), g, c)
      | Ok request \<Rightarrow>
          if \<not> is_valid_tenant_label (nq_node_id request) then
            oret (answer (-102) (str ''node_id is not a valid tenant label''), g, c)
          else
            obind (Some (checked_add (gs_iteration_count g) 1)) (\<lambda>_.
            let (timestamp, g) = take_timestamp lib g
            in case duplicate_index [] (nq_gpus request) of
                 Some i \<Rightarrow>
                   oret (answer (-103) (str ''duplicate gpu_index '' @ dec (unat i) @ str '' in request''), g, c)
               | None \<Rightarrow>
                   (case check_bindings lib request g of
                      (Err r, g) \<Rightarrow> oret (r, g, c)
                    | (Ok tag_enforced, g) \<Rightarrow>
                        obind (Some (gpu_groups request timestamp tag_enforced (nq_gpus request)
                                 \<lparr>ga_results = [], ga_energy_uj = 0, ga_delta = 0, ga_state = g\<rparr>))
                          (\<lambda>(refusal, acc).
                             case refusal of
                               Some r \<Rightarrow> oret (r, ga_state acc, c)
                             | None \<Rightarrow> sign_and_store lib request timestamp acc c))))"

section \<open>The rows of a GPU add up to its energy\<close>

lemma gpu_rows_energy: "row_energy (fst (gpu_rows ts rows)) = row_energy rows"
  by (induction ts rows rule: gpu_rows.induct) (auto simp: case_prod_unfold Let_def)

lemma sum_checked_sum: "sum_checked xs = Done s \<Longrightarrow> unat s = sum_list (map unat xs)"
proof (induction xs arbitrary: s)
  case (Cons x xs)
  then obtain t where t: "sum_checked xs = Done t" "checked_add x t = Done s"
    by (auto simp: and_then_eq_Done)
  then have "unat s = unat x + unat t"
    by (auto simp: checked_add_Done unat_word_ariths)
  then show ?case using Cons.IH [OF t(1)] by simp
qed simp

lemma gpu_shares_positive:
  assumes "gpu_shares_for request delta gpu = Done buckets"
  shows "\<exists>w \<in> set (map (\<lambda>(_, u, _). u) buckets). w \<noteq> 0"
proof -
  define bs where "bs = gpu_buckets request (delta \<le> MAX_UJ_PER_CYCLE) gpu"
  obtain t where t: "sum_checked (map (\<lambda>(_, u, _). u) bs) = Done t"
    and b: "buckets = (if t = 0 then bs @ [(str ''pid:0@'' @ (if delta \<le> MAX_UJ_PER_CYCLE then str ''idle''
        else str ''unattributed'') @ gpu_suffix gpu, 1, 0)] else bs)"
    using assms by (auto simp: gpu_shares_for_def bs_def Let_def and_then_eq_Done)
  show ?thesis
  proof (cases "t = 0")
    case True
    then show ?thesis using b by simp
  next
    case False
    then have "sum_list (map unat (map (\<lambda>(_, u, _). u) bs)) \<noteq> 0"
      unfolding sum_checked_sum [OF t, symmetric] by (simp add: unat_eq_0)
    then have "\<not> (\<forall>w \<in> set (map (\<lambda>(_, u, _). u) bs). w = 0)" by (simp only: sum_weights_zero simp_thms)
    then show ?thesis using b False by auto
  qed
qed

lemma gpu_shares_length:
  "gpu_shares_for request delta gpu = Done buckets \<Longrightarrow> length buckets \<le> length (gg_procs gpu) + 1"
  by (auto simp: gpu_shares_for_def gpu_buckets_def Let_def and_then_eq_Done le_SucI)

text \<open>One GPU adds its delta to the node's, and rows of that energy.\<close>

lemma attribute_gpu_energy:
  assumes "attribute_gpu request ts gpu acc = Done acc'" "length (gg_procs gpu) < 2 ^ 32 - 1"
  shows "\<exists>delta rows. ga_results acc' = ga_results acc @ rows \<and> row_energy rows = unat delta \<and>
    ga_delta acc' = saturating_add (ga_delta acc) delta \<and>
    ga_energy_uj acc' = saturating_add (ga_energy_uj acc) (gg_energy_uj gpu) \<and>
    gs_chains (ga_state acc') = gs_chains (ga_state acc)"
proof -
  define delta where "delta = gpu_delta (gs_gpu_energy (ga_state acc) (state_key request gpu)) (gg_energy_uj gpu)"
  show ?thesis
  proof (cases "delta = 0")
    case True
    then show ?thesis
      using assms(1) by (intro exI [of _ 0] exI [of _ "[]"]) (auto simp: attribute_gpu_def delta_def [symmetric] Let_def)
  next
    case False
    obtain buckets where b: "gpu_shares_for request delta gpu = Done buckets"
      using assms(1) False by (auto simp: attribute_gpu_def delta_def [symmetric] Let_def and_then_eq_Done)
    define ws where "ws = map (\<lambda>(_, util, _). util) buckets"
    have "length ws < 2 ^ 32" using gpu_shares_length [OF b] assms(2) by (simp add: ws_def)
    moreover have "\<exists>w \<in> set ws. w \<noteq> 0" unfolding ws_def by (rule gpu_shares_positive [OF b])
    ultimately obtain ss where a: "attribute_by_weight delta ws = Done (Some ss)"
      and ss: "length ss = length ws" "sum_list (map unat ss) = unat delta"
      using attribution_total [of ws delta] by blast
    obtain rows records where r: "gpu_rows ts (zip buckets ss) = (rows, records)" by fastforce
    have "row_energy rows = unat delta"
      using ss gpu_rows_energy [of ts "zip buckets ss"] by (simp add: r row_energy_zip ws_def)
    then show ?thesis
      using assms(1) False b a r
      by (intro exI [of _ delta] exI [of _ rows])
        (auto simp: attribute_gpu_def delta_def [symmetric] ws_def [symmetric] Let_def)
  qed
qed

lemma gpu_groups_energy:
  assumes "gpu_groups request ts enforced gpus acc = Done (None, acc')"
    and "\<forall>gpu \<in> set gpus. length (gg_procs gpu) < 2 ^ 32 - 1"
    and "unat (ga_delta acc) = min (row_energy (ga_results acc)) 18446744073709551615"
  shows "unat (ga_delta acc') = min (row_energy (ga_results acc')) 18446744073709551615 \<and>
    unat (ga_energy_uj acc') =
      min (unat (ga_energy_uj acc) + (\<Sum>gpu\<leftarrow>gpus. unat (gg_energy_uj gpu))) 18446744073709551615 \<and>
    gs_chains (ga_state acc') = gs_chains (ga_state acc)"
  using assms
proof (induction gpus arbitrary: acc)
  case Nil
  then show ?case using unat_u64_less [of "ga_energy_uj acc"] by simp
next
  case (Cons gpu gpus)
  then obtain acc1 where s: "attribute_gpu request ts gpu acc = Done acc1"
      "gpu_groups request ts enforced gpus acc1 = Done (None, acc')"
    by (auto simp: and_then_eq_Done split: option.splits)
  obtain delta rows where e: "ga_results acc1 = ga_results acc @ rows" "row_energy rows = unat delta"
    "ga_delta acc1 = saturating_add (ga_delta acc) delta"
    "ga_energy_uj acc1 = saturating_add (ga_energy_uj acc) (gg_energy_uj gpu)"
    "gs_chains (ga_state acc1) = gs_chains (ga_state acc)"
    using attribute_gpu_energy [OF s(1)] Cons.prems(2) by auto
  have "unat (ga_delta acc1) = min (row_energy (ga_results acc1)) 18446744073709551615"
    using e Cons.prems(3) by (simp add: unat_saturating_add)
  from Cons.IH [OF s(2) _ this] Cons.prems(2) e show ?case
    by (simp add: unat_saturating_add)
qed

section \<open>The signed step of a GPU export\<close>

lemma resume_state_cases:
  "resume_state anchor stored g = Done (refused, g') \<longleftrightarrow>
     (case (anchor, stored) of
        (None, None) \<Rightarrow> \<not> refused \<and> g' = g\<lparr>gs_initialized := True\<rparr>
      | (Some (n, r), Some (m, q)) \<Rightarrow>
          (if n = m \<and> r = q
           then unat n + 1 < 2 ^ 64 \<and> \<not> refused \<and>
             g' = g\<lparr>gs_block_number := n + 1, gs_chained_root := r, gs_initialized := True\<rparr>
           else refused \<and> g' = g\<lparr>gs_resume_refused := True\<rparr>)
      | _ \<Rightarrow> refused \<and> g' = g\<lparr>gs_resume_refused := True\<rparr>)"
  by (auto simp: resume_state_def decide_resume_def slices_eq_spec checked_add_def Let_def
      split: option.splits prod.splits)

lemma resume_state_chains: "resume_state anchor stored g = Done (refused, g') \<Longrightarrow> gs_chains g' = gs_chains g"
  by (cases anchor; cases stored) (auto simp: resume_state_cases split: if_splits)

lemma resume_chain_chains:
  "resume_chain lib tenant g c = Some (Done (refused, g', c')) \<Longrightarrow> gs_chains g' = gs_chains g"
  by (auto simp: resume_chain_def obind_eq_Done oret_def branches dest: resume_state_chains)

lemma flush_chains:
  "flush_gpu_block_to_redis lib tenant ts g c = Some (Done (g', c')) \<Longrightarrow> gs_chains g' = gs_chains g"
  by (auto simp: flush_gpu_block_to_redis_def obind_eq_Done oret_def reset_batch_def Let_def
      dest!: insert_next_chains resume_chain_chains split: if_splits)

lemma binding_loop_refusal: "binding_loop lib request e gpus g = (Some r, g') \<Longrightarrow> gr_status r = -13"
  by (induction gpus arbitrary: g) (auto simp: unbound_answer_def answer_def split: prod.splits if_splits)

lemma check_bindings_refusal: "check_bindings lib request g = (Err r, g') \<Longrightarrow> gr_status r = -13"
  by (auto simp: check_bindings_def branches dest: binding_loop_refusal split: if_splits prod.splits)

lemma check_bindings_refusal_fst: "fst (check_bindings lib request g) = Err r \<Longrightarrow> gr_status r = -13"
  using check_bindings_refusal by (metis prod.collapse)

lemma check_tag_refusal: "check_tag request e gpu = Some r \<Longrightarrow> gr_status r < 0"
  by (auto simp: check_tag_def answer_def Let_def split: option.splits if_splits)

lemma gpu_groups_refusal: "gpu_groups request ts e gpus acc = Done (Some r, acc') \<Longrightarrow> gr_status r < 0"
  by (induction gpus arbitrary: acc) (auto simp: and_then_eq_Done branches dest: check_tag_refusal)

lemma handle_gpu_accepted:
  assumes "gl_gpu_req lib json = Ok request"
    and "handle_gpu_db_export lib json g c = Some (Done (r, g', c'))" "gr_status r = 0"
  obtains ts enforced g1 acc where
    "fst (check_bindings lib request (snd (take_timestamp lib g))) = Ok enforced"
    "snd (check_bindings lib request (snd (take_timestamp lib g))) = g1"
    "gpu_groups request ts enforced (nq_gpus request)
       \<lparr>ga_results = [], ga_energy_uj = 0, ga_delta = 0, ga_state = g1\<rparr> = Done (None, acc)"
    "sign_and_store lib request ts acc c = Some (Done (r, g', c'))"
  using assms that
  by (auto simp: handle_gpu_db_export_def obind_eq_Done answer_def oret_def branches case_prod_unfold Let_def
      dest!: check_bindings_refusal_fst gpu_groups_refusal split: if_splits)

lemma binding_lookup_chains: "gs_chains (snd (binding_lookup lib request key g)) = gs_chains g"
  by (auto simp: binding_lookup_def split: prod.split result.split)

lemma cached_or_chains: "gs_chains (snd (cached_or lib request key g)) = gs_chains g"
  using binding_lookup_chains [of lib request key g]
  by (auto simp: cached_or_def Let_def case_prod_unfold split: option.split)

lemma binding_loop_chains: "gs_chains (snd (binding_loop lib request e gpus g)) = gs_chains g"
  by (induction gpus arbitrary: g) (simp_all add: cached_or_chains Let_def case_prod_unfold)

lemma check_bindings_chains: "gs_chains (snd (check_bindings lib request g)) = gs_chains g"
proof -
  have "gs_chains (snd (binding_loop lib request e gpus (snd (cached_or lib request k2 (snd (cached_or lib request k1 g)))))) = gs_chains g"
    for e gpus k1 k2
    by (simp only: binding_loop_chains cached_or_chains)
  then show ?thesis
    by (auto simp: check_bindings_def Let_def case_prod_unfold split: option.split)
qed

text \<open>The node's chain after a signed export.\<close>

lemma sign_and_store_chain:
  assumes "sign_and_store lib request ts acc c = Some (Done (r, g', c'))" "gr_status r = 0"
  shows "\<exists>counter.
    gr_output r = Some (gl_labels_json lib (ga_results acc)) \<and>
    gs_chains g' (str ''gpu:'' @ nq_node_id request) =
      (let before = entry_or_new (gs_chains (ga_state acc)) (str ''gpu:'' @ nq_node_id request)
       in Some \<lparr>vs_counter = counter,
         vs_last_signature = chain_mac (gl_hmac lib) (gl_hexenc lib) (gl_master lib) (str ''gpu:'' @ nq_node_id request)
           counter (ga_energy_uj acc) (ga_delta acc) (vs_last_signature before),
         vs_initialized = True, vs_last_energy_uj = ga_energy_uj acc\<rparr>)"
proof -
  obtain res out chains where s: "ecall_sign_energy_chain (gl_hmac lib) (gl_hexenc lib) (gl_master lib)
      (Some (str ''gpu:'' @ nq_node_id request)) (ga_energy_uj acc) (ga_delta acc) True
      (gs_chains (ga_state acc)) = Done (res, out, chains)"
    and nn: "\<not> res < 0" and o: "gr_output r = Some (gl_labels_json lib (ga_results acc))"
    and g: "gs_chains g' = chains"
    using assms
    by (auto simp: sign_and_store_def obind_eq_Done oret_def answer_def Let_def dest!: flush_chains split: if_splits)
  from s nn show ?thesis
    unfolding o g by (auto simp: ecall_sign_energy_chain_def Let_def branches split: if_splits)
qed

text \<open>C16: A GPU export conserves energy up to the signature. When it answers 0, the delta that the node's chain signs
  is the sum of the energies of the rows it returns (cut at the largest 64-bit value), the signed total is
  the sum of the devices' readings (cut likewise), and the chain's new signature is the MAC of the node's
  tenant, the next counter, both values and the previous signature.\<close>
theorem gpu_export_conserves:
  assumes req: "gl_gpu_req lib json = Ok request"
    and procs: "\<forall>gpu \<in> set (nq_gpus request). length (gg_procs gpu) < 2 ^ 32 - 1"
    and run: "handle_gpu_db_export lib json g c = Some (Done (r, g', c'))" "gr_status r = 0"
  shows "\<exists>results energy delta counter.
    gr_output r = Some (gl_labels_json lib results) \<and>
    unat delta = min (row_energy results) (2 ^ 64 - 1) \<and>
    unat energy = min (\<Sum>gpu\<leftarrow>nq_gpus request. unat (gg_energy_uj gpu)) (2 ^ 64 - 1) \<and>
    gs_chains g' (str ''gpu:'' @ nq_node_id request) =
      (let before = entry_or_new (gs_chains g) (str ''gpu:'' @ nq_node_id request)
       in Some \<lparr>vs_counter = counter,
         vs_last_signature = chain_mac (gl_hmac lib) (gl_hexenc lib) (gl_master lib) (str ''gpu:'' @ nq_node_id request)
           counter energy delta (vs_last_signature before),
         vs_initialized = True, vs_last_energy_uj = energy\<rparr>)"
proof -
  obtain ts enforced g1 acc where b: "snd (check_bindings lib request (snd (take_timestamp lib g))) = g1"
    and gr: "gpu_groups request ts enforced (nq_gpus request)
       \<lparr>ga_results = [], ga_energy_uj = 0, ga_delta = 0, ga_state = g1\<rparr> = Done (None, acc)"
    and s: "sign_and_store lib request ts acc c = Some (Done (r, g', c'))"
    using handle_gpu_accepted [OF req run] by metis
  have ch: "gs_chains g1 = gs_chains g"
    unfolding b [symmetric] by (simp add: check_bindings_chains take_timestamp_def)
  have e: "unat (ga_delta acc) = min (row_energy (ga_results acc)) (2 ^ 64 - 1)"
    "unat (ga_energy_uj acc) = min (\<Sum>gpu\<leftarrow>nq_gpus request. unat (gg_energy_uj gpu)) (2 ^ 64 - 1)"
    "gs_chains (ga_state acc) = gs_chains g"
    using gpu_groups_energy [OF gr procs] ch by simp_all
  from sign_and_store_chain [OF s run(2)] obtain counter where
    "gr_output r = Some (gl_labels_json lib (ga_results acc))"
    "gs_chains g' (str ''gpu:'' @ nq_node_id request) =
      (let before = entry_or_new (gs_chains (ga_state acc)) (str ''gpu:'' @ nq_node_id request)
       in Some \<lparr>vs_counter = counter,
         vs_last_signature = chain_mac (gl_hmac lib) (gl_hexenc lib) (gl_master lib) (str ''gpu:'' @ nq_node_id request)
           counter (ga_energy_uj acc) (ga_delta acc) (vs_last_signature before),
         vs_initialized = True, vs_last_energy_uj = ga_energy_uj acc\<rparr>)"
    by blast
  with e show ?thesis by (intro exI [of _ "ga_results acc"] exI [of _ "ga_energy_uj acc"] exI [of _ "ga_delta acc"] exI [of _ counter]) simp
qed

section \<open>Every accepted reading was checked\<close>

definition tag_checked :: "GpuDbExportReq \<Rightarrow> GpuGroup \<Rightarrow> bool" where
  "tag_checked request gpu \<longleftrightarrow>
     (\<forall>t. gg_tag gpu = Some t \<longrightarrow>
        gt_energy_uj t = gg_energy_uj gpu \<and>
        (\<exists>k0 k1. nq_tag_key request = Some (k0, k1) \<and>
           gt_hash t = siptag k0 k1 (gg_energy_uj gpu) (gt_timestamp_ns t) (gg_gpu_index gpu)
             TAG_PRODUCER_GPU SIPTAG_VERSION SIPTAG_PRODUCER_GPU_NVML (nq_tag_epoch request)))"

lemma check_tag_ok:
  "check_tag request enforced gpu = None \<Longrightarrow> tag_checked request gpu \<and> (enforced \<longrightarrow> gg_tag gpu \<noteq> None)"
  by (auto simp: check_tag_def tag_checked_def admit_measurement_tag_def Let_def split: option.splits if_splits)

lemma gpu_groups_checked:
  "gpu_groups request ts enforced gpus acc = Done (None, acc') \<Longrightarrow> gpu \<in> set gpus \<Longrightarrow>
   tag_checked request gpu \<and> (enforced \<longrightarrow> gg_tag gpu \<noteq> None)"
  by (induction gpus arbitrary: acc) (auto simp: and_then_eq_Done dest: check_tag_ok split: option.splits)

lemma duplicate_index_none:
  "duplicate_index seen gpus = None \<Longrightarrow>
   distinct (map gg_gpu_index gpus) \<and> (\<forall>gpu \<in> set gpus. gg_gpu_index gpu \<notin> set seen)"
proof (induction gpus arbitrary: seen)
  case (Cons gpu gpus)
  then have "gg_gpu_index gpu \<notin> set seen" "duplicate_index (gg_gpu_index gpu # seen) gpus = None"
    by (simp_all split: if_splits)
  from this(1) Cons.IH [OF this(2)] show ?case by auto
qed simp

text \<open>C17: A GPU export that answers 0 has checked every reading: the node label is valid, no device occurs twice,
  every tag that came with a reading is the SipHash tag of that very reading under the key of the request,
  and when the registry's answer that tags are enforced is on hand, every reading came with one.\<close>
theorem gpu_export_checked:
  assumes req: "gl_gpu_req lib json = Ok request"
    and run: "handle_gpu_db_export lib json g c = Some (Done (r, g', c'))" "gr_status r = 0"
  shows "is_valid_tenant_label (nq_node_id request) \<and> distinct (map gg_gpu_index (nq_gpus request)) \<and>
    (\<forall>gpu \<in> set (nq_gpus request). tag_checked request gpu \<and>
       (nq_immudb_addr request \<noteq> [] \<and> gs_bindings g (str ''gpu_tag_enforced'') = Some True \<longrightarrow> gg_tag gpu \<noteq> None))"
proof -
  have "is_valid_tenant_label (nq_node_id request)" "duplicate_index [] (nq_gpus request) = None"
    using run by (auto simp: handle_gpu_db_export_def req answer_def obind_eq_Done oret_def Let_def
        split: if_splits option.splits prod.splits)
  moreover obtain ts enforced g1 acc where
    b: "fst (check_bindings lib request (snd (take_timestamp lib g))) = Ok enforced"
    and gr: "gpu_groups request ts enforced (nq_gpus request)
       \<lparr>ga_results = [], ga_energy_uj = 0, ga_delta = 0, ga_state = g1\<rparr> = Done (None, acc)"
    using handle_gpu_accepted [OF req run] by metis
  have kept: "gs_bindings (snd (cached_or lib request k g)) k' = Some v" if "gs_bindings g k' = Some v" for k k' v g
    using that by (auto simp: cached_or_def binding_lookup_def split: option.splits prod.splits result.splits)
  have "enforced" if "nq_immudb_addr request \<noteq> []" "gs_bindings g (str ''gpu_tag_enforced'') = Some True"
  proof -
    have "gs_bindings (snd (cached_or lib request (str ''gpu_binding_enforced'') (snd (take_timestamp lib g))))
        (str ''gpu_tag_enforced'') = Some True"
      using that(2) by (intro kept) (simp add: take_timestamp_def)
    then show ?thesis
      using b that(1) by (auto simp: check_bindings_def case_prod_unfold cached_or_def [of lib request "str ''gpu_tag_enforced''"] Let_def
          split: option.splits)
  qed
  ultimately show ?thesis using duplicate_index_none [of "[]" "nq_gpus request"] gpu_groups_checked [OF gr] by blast
qed

section \<open>Which chain a restarted enclave takes up\<close>

lemma resume_chain_Done:
  assumes "resume_chain lib tenant g c = Some (Done (refused, g', c'))"
  shows "if refused then g' = g\<lparr>gs_resume_refused := True\<rparr>
    else g' = g \<or> g' = g\<lparr>gs_initialized := True\<rparr> \<or>
      (\<exists>line n top c1 c2. verify_checkpoint_line (gl_hmac lib) (gl_master lib) tenant line = Some (n, top) \<and>
         get_latest_block_state (gl_redis lib) (gl_hexdec lib) tenant c1 = Some (Done (Ok (Some (n, top)), c2)) \<and>
         g' = g\<lparr>gs_block_number := n + 1, gs_chained_root := top, gs_initialized := True\<rparr>)"
proof -
  have "refused = False \<and> g' = g \<or> (\<exists>line found c1 c2.
      get_latest_block_state (gl_redis lib) (gl_hexdec lib) tenant c1 = Some (Done (found, c2)) \<and>
      resume_state (Option.bind (ok_flatten line) (verify_checkpoint_line (gl_hmac lib) (gl_master lib) tenant))
        (ok_flatten found) g = Done (refused, g'))"
    using assms by (auto simp: resume_chain_def obind_eq_Done oret_def branches)
  then show ?thesis
  proof (elim disjE exE conjE)
    fix line found c1 c2
    assume f: "get_latest_block_state (gl_redis lib) (gl_hexdec lib) tenant c1 = Some (Done (found, c2))"
      and r: "resume_state (Option.bind (ok_flatten line) (verify_checkpoint_line (gl_hmac lib) (gl_master lib) tenant))
        (ok_flatten found) g = Done (refused, g')"
    have found: "ok_flatten found = Some x \<Longrightarrow> found = Ok (Some x)" for x
      by (simp add: ok_flatten_def branches)
    have bind: "Option.bind (ok_flatten line) (verify_checkpoint_line (gl_hmac lib) (gl_master lib) tenant) = Some x \<Longrightarrow>
        \<exists>l. verify_checkpoint_line (gl_hmac lib) (gl_master lib) tenant l = Some x" for x
      by (auto simp: bind_eq_Some_conv)
    show ?thesis
      using r f
      by (cases "Option.bind (ok_flatten line) (verify_checkpoint_line (gl_hmac lib) (gl_master lib) tenant)";
          cases "ok_flatten found")
        (simp_all add: resume_state_cases case_prod_unfold split: if_splits,
          metis prod.collapse found bind)
  qed simp
qed


text \<open>What Redis documents of plain values: \<open>kv c k\<close> is the text stored under \<open>k\<close>.\<close>

definition redis_strings ::
  "'c RedisOps \<Rightarrow> ('c \<Rightarrow> bytes \<Rightarrow> bytes \<rightharpoonup> bytes) \<Rightarrow> ('c \<Rightarrow> bytes \<rightharpoonup> bytes) \<Rightarrow> bool" where
  "redis_strings ops db kv \<longleftrightarrow>
     (\<forall>c k. ro_command ops [str ''GET'', k] c = Some (Done (Ok (text_value (kv c k)), c))) \<and>
     (\<forall>c k v. \<not> block_key k \<longrightarrow> (\<exists>resp c'. ro_command ops [str ''SET'', k, v] c = Some (Done (Ok resp, c')) \<and>
        kv c' = (kv c)(k := Some v) \<and> (\<forall>k. block_key k \<longrightarrow> db c' k = db c k)))"

lemma redis_set_documented:
  assumes "redis_strings ops db kv" "\<not> block_key k"
  shows "\<exists>b c'. redis_set ops k v c = Some (Done (Ok b, c')) \<and> kv c' = (kv c)(k := Some v) \<and>
    (\<forall>k. block_key k \<longrightarrow> db c' k = db c k)"
proof -
  obtain resp c' where "ro_command ops [str ''SET'', k, v] c = Some (Done (Ok resp, c'))"
    "kv c' = (kv c)(k := Some v)" "\<forall>k. block_key k \<longrightarrow> db c' k = db c k"
    using assms unfolding redis_strings_def by meson
  then show ?thesis by (simp add: redis_set_def rbind_Done rret_def)
qed

lemma redis_get_documented:
  "redis_strings ops db kv \<Longrightarrow> redis_get ops k c = Some (Done (Ok (kv c k), c))"
  by (simp add: redis_strings_def redis_get_def rbind_Done rret_def)

lemma anchor_keys: "\<not> block_key (str ''gpu_checkpoint:'' @ t)" "\<not> block_key (str ''gpu_anchor_sig:'' @ t)"
  by (simp_all add: block_key_def starts_with_def str_def)

lemma store_anchors_documented:
  assumes "redis_strings (gl_redis lib) db kv"
  shows "\<exists>c'. store_anchors lib tenant b c = Some (Done c') \<and>
    kv c' (str ''gpu_checkpoint:'' @ tenant) =
      Some (checkpoint_line (gl_hmac lib) (gl_hexenc lib) (gl_master lib) tenant (bk_block_number b) (bk_chained_root b)) \<and>
    (\<forall>k. block_key k \<longrightarrow> db c' k = db c k)"
proof -
  have "\<exists>c1. (case public_anchor_signature (gl_sha lib) (gl_hexenc lib) (gl_build_key lib) (gl_pk_of lib)
             (gl_ecdsa lib) (gl_der lib) tenant (bk_block_number b) (bk_chained_root b) of
              Ok pair \<Rightarrow>
                obind (redis_set (gl_redis lib) (str ''gpu_anchor_sig:'' @ tenant)
                         (public_anchor_line lib tenant b pair) c) (\<lambda>(_, c). oret c)
            | Err e \<Rightarrow> oret c) = Some (Done c1) \<and> (\<forall>k. block_key k \<longrightarrow> db c1 k = db c k)"
  proof (cases "public_anchor_signature (gl_sha lib) (gl_hexenc lib) (gl_build_key lib) (gl_pk_of lib)
             (gl_ecdsa lib) (gl_der lib) tenant (bk_block_number b) (bk_chained_root b)")
    case (Ok pair)
    then show ?thesis
      using redis_set_documented [OF assms anchor_keys(2), of tenant "public_anchor_line lib tenant b pair" c]
      by (auto simp: oret_def)
  qed (simp add: oret_def)
  then obtain c1 where c1: "obind (case public_anchor_signature (gl_sha lib) (gl_hexenc lib) (gl_build_key lib) (gl_pk_of lib)
             (gl_ecdsa lib) (gl_der lib) tenant (bk_block_number b) (bk_chained_root b) of
              Ok pair \<Rightarrow>
                obind (redis_set (gl_redis lib) (str ''gpu_anchor_sig:'' @ tenant)
                         (public_anchor_line lib tenant b pair) c) (\<lambda>(_, c). oret c)
            | Err e \<Rightarrow> oret c) f = f c1" and d1: "\<forall>k. block_key k \<longrightarrow> db c1 k = db c k" for f :: "'a \<Rightarrow> 'a outcome"
    by force
  obtain ok c2 where "redis_set (gl_redis lib) (str ''gpu_checkpoint:'' @ tenant)
      (checkpoint_line (gl_hmac lib) (gl_hexenc lib) (gl_master lib) tenant (bk_block_number b) (bk_chained_root b)) c1 =
        Some (Done (Ok ok, c2))"
    "kv c2 (str ''gpu_checkpoint:'' @ tenant) =
      Some (checkpoint_line (gl_hmac lib) (gl_hexenc lib) (gl_master lib) tenant (bk_block_number b) (bk_chained_root b))"
    "\<forall>k. block_key k \<longrightarrow> db c2 k = db c1 k"
    using redis_set_documented [OF assms anchor_keys(1), of tenant "checkpoint_line (gl_hmac lib) (gl_hexenc lib)
      (gl_master lib) tenant (bk_block_number b) (bk_chained_root b)" c1] by auto
  then show ?thesis using d1 by (simp add: store_anchors_def c1 oret_def)
qed


section \<open>Examples\<close>

text \<open>A node with one device, whose reading is tagged and whose last reading was zero.\<close>

definition demo_gpu :: GpuGroup where
  "demo_gpu =
     \<lparr>gg_gpu_index = 0, gg_gpu_uuid = str ''GPU-a'', gg_energy_uj = 10,
      gg_procs = [\<lparr>gp_pid = 7, gp_util = 3, gp_cgroup = []\<rparr>],
      gg_tag = Some \<lparr>gt_energy_uj = 10, gt_timestamp_ns = 5,
        gt_hash = siptag 1 2 10 5 0 TAG_PRODUCER_GPU SIPTAG_VERSION SIPTAG_PRODUCER_GPU_NVML 1\<rparr>\<rparr>"

definition demo_node :: GpuDbExportReq where
  "demo_node =
     \<lparr>nq_node_id = str ''node1'', nq_gpus = [demo_gpu], nq_immudb_addr = [], nq_deployment_type = [],
      nq_tag_key = Some (1, 2), nq_tag_epoch = 1\<rparr>"

definition demo_gpu_guest :: "tiny GuestLib" where
  "demo_gpu_guest = demo_guest\<lparr>gl_gpu_req := (\<lambda>_. Ok demo_node), gl_hexenc := hex_lower,
     gl_hexdec := (\<lambda>s. case hex_decode_32 s of Some v \<Rightarrow> Ok v | None \<Rightarrow> Err [])\<rparr>"

definition demo_gpu_state :: GuestState where
  "demo_gpu_state = guest_start\<lparr>gs_gpu_energy := [state_key demo_node demo_gpu \<mapsto> 0], gs_initialized := True\<rparr>"

lemma demo_gpu_simps [simp]:
  "gl_sha demo_gpu_guest = toy_sha" "gl_hmac demo_gpu_guest = toy_hmac" "gl_hexenc demo_gpu_guest = hex_lower"
  "gl_gpu_req demo_gpu_guest json = Ok demo_node" "gl_redis demo_gpu_guest = tiny_ops" "gl_master demo_gpu_guest = id"
  "gl_labels_json demo_gpu_guest rows = []" "length h = 32 \<Longrightarrow> gl_hexdec demo_gpu_guest (hex_lower h) = Ok h"
  "nq_gpus demo_node = [demo_gpu]" "nq_node_id demo_node = str ''node1''" "nq_immudb_addr demo_node = []"
  "gg_energy_uj demo_gpu = 10" "gg_gpu_index demo_gpu = 0" "length (gg_procs demo_gpu) = 1"
  "is_valid_tenant_label (str ''node1'')" "utf8_valid (str ''gpu:'' @ str ''node1'')"
proof -
  show "is_valid_tenant_label (str ''node1'')" "utf8_valid (str ''gpu:'' @ str ''node1'')" by code_simp+
qed (simp_all add: demo_gpu_guest_def demo_guest_def demo_node_def demo_gpu_def hex_decode_32_lower)

lemma demo_gpu_tag: "check_tag demo_node enforced demo_gpu = None"
  by (simp add: check_tag_def demo_gpu_def demo_node_def admit_measurement_tag_def)

lemma demo_gpu_attributed:
  assumes "gs_gpu_energy (ga_state acc) = [state_key demo_node demo_gpu \<mapsto> 0]"
  shows "\<exists>acc'. attribute_gpu demo_node ts demo_gpu acc = Done acc'"
proof -
  have "\<exists>b. gpu_shares_for demo_node 10 demo_gpu = Done b"
    by (simp add: gpu_shares_for_def gpu_buckets_def demo_gpu_def MAX_UJ_PER_CYCLE_def checked_add_def)
  then obtain b where b: "gpu_shares_for demo_node 10 demo_gpu = Done b" ..
  have "length b < 2 ^ 32" using gpu_shares_length [OF b] by simp
  then obtain ss where "attribute_by_weight 10 (map (\<lambda>(_, util, _). util) b) = Done (Some ss)"
    using attribution_total [of "map (\<lambda>(_, util, _). util) b" 10] gpu_shares_positive [OF b] by auto
  with b assms show ?thesis by (simp add: attribute_gpu_def gpu_delta_def case_prod_unfold Let_def)
qed

lemma demo_gpu_runs:
  "\<exists>r g' c'. handle_gpu_db_export demo_gpu_guest [] demo_gpu_state c = Some (Done (r, g', c')) \<and> gr_status r = 0"
proof -
  define ts where "ts = fst (take_timestamp demo_gpu_guest demo_gpu_state)"
  define g where "g = snd (take_timestamp demo_gpu_guest demo_gpu_state)"
  define acc where "acc = \<lparr>ga_results = [], ga_energy_uj = 0, ga_delta = 0, ga_state = g\<rparr>"
  have t: "take_timestamp demo_gpu_guest demo_gpu_state = (ts, g)" by (simp add: ts_def g_def)
  have g: "gs_gpu_energy g = [state_key demo_node demo_gpu \<mapsto> 0]" "gs_iteration_count g = 0" "gs_chains g = Map.empty"
    by (simp_all add: g_def take_timestamp_def demo_gpu_state_def guest_start_def)
  have i: "gs_iteration_count demo_gpu_state = 0" by (simp add: demo_gpu_state_def guest_start_def)
  obtain acc' where a: "attribute_gpu demo_node ts demo_gpu acc = Done acc'"
    using demo_gpu_attributed g(1) by (metis acc_def GpuAcc.select_convs(4))
  have k: "gs_iteration_count (ga_state acc') = 0" "gs_chains (ga_state acc') = Map.empty"
    using a g by (auto simp: attribute_gpu_def acc_def and_then_eq_Done branches case_prod_unfold Let_def split: if_splits)
  have "handle_gpu_db_export demo_gpu_guest [] demo_gpu_state c = sign_and_store demo_gpu_guest demo_node ts acc' c"
    using a i by (simp add: handle_gpu_db_export_def t checked_add_def check_bindings_def demo_gpu_tag acc_def [symmetric])
  moreover have "\<exists>r g' c'. sign_and_store demo_gpu_guest demo_node ts acc' c = Some (Done (r, g', c')) \<and> gr_status r = 0"
    using k by (simp add: sign_and_store_def ecall_sign_energy_chain_def entry_or_new_def vm_chain_new_def checked_add_def
        GPU_BATCH_SIZE_def oret_def Let_def)
  ultimately show ?thesis by simp
qed

lemma gpu_export_conserves_witness:
  "\<exists>(results :: (bytes \<times> u64) list) (delta :: u64). unat delta = min (row_energy results) (2 ^ 64 - 1) \<and>
    (\<exists>(g' :: GuestState) s. gs_chains g' (str ''gpu:'' @ str ''node1'') = Some s \<and> vs_last_energy_uj s = 10)"
proof -
  have req: "gl_gpu_req demo_gpu_guest [] = Ok demo_node" by simp
  obtain r g' c' where run: "handle_gpu_db_export demo_gpu_guest [] demo_gpu_state ([], 0) = Some (Done (r, g', c'))"
    "gr_status r = 0" using demo_gpu_runs by blast
  have procs: "\<forall>gpu \<in> set (nq_gpus demo_node). length (gg_procs gpu) < 2 ^ 32 - 1" by simp
  from gpu_export_conserves [OF req procs run] show ?thesis
  proof (elim exE conjE)
    fix results :: "(bytes \<times> u64) list" and delta counter energy :: u64
    assume d: "unat delta = min (row_energy results) (2 ^ 64 - 1)"
      and e: "unat energy = min (\<Sum>gpu\<leftarrow>nq_gpus demo_node. unat (gg_energy_uj gpu)) (2 ^ 64 - 1)"
      and s: "gs_chains g' (str ''gpu:'' @ nq_node_id demo_node) =
        (let before = entry_or_new (gs_chains demo_gpu_state) (str ''gpu:'' @ nq_node_id demo_node)
         in Some \<lparr>vs_counter = counter,
           vs_last_signature = chain_mac (gl_hmac demo_gpu_guest) (gl_hexenc demo_gpu_guest) (gl_master demo_gpu_guest)
             (str ''gpu:'' @ nq_node_id demo_node) counter energy delta (vs_last_signature before),
           vs_initialized = True, vs_last_energy_uj = energy\<rparr>)"
    from e have "energy = 10" by (simp add: word_unat_eq_iff)
    with s have "\<exists>s. gs_chains g' (str ''gpu:'' @ str ''node1'') = Some s \<and> vs_last_energy_uj s = 10"
      by (simp add: Let_def)
    with d show ?thesis by blast
  qed
qed

lemma gpu_export_checked_witness:
  "\<exists>r g' c'. handle_gpu_db_export demo_gpu_guest [] demo_gpu_state ([], 0) = Some (Done (r, g', c')) \<and> tag_checked demo_node demo_gpu"
proof -
  have req: "gl_gpu_req demo_gpu_guest [] = Ok demo_node" by simp
  obtain r g' c' where run: "handle_gpu_db_export demo_gpu_guest [] demo_gpu_state ([], 0) = Some (Done (r, g', c'))"
    "gr_status r = 0" using demo_gpu_runs by blast
  from gpu_export_checked [OF req run] run show ?thesis by auto
qed

lemma tiny_strings: "redis_strings tiny_ops tiny_db (\<lambda>c k. tiny_db c k [])"
proof -
  have "tiny_db ((k, [], v) # s, n) = (tiny_db (s, m))(k := (tiny_db (s, m) k)([] \<mapsto> v))" for k v s n m
    using tiny_hset [of k "[([], v)]" s n m] by simp
  then have "tiny_db ((k, [], v) # fst c, snd c) = (tiny_db c)(k := (tiny_db c k)([] \<mapsto> v))" for k v c
    by (metis prod.collapse)
  then show ?thesis
    by (auto simp: redis_strings_def tiny_ops_def tiny_command_def rret_def fun_eq_iff)
qed



end
