(* ===== verification/Qemu.thy ===== *)
theory Qemu
  imports Numbers EnergyChain
begin

text \<open>
  The host's attribution of measured energy to virtual machines, \<open>src/src/exporters/qemu.rs\<close>: the
  total of the host, the process-based split (with the compaction of process samples) and the
  control-group-based split. The static \<open>PREV_CPU_SAMPLES\<close> is passed as state.
\<close>

section \<open>Samples\<close>

record RawEnergyValue =
  rv_value :: bytes
  rv_hmac_signature :: bytes

record ProcessSample =
  ps_pid :: u32
  ps_cmdline :: "bytes list"
  ps_cpu_usage_percentage :: bytes

record VmCgroupSample =
  vc_vm_name :: bytes
  vc_cpu_usage_ns :: u64
  vc_timestamp_ns :: u64

record PrevCpuSample =
  pc_cpu_usage_ns :: u64
  pc_timestamp_ns :: u64

type_synonym cpu_samples = "bytes \<rightharpoonup> PrevCpuSample"

text \<open>\<open>CompactProcessSample\<close> has the fields of \<open>ProcessSample\<close>.\<close>

type_synonym CompactProcessSample = ProcessSample

definition keep_arg :: "bytes \<Rightarrow> bool" where
  "keep_arg arg \<longleftrightarrow>
     contains (str ''qemu-system'') arg \<or> starts_with (str ''guest='') arg \<or> arg = str ''-name'' \<or>
     (length arg < 64 \<and> \<not> starts_with (str ''-'') arg \<and> \<not> starts_with (str ''/'') arg \<and>
      \<not> contains (str ''='') arg)"

text \<open>\<open>s[..64]\<close> panics when byte 64 is not the start of a character.\<close>

definition cut_arg :: "bytes \<Rightarrow> bytes exec" where
  "cut_arg s =
     (if length s > 64 then (if is_cont (s ! 64) then Panic else Done (take 64 s)) else Done s)"

fun map_exec :: "('a \<Rightarrow> 'b exec) \<Rightarrow> 'a list \<Rightarrow> 'b list exec" where
  "map_exec f [] = Done []"
| "map_exec f (x # xs) = and_then (f x) (\<lambda>y. and_then (map_exec f xs) (\<lambda>ys. Done (y # ys)))"

text \<open>The iterator is lazy: only the ten elements that are taken are cut.\<close>

definition to_compact :: "ProcessSample \<Rightarrow> CompactProcessSample exec" where
  "to_compact p =
     and_then (map_exec cut_arg (take 10 (filter keep_arg (ps_cmdline p))))
       (\<lambda>compact_cmdline. Done (p\<lparr>ps_cmdline := compact_cmdline\<rparr>))"

definition compactify_processes :: "ProcessSample list list \<Rightarrow> CompactProcessSample list list exec" where
  "compactify_processes processes = map_exec (map_exec to_compact) processes"

section \<open>The host's total\<close>

fun sum_values :: "RawEnergyValue list \<Rightarrow> int \<Rightarrow> int exec" where
  "sum_values [] acc = Done acc"
| "sum_values (r # rs) acc =
     (case parse_i128 (trim (rv_value r)) of
        Some v \<Rightarrow> and_then (checked_add_i128 acc v) (sum_values rs)
      | None \<Rightarrow> sum_values rs acc)"

definition compute_total_host_energy :: "RawEnergyValue list \<Rightarrow> RawEnergyValue list \<Rightarrow> bytes exec" where
  "compute_total_host_energy pkg_values dram_values =
     and_then (sum_values pkg_values 0) (\<lambda>total.
     and_then (sum_values dram_values total) (\<lambda>total. Done (dec_int total)))"

section \<open>The process-based split\<close>

fun get_vm_name_from_cmdline :: "bytes list \<Rightarrow> bytes" where
  "get_vm_name_from_cmdline [] = []"
| "get_vm_name_from_cmdline (e # es) =
     (if starts_with (str ''guest='') e then hd (split_on 44 (split_on 61 e ! 1))
      else get_vm_name_from_cmdline es)"

fun filter_qemu_vm_processes :: "ProcessSample list list \<Rightarrow> ProcessSample list list" where
  "filter_qemu_vm_processes [] = []"
| "filter_qemu_vm_processes (g # gs) =
     (case g of
        [] \<Rightarrow> filter_qemu_vm_processes gs
      | f # _ \<Rightarrow>
          (if list_ex (contains (str ''qemu-system'')) (ps_cmdline f)
           then g # filter_qemu_vm_processes gs else filter_qemu_vm_processes gs))"

definition unwrap_f64 :: "f64 option \<Rightarrow> f64" where
  "unwrap_f64 x = (case x of Some v \<Rightarrow> v | None \<Rightarrow> Finite 0)"

text \<open>\<open>(cpu_percent * topo_energy / 100.0).max(0.0) as u64\<close>\<close>

definition uj_to_add :: "f64 \<Rightarrow> f64 \<Rightarrow> u64" where
  "uj_to_add cpu_percent topo_energy =
     f64_as_u64 (f_max (f_div (f_mul cpu_percent topo_energy) (Finite 100)) (Finite 0))"

fun iterate_groups :: "f64 \<Rightarrow> ProcessSample list list \<Rightarrow> VmEnergyUpdate list" where
  "iterate_groups topo_energy [] = []"
| "iterate_groups topo_energy (proc_group # groups) =
     (case proc_group of
        [] \<Rightarrow> iterate_groups topo_energy groups
      | first_proc # _ \<Rightarrow>
          (let vm_name = get_vm_name_from_cmdline (ps_cmdline first_proc)
           in if vm_name = [] then iterate_groups topo_energy groups
              else
                (let cpu_percent = unwrap_f64 (parse_f64 (ps_cpu_usage_percentage first_proc))
                 in \<lparr>vu_vm_name = vm_name, vu_uj_to_add = uj_to_add cpu_percent topo_energy\<rparr>
                    # iterate_groups topo_energy groups)))"

definition iterate :: "bytes \<Rightarrow> ProcessSample list list \<Rightarrow> VmEnergyUpdate list" where
  "iterate topo_energy_value processes =
     (let topo_energy = unwrap_f64 (parse_f64 topo_energy_value);
          qemu_proc_groups = filter_qemu_vm_processes processes
      in iterate_groups topo_energy qemu_proc_groups)"

text \<open>The copies of the code for compact samples.\<close>

definition filter_qemu_vm_processes_compact ::
  "CompactProcessSample list list \<Rightarrow> CompactProcessSample list list" where
  "filter_qemu_vm_processes_compact processes = filter_qemu_vm_processes processes"

definition iterate_compact :: "bytes \<Rightarrow> CompactProcessSample list list \<Rightarrow> VmEnergyUpdate list" where
  "iterate_compact topo_energy_value processes =
     (let topo_energy = unwrap_f64 (parse_f64 topo_energy_value);
          qemu_proc_groups = filter_qemu_vm_processes_compact processes
      in iterate_groups topo_energy qemu_proc_groups)"

section \<open>The control-group-based split\<close>

definition ensure_cpu_samples_init :: "cpu_samples option \<Rightarrow> cpu_samples option" where
  "ensure_cpu_samples_init prev = (if prev = None then Some (\<lambda>_. None) else prev)"

definition MAX_AGE_NS :: f64 where
  "MAX_AGE_NS = f_mul (Finite 10) (Finite 1000000000)"

definition cpu_percent_of :: "cpu_samples \<Rightarrow> VmCgroupSample \<Rightarrow> f64" where
  "cpu_percent_of samples sample =
     (case samples (vc_vm_name sample) of
        Some prev \<Rightarrow>
          (let elapsed_ns = u64_as_f64 (saturating_sub (vc_timestamp_ns sample) (pc_timestamp_ns prev));
               delta_ns = u64_as_f64 (saturating_sub (vc_cpu_usage_ns sample) (pc_cpu_usage_ns prev))
           in if f_less (Finite 0) elapsed_ns \<and> f_le elapsed_ns MAX_AGE_NS
              then f_min (f_mul (f_div delta_ns elapsed_ns) (Finite 100)) (f_mul (Finite 100) (Finite 128))
              else Finite 0)
      | None \<Rightarrow> Finite 0)"

definition remember :: "VmCgroupSample \<Rightarrow> cpu_samples \<Rightarrow> cpu_samples" where
  "remember sample samples =
     samples(vc_vm_name sample \<mapsto>
       \<lparr>pc_cpu_usage_ns = vc_cpu_usage_ns sample, pc_timestamp_ns = vc_timestamp_ns sample\<rparr>)"

fun cgroup_loop ::
  "f64 \<Rightarrow> VmCgroupSample list \<Rightarrow> cpu_samples \<Rightarrow> VmEnergyUpdate list \<times> cpu_samples" where
  "cgroup_loop topo_energy [] samples = ([], samples)"
| "cgroup_loop topo_energy (sample # rest) samples =
     (let cpu_percent = cpu_percent_of samples sample;
          samples = remember sample samples;
          update = \<lparr>vu_vm_name = vc_vm_name sample, vu_uj_to_add = uj_to_add cpu_percent topo_energy\<rparr>;
          (updates, samples) = cgroup_loop topo_energy rest samples
      in (update # updates, samples))"

definition iterate_cgroup ::
  "bytes \<Rightarrow> VmCgroupSample list \<Rightarrow> cpu_samples option \<Rightarrow> VmEnergyUpdate list \<times> cpu_samples option" where
  "iterate_cgroup topo_energy_value vm_samples prev =
     (let prev = ensure_cpu_samples_init prev;
          topo_energy = unwrap_f64 (parse_f64 topo_energy_value);
          (updates, samples) = cgroup_loop topo_energy vm_samples (the prev)
      in (updates, Some samples))"

section \<open>Compaction\<close>

lemma map_exec_Done: "(\<And>x. x \<in> set xs \<Longrightarrow> f x = Done (g x)) \<Longrightarrow> map_exec f xs = Done (map g xs)"
  by (induction xs) auto

lemma find_sub_drop: "find_sub p s = Some i \<Longrightarrow> starts_with p (drop i s)"
proof (induction p s arbitrary: i rule: find_sub.induct)
  case (1 p)
  then show ?case by (auto simp: starts_with_def split: if_splits)
next
  case (2 p x xs)
  then show ?case by (auto split: if_splits)
qed

text \<open>What compaction keeps when nothing is cut.\<close>

definition kept :: "ProcessSample \<Rightarrow> ProcessSample" where
  "kept p = p\<lparr>ps_cmdline := filter keep_arg (ps_cmdline p)\<rparr>"

definition compactable :: "ProcessSample \<Rightarrow> bool" where
  "compactable p \<longleftrightarrow> length (filter keep_arg (ps_cmdline p)) \<le> 10 \<and> (\<forall>a \<in> set (ps_cmdline p). length a \<le> 64)"

lemma to_compact_kept: "compactable p \<Longrightarrow> to_compact p = Done (kept p)"
proof -
  assume c: "compactable p"
  have "map_exec cut_arg (filter keep_arg (ps_cmdline p)) = Done (map id (filter keep_arg (ps_cmdline p)))"
    using c by (intro map_exec_Done) (auto simp: compactable_def cut_arg_def)
  then show ?thesis using c by (simp add: to_compact_def compactable_def kept_def)
qed

lemma compactify_kept:
  assumes "\<And>g p. g \<in> set processes \<Longrightarrow> p \<in> set g \<Longrightarrow> compactable p"
  shows "compactify_processes processes = Done (map (map kept) processes)"
  unfolding compactify_processes_def
  by (intro map_exec_Done to_compact_kept) (rule assms)

lemma keep_qemu: "contains (str ''qemu-system'') a \<Longrightarrow> keep_arg a"
  by (simp add: keep_arg_def)

lemma kept_qemu:
  "list_ex (contains (str ''qemu-system'')) (ps_cmdline (kept f)) \<longleftrightarrow>
   list_ex (contains (str ''qemu-system'')) (ps_cmdline f)"
  using keep_qemu by (auto simp: kept_def list_ex_iff)

lemma kept_name: "get_vm_name_from_cmdline (filter keep_arg c) = get_vm_name_from_cmdline c"
  by (induction c) (auto simp: keep_arg_def)

lemma filter_kept:
  "filter_qemu_vm_processes (map (map kept) gs) = map (map kept) (filter_qemu_vm_processes gs)"
  by (induction gs rule: filter_qemu_vm_processes.induct) (auto simp: kept_qemu split: list.splits)

lemma kept_fields [simp]:
  "ps_cmdline (kept p) = filter keep_arg (ps_cmdline p)"
  "ps_cpu_usage_percentage (kept p) = ps_cpu_usage_percentage p"
  by (simp_all add: kept_def)

lemma iterate_kept: "iterate_groups e (map (map kept) gs) = iterate_groups e gs"
proof (induction gs)
  case (Cons g gs)
  then show ?case by (cases g) (simp_all add: kept_name Let_def)
qed simp

text \<open>Compacting the process samples, as the collector does before it sends them to the enclave, does not
  change what is attributed, provided that no argument is longer than 64 bytes and at most ten arguments
  of each process are kept: the compacted samples exist and give the same updates.\<close>
theorem compaction_preserves_attribution:
  assumes "\<forall>g \<in> set processes. \<forall>p \<in> set g. compactable p"
  shows "\<exists>compact. compactify_processes processes = Done compact \<and>
    iterate_compact topo compact = iterate topo processes"
  using compactify_kept [of processes] assms
  by (simp add: iterate_compact_def iterate_def filter_qemu_vm_processes_compact_def filter_kept iterate_kept)

definition demo_process :: ProcessSample where
  "demo_process =
     \<lparr>ps_pid = 7, ps_cmdline = [str ''/usr/bin/qemu-system-x86_64'', str ''-name'', str ''guest=vm1,debug=on''],
      ps_cpu_usage_percentage = str ''50''\<rparr>"

lemma demo_compactable: "compactable demo_process"
  by code_simp

lemma demo_iterate: "iterate (str ''1000'') [[demo_process]] = [\<lparr>vu_vm_name = str ''vm1'', vu_uj_to_add = 500\<rparr>]"
proof -
  have f: "filter_qemu_vm_processes [[demo_process]] = [[demo_process]]" by code_simp
  have n: "get_vm_name_from_cmdline (ps_cmdline demo_process) = str ''vm1''" by code_simp
  have p: "parse_f64 (str ''1000'') = Some (Finite 1000)" "parse_f64 (ps_cpu_usage_percentage demo_process) = Some (Finite 50)"
    by (simp_all add: parse_f64_def split_sign_def str_Cons to_lower_def parse_number_def parse_mantissa_def
        is_digit_def round_f64_numeral pow10_def demo_process_def)
  show ?thesis
    unfolding iterate_def f
    by (simp add: n p unwrap_f64_def uj_to_add_def round_f64_numeral f_max_def f64_as_u64_numeral Let_def)
      (simp add: str_Cons)
qed

lemma compaction_preserves_attribution_witness:
  "\<exists>compact. compactify_processes [[demo_process]] = Done compact \<and>
    iterate_compact (str ''1000'') compact = [\<lparr>vu_vm_name = str ''vm1'', vu_uj_to_add = 500\<rparr>]"
  using compaction_preserves_attribution [of "[[demo_process]]" "str ''1000''"] demo_compactable
  by (simp add: demo_iterate)

text \<open>Without the bound the compaction merges machines: their names are cut to 58 bytes.\<close>

definition long_name_process :: "string \<Rightarrow> ProcessSample" where
  "long_name_process suffix =
     demo_process\<lparr>ps_cmdline := [str ''qemu-system-x86_64'',
       str ''guest='' @ replicate 58 120 @ str suffix]\<rparr>"

lemma compaction_merges_names:
  "get_vm_name_from_cmdline (ps_cmdline (long_name_process ''a'')) \<noteq>
     get_vm_name_from_cmdline (ps_cmdline (long_name_process ''b''))"
  "to_compact (long_name_process ''a'') = to_compact (long_name_process ''b'')"
  by code_simp+

section \<open>The window of the control-group split\<close>

lemma max_age [simp]: "MAX_AGE_NS = Finite 10000000000"
  using round_f64_numeral by (simp add: MAX_AGE_NS_def)

lemma in_window_nat:
  "f_less (Finite 0) (round_f64 (of_nat m)) \<and> f_le (round_f64 (of_nat m)) (Finite 10000000000) \<longleftrightarrow>
   0 < m \<and> m \<le> 10000000000"
proof (cases "m < 2 ^ 53")
  case True
  have *: "(of_nat m < (10000000000 :: rat)) \<longleftrightarrow> m < 10000000000"
    using of_nat_less_iff [of m 10000000000, where 'a = rat] by simp
  have "(of_nat m = (10000000000 :: rat)) \<longleftrightarrow> m = 10000000000"
    using of_nat_eq_iff [of m 10000000000, where 'a = rat] by simp
  then show ?thesis
    unfolding round_f64_small [OF True] f_le_def by (auto simp: *)
next
  case False
  then have n: "0 < m" by simp
  have "(of_nat (2 ^ 53) :: rat) \<le> of_nat m" using False by (simp only: of_nat_le_iff not_less)
  then have big: "of_nat m / 2 \<le> v \<Longrightarrow> 10000000000 < v" for v :: rat by simp
  show ?thesis
    using round_f64_half [OF n]
  proof (elim disjE exE conjE)
    fix v assume "round_f64 (of_nat m) = Finite v" "of_nat m / 2 \<le> v"
    then show ?thesis using big [of v] False by (simp add: f_le_def)
  qed (use False in \<open>simp add: f_le_def\<close>)
qed

lemma in_window:
  "f_less (Finite 0) (u64_as_f64 n) \<and> f_le (u64_as_f64 n) MAX_AGE_NS \<longleftrightarrow> 0 < unat n \<and> unat n \<le> 10000000000"
  unfolding u64_as_f64_def max_age by (rule in_window_nat)

lemma no_energy: "uj_to_add (Finite 0) e = 0"
  by (simp add: uj_to_add_def zero_energy)

definition seen_recently :: "cpu_samples \<Rightarrow> VmCgroupSample \<Rightarrow> bool" where
  "seen_recently samples s \<longleftrightarrow>
     (\<exists>p. samples (vc_vm_name s) = Some p \<and> pc_timestamp_ns p < vc_timestamp_ns s \<and>
        unat (vc_timestamp_ns s) \<le> unat (pc_timestamp_ns p) + 10000000000 \<and>
        pc_cpu_usage_ns p < vc_cpu_usage_ns s)"

lemma outside_window: "\<not> seen_recently samples s \<Longrightarrow> uj_to_add (cpu_percent_of samples s) e = 0"
proof (cases "samples (vc_vm_name s)")
  case (Some p)
  let ?t = "saturating_sub (vc_timestamp_ns s) (pc_timestamp_ns p)"
  let ?c = "saturating_sub (vc_cpu_usage_ns s) (pc_cpu_usage_ns p)"
  assume "\<not> seen_recently samples s"
  then consider "unat ?t = 0 \<or> 10000000000 < unat ?t" | "?c = 0"
    using Some by (auto simp: seen_recently_def unat_saturating_sub u64_less_iff u64_eq_iff)
  then show ?thesis
  proof cases
    case 1
    then have "cpu_percent_of samples s = Finite 0"
      using in_window [of ?t] Some by (auto simp: cpu_percent_of_def Let_def)
    then show ?thesis by (simp add: no_energy)
  next
    case 2
    have "f_less (Finite 0) y \<Longrightarrow> f_mul (f_div (Finite 0) y) (Finite 100) = Finite 0" for y
      by (cases y) auto
    then have "f_less (Finite 0) (u64_as_f64 ?t) \<Longrightarrow>
        f_min (f_mul (f_div (u64_as_f64 ?c) (u64_as_f64 ?t)) (Finite 100)) (f_mul (Finite 100) (Finite 128)) = Finite 0"
      using 2 by (simp add: f_min_def round_f64_numeral)
    then have "cpu_percent_of samples s = Finite 0"
      using Some by (simp add: cpu_percent_of_def Let_def)
    then show ?thesis by (simp add: no_energy)
  qed
qed (simp add: cpu_percent_of_def no_energy)

section \<open>A control-group cycle\<close>

text \<open>What is known of each machine after some samples: the last one.\<close>

definition sample_entry :: "VmCgroupSample \<Rightarrow> bytes \<times> PrevCpuSample" where
  "sample_entry s =
     (vc_vm_name s, \<lparr>pc_cpu_usage_ns = vc_cpu_usage_ns s, pc_timestamp_ns = vc_timestamp_ns s\<rparr>)"

definition known :: "cpu_samples \<Rightarrow> VmCgroupSample list \<Rightarrow> cpu_samples" where
  "known prev samples = prev ++ map_of (rev (map sample_entry samples))"

lemma known_Nil [simp]: "known prev [] = prev"
  by (simp add: known_def)

lemma known_Cons [simp]: "known prev (s # ss) = known (remember s prev) ss"
  by (simp add: known_def sample_entry_def remember_def)

lemma cgroup_loop_fst:
  "fst (cgroup_loop e ss prev) =
     map (\<lambda>i. \<lparr>vu_vm_name = vc_vm_name (ss ! i),
               vu_uj_to_add = uj_to_add (cpu_percent_of (known prev (take i ss)) (ss ! i)) e\<rparr>) [0..<length ss]"
proof (induction ss arbitrary: prev)
  case (Cons s ss)
  show ?case
    unfolding length_Cons upt_conv_Cons [OF zero_less_Suc] list.map map_Suc_upt [symmetric]
    by (simp add: Let_def split_def Cons.IH)
qed simp

lemma cgroup_loop_snd: "snd (cgroup_loop e ss prev) = known prev ss"
  by (induction ss arbitrary: prev) (simp_all add: Let_def split_def)

lemma cycle_names: "map vu_vm_name (fst (iterate_cgroup topo samples prev)) = map vc_vm_name samples"
  unfolding iterate_cgroup_def Let_def split_def fst_conv cgroup_loop_fst
  by (rule nth_equalityI) auto

text \<open>C21: A control-group cycle gives one update per sample, in order, and remembers the last sample of every
  machine; a machine is charged only when its previous sample, earlier in the cycle or from a former one,
  is strictly older, at most ten seconds (10^10 ns) older, and shows less CPU time. In every other case,
  a first sighting, a clock or a counter that goes back, a gap that is too long, the charge is zero,
  whatever the energy reading is (infinite or not a number included).\<close>
theorem cgroup_cycle:
  fixes topo samples prev
  defines "before \<equiv> (case prev of Some m \<Rightarrow> m | None \<Rightarrow> Map.empty)"
    and "updates \<equiv> fst (iterate_cgroup topo samples prev)"
  shows "map vu_vm_name updates = map vc_vm_name samples \<and>
    snd (iterate_cgroup topo samples prev) = Some (known before samples) \<and>
    (\<forall>i < length samples. vu_uj_to_add (updates ! i) \<noteq> 0 \<longrightarrow>
       seen_recently (known before (take i samples)) (samples ! i))"
proof -
  have e: "the (ensure_cpu_samples_init prev) = before"
    by (cases prev) (simp_all add: ensure_cpu_samples_init_def before_def)
  have u: "updates = fst (cgroup_loop (unwrap_f64 (parse_f64 topo)) samples before)"
    and m: "snd (iterate_cgroup topo samples prev) = Some (known before samples)"
    using cgroup_loop_snd [of "unwrap_f64 (parse_f64 topo)" samples before]
    by (simp_all add: updates_def iterate_cgroup_def e Let_def split_def)
  have n: "map vu_vm_name updates = map vc_vm_name samples"
    unfolding updates_def by (rule cycle_names)
  show ?thesis
    using n m outside_window unfolding u cgroup_loop_fst by auto
qed

definition demo_sample :: "u64 \<Rightarrow> u64 \<Rightarrow> VmCgroupSample" where
  "demo_sample cpu t = \<lparr>vc_vm_name = str ''vm1'', vc_cpu_usage_ns = cpu, vc_timestamp_ns = t\<rparr>"

lemma cgroup_cycle_witness:
  "\<exists>u v. fst (iterate_cgroup (str ''1000'') [demo_sample 5 10, demo_sample 105 110] None) = [u, v] \<and>
     vu_uj_to_add u = 0 \<and> vu_uj_to_add v = 1000 \<and>
     seen_recently (known Map.empty [demo_sample 5 10]) (demo_sample 105 110)"
proof -
  let ?s = "[demo_sample 5 10, demo_sample 105 110]"
  have p: "parse_f64 (str ''1000'') = Some (Finite 1000)"
    by (simp add: parse_f64_def split_sign_def str_Cons to_lower_def parse_number_def parse_mantissa_def
        is_digit_def round_f64_numeral pow10_def)
  have c: "cpu_percent_of (remember (demo_sample 5 10) Map.empty) (demo_sample 105 110) = Finite 100"
    using u64_as_f64_small [of 100] round_f64_small [of 1]
    by (simp add: cpu_percent_of_def remember_def demo_sample_def saturating_sub_def f_le_def
        round_f64_numeral f_min_def)
  have v: "uj_to_add (Finite 100) (Finite 1000) = 1000"
    by (simp add: uj_to_add_def round_f64_numeral f_max_def f64_as_u64_numeral)
  have u: "fst (iterate_cgroup (str ''1000'') ?s None) =
      [\<lparr>vu_vm_name = str ''vm1'', vu_uj_to_add = 0\<rparr>, \<lparr>vu_vm_name = str ''vm1'', vu_uj_to_add = 1000\<rparr>]"
    by (simp add: iterate_cgroup_def ensure_cpu_samples_init_def p unwrap_f64_def no_energy c v
        cpu_percent_of_def [of Map.empty])
      (simp add: demo_sample_def)
  have "seen_recently (known Map.empty (take 1 ?s)) (?s ! 1)"
    using cgroup_cycle [where topo = "str ''1000''" and samples = ?s and prev = None] u by auto
  then show ?thesis using u by auto
qed

section \<open>The total\<close>

lemma trim_dec: "trim (dec n) = dec n"
proof (rule trim_graphic)
  have "graphic c" if "is_digit c" for c using that by (simp add: graphic_def is_digit_def word_le_nat_alt word_less_nat_alt)
  then show "graphic (hd (dec n))" "graphic (last (dec n))"
    using dec_digits [of n] by (auto simp: list_all_iff)
qed simp

lemma sum_values_u64:
  assumes "list_all2 (\<lambda>r v. rv_value r = dec_u64 v) rs vs" "0 \<le> acc"
    and "acc + int (sum_list (map unat vs)) < 2 ^ 127"
  shows "sum_values rs acc = Done (acc + int (sum_list (map unat vs)))"
  using assms
proof (induction rs vs arbitrary: acc rule: list_all2_induct)
  case (Cons r rs v vs)
  define n where "n = unat v"
  then have "n < 18446744073709551616" using unat_u64_less [of v] by simp
  then have "i128_range (int (unat v))" unfolding n_def [symmetric] by (simp add: i128_range_def)
  then have "parse_i128 (dec_u64 v) = Some (int (unat v))"
    using parse_dec_int [of "int (unat v)"] by (simp add: dec_int_def dec_u64_def)
  moreover have "trim (dec_u64 v) = dec_u64 v" by (simp add: dec_u64_def trim_dec)
  moreover have nn: "0 \<le> uint v" by simp
  have "i128_range (acc + int (unat v))"
    using Cons.prems by (simp add: i128_range_def) (use nn in linarith)
  ultimately show ?case
    using Cons by (simp add: checked_add_i128_def algebra_simps)
qed simp

text \<open>The host's total is the exact sum. When every reading is the decimal text of a \<open>u64\<close>, and there are
  fewer than 2^63 readings, the 128-bit additions do not overflow and the result is the decimal text of
  the sum of all package and DRAM readings.\<close>
theorem total_host_energy_sums:
  assumes "list_all2 (\<lambda>r v. rv_value r = dec_u64 v) pkg pkg_uj"
    and "list_all2 (\<lambda>r v. rv_value r = dec_u64 v) dram dram_uj"
    and "length pkg + length dram < 2 ^ 63"
  shows "compute_total_host_energy pkg dram = Done (dec (sum_list (map unat pkg_uj) + sum_list (map unat dram_uj)))"
proof -
  define a b where "a = sum_list (map unat pkg_uj)" and "b = sum_list (map unat dram_uj)"
  have bound: "sum_list (map unat (xs :: u64 list)) \<le> length xs * 2 ^ 64" for xs
  proof (induction xs)
    case (Cons x xs)
    then show ?case using unat_u64_less [of x] by simp
  qed simp
  have "a + b \<le> (length pkg + length dram) * 2 ^ 64"
    using bound [of pkg_uj] bound [of dram_uj] assms(1,2)
    by (simp add: a_def b_def list_all2_lengthD add_mult_distrib)
  also have "\<dots> < 2 ^ 63 * 2 ^ 64" using assms(3) by (intro mult_strict_right_mono) auto
  finally have ab: "int a + int b < 2 ^ 127" by simp
  have "sum_values pkg 0 = Done (int a)"
    using sum_values_u64 [OF assms(1), of 0] ab by (simp add: a_def)
  moreover have "sum_values dram (int a) = Done (int a + int b)"
    using sum_values_u64 [OF assms(2), of "int a"] ab by (simp add: b_def)
  ultimately show ?thesis
    by (simp add: compute_total_host_energy_def dec_int_def a_def [symmetric] b_def [symmetric] nat_add_distrib)
qed

lemma total_host_energy_sums_witness:
  "compute_total_host_energy [\<lparr>rv_value = str ''18446744073709551615'', rv_hmac_signature = []\<rparr>]
     [\<lparr>rv_value = str ''1'', rv_hmac_signature = []\<rparr>] = Done (str ''18446744073709551616'')"
proof -
  have d: "str ''18446744073709551615'' = dec_u64 (- 1)" "str ''1'' = dec_u64 1"
    "dec 18446744073709551616 = str ''18446744073709551616''"
    by (simp_all add: dec_u64_def dec.simps str_Cons)
  show ?thesis
    using total_host_energy_sums [of "[\<lparr>rv_value = str ''18446744073709551615'', rv_hmac_signature = []\<rparr>]"
        "[- 1]" "[\<lparr>rv_value = str ''1'', rv_hmac_signature = []\<rparr>]" "[1]"]
    by (simp add: d)
qed

end
