(* ===== verification/HostEnergy.thy ===== *)
theory HostEnergy
  imports Qemu SipTag
begin

text \<open>
  The host enclave's energy calls (\<open>src/sgx/src/lib.rs\<close>): the tag check of the RAPL readings, the two
  calls that attribute, sign and return the energy of the virtual machines, and the host's total. The
  statics of the enclave are the record \<open>HostState\<close>; the crates it calls are the record \<open>HostLib\<close>.
\<close>

section \<open>State and parameters\<close>

type_synonym tag_key = "u64 \<times> u64 \<times> u32 \<times> u16" \<comment> \<open>the two key words, epoch, producer\<close>

record RaplReading =
  rr_energy_uj :: u64
  rr_timestamp_ns :: u64
  rr_socket_id :: u32
  rr_domain_id :: u32
  rr_hash :: u64
  rr_valid :: u32

text \<open>The statics; \<open>hs_events\<close> counts the interactions with the outside, on which their outcomes may depend.\<close>

record HostState =
  hs_vm_chains :: "host_chains option"
  hs_tag_key :: "tag_key option"
  hs_prev_cpu :: "cpu_samples option"
  hs_nonce :: "bytes option"
  hs_events :: nat

text \<open>HMAC and SHA-256, the sealing keys, the hex crate, and serde's parsers and printers.\<close>

record HostLib =
  hl_hmac :: "bytes \<Rightarrow> bytes \<Rightarrow> bytes"
  hl_sha :: "bytes \<Rightarrow> bytes"
  hl_master :: "bytes \<Rightarrow> bytes"
  hl_hexenc :: "bytes \<Rightarrow> bytes"
  hl_hexdec :: "bytes \<Rightarrow> (bytes, bytes) result"
  hl_readings :: "bytes \<Rightarrow> RaplReading list option"
  hl_string :: "bytes \<Rightarrow> bytes option"
  hl_processes :: "bytes \<Rightarrow> CompactProcessSample list list option"
  hl_cgroups :: "bytes \<Rightarrow> VmCgroupSample list option"
  hl_values :: "bytes \<Rightarrow> RawEnergyValue list option"
  hl_updates_json :: "SignedVmUpdate list \<Rightarrow> bytes option"

definition set_rapl_tag_key :: "tag_key option \<Rightarrow> HostState \<Rightarrow> HostState" where
  "set_rapl_tag_key k s = s\<lparr>hs_tag_key := k\<rparr>"

definition rapl_tag :: "tag_key \<Rightarrow> u64 \<Rightarrow> u64 \<Rightarrow> u32 \<Rightarrow> u32 \<Rightarrow> u64" where
  "rapl_tag key energy timestamp socket domain =
     (let (k0, k1, epoch, producer) = key
      in siptag k0 k1 energy timestamp socket domain SIPTAG_VERSION producer epoch)"

definition verify_rapl_hash :: "tag_key option \<Rightarrow> u64 \<Rightarrow> u64 \<Rightarrow> u32 \<Rightarrow> u32 \<Rightarrow> u64 \<Rightarrow> bool" where
  "verify_rapl_hash key energy timestamp socket domain hash_from_ebpf =
     (case key of
        None \<Rightarrow> False
      | Some k \<Rightarrow> admit_measurement_tag hash_from_ebpf (rapl_tag k energy timestamp socket domain) \<noteq> None)"

section \<open>The loops over the readings\<close>

text \<open>The status of a refusal; a reading whose \<open>valid\<close> is not 1 is skipped.\<close>

fun simple_rapl_loop :: "tag_key option \<Rightarrow> RaplReading list \<Rightarrow> int option" where
  "simple_rapl_loop key [] = None"
| "simple_rapl_loop key (r # rs) =
     (if rr_valid r \<noteq> 1 then simple_rapl_loop key rs
      else if \<not> verify_rapl_hash key (rr_energy_uj r) (rr_timestamp_ns r) (rr_socket_id r)
                 (rr_domain_id r) (rr_hash r) then Some (-2)
      else simple_rapl_loop key rs)"

fun cgroup_rapl_loop :: "tag_key option \<Rightarrow> RaplReading list \<Rightarrow> int option" where
  "cgroup_rapl_loop key [] = None"
| "cgroup_rapl_loop key (r # rs) =
     (if rr_valid r \<noteq> 1 then cgroup_rapl_loop key rs
      else
        (case key of
           None \<Rightarrow> Some (-1)
         | Some k \<Rightarrow>
             (let expected = rapl_tag k (rr_energy_uj r) (rr_timestamp_ns r) (rr_socket_id r) (rr_domain_id r)
              in if admit_measurement_tag (rr_hash r) expected = None then Some (-2)
                 else cgroup_rapl_loop key rs)))"

section \<open>The calls\<close>

text \<open>
  The outcome of a call: its status, what it wrote to the output buffer with its length, and the
  readings it handed to the write callback, where one is registered.
\<close>

record Outcome =
  oc_status :: int
  oc_output :: "bytes option"
  oc_written :: "SignedReading list"

definition failed :: "int \<Rightarrow> Outcome" where
  "failed status = \<lparr>oc_status = status, oc_output = None, oc_written = []\<rparr>"

definition emit :: "HostLib \<Rightarrow> SignedVmUpdate list \<Rightarrow> nat \<Rightarrow> bytes" where
  "emit lib signed_updates out_cap =
     (if signed_updates \<noteq> [] then
        (case hl_updates_json lib signed_updates of
           Some json_bytes \<Rightarrow> take (min (length json_bytes) out_cap) json_bytes
         | None \<Rightarrow> [])
      else [])"

text \<open>Signing all updates of a cycle: \<open>VM_CHAINS.as_mut().unwrap()\<close> is reached with the first update.\<close>

definition sign_cycle ::
  "HostLib \<Rightarrow> VmEnergyUpdate list \<Rightarrow> HostState \<Rightarrow> (SignedReading list \<times> HostState) exec" where
  "sign_cycle lib updates s =
     (if updates = [] then Done ([], s)
      else
        (case hs_vm_chains s of
           None \<Rightarrow> Panic
         | Some cs \<Rightarrow>
             and_then (sign_updates (hl_hmac lib) (hl_hexenc lib) (hl_master lib) updates cs)
               (\<lambda>(readings, cs). Done (readings, s\<lparr>hs_vm_chains := Some cs\<rparr>))))"

definition finish_cycle ::
  "HostLib \<Rightarrow> VmEnergyUpdate list \<Rightarrow> nat \<Rightarrow> HostState \<Rightarrow> (Outcome \<times> HostState) exec" where
  "finish_cycle lib updates out_cap s =
     and_then (sign_cycle lib updates s) (\<lambda>(readings, s).
       Done (\<lparr>oc_status = 0,
              oc_output = Some (emit lib (map (signed_vm_update (hl_hexenc lib)) readings) out_cap),
              oc_written = readings\<rparr>, s))"

text \<open>A null pointer is \<open>None\<close>; the output buffer is its capacity.\<close>

definition simple_readings_check :: "HostLib \<Rightarrow> tag_key option \<Rightarrow> bytes option \<Rightarrow> int option" where
  "simple_readings_check lib key hash_ptr =
     (case hash_ptr of
        None \<Rightarrow> None
      | Some hash_slice \<Rightarrow>
          if hash_slice = [] then None
          else (case hl_readings lib hash_slice of
                  None \<Rightarrow> Some (-1)
                | Some readings \<Rightarrow> simple_rapl_loop key readings))"

definition ecall_compute_vm_energy_simple ::
  "HostLib \<Rightarrow> bytes option \<Rightarrow> bytes option \<Rightarrow> bytes option \<Rightarrow> nat option \<Rightarrow> bool \<Rightarrow> HostState \<Rightarrow>
   (Outcome \<times> HostState) exec" where
  "ecall_compute_vm_energy_simple lib topo_ptr proc_ptr hash_ptr out_ptr out_len_ptr s =
     (case (topo_ptr, proc_ptr, out_ptr) of
        (Some topo, Some proc, Some out_cap) \<Rightarrow>
          if \<not> out_len_ptr then Done (failed 1, s)
          else (case simple_readings_check lib (hs_tag_key s) hash_ptr of
                  Some status \<Rightarrow> Done (failed status, s)
                | None \<Rightarrow>
                    (case hl_string lib topo of
                       None \<Rightarrow> Done (failed 2, s)
                     | Some topo_energy_value \<Rightarrow>
                         (case hl_processes lib proc of
                            None \<Rightarrow> Done (failed 3, s)
                          | Some processes \<Rightarrow>
                              finish_cycle lib (iterate_compact topo_energy_value processes) out_cap s)))
      | _ \<Rightarrow> Done (failed 1, s))"

definition cgroup_readings_check :: "HostLib \<Rightarrow> tag_key option \<Rightarrow> bytes \<Rightarrow> int option" where
  "cgroup_readings_check lib key hash_slice =
     (if hash_slice = [] then None
      else (case hl_readings lib hash_slice of
              None \<Rightarrow> Some (-1)
            | Some readings \<Rightarrow> cgroup_rapl_loop key readings))"

definition ecall_compute_vm_energy_cgroup ::
  "HostLib \<Rightarrow> bytes option \<Rightarrow> bytes option \<Rightarrow> bytes \<Rightarrow> nat \<Rightarrow> HostState \<Rightarrow> (Outcome \<times> HostState) exec" where
  "ecall_compute_vm_energy_cgroup lib topo_ptr cgroup_ptr hash_slice out_cap s =
     (case (topo_ptr, cgroup_ptr) of
        (Some topo, Some cgroup) \<Rightarrow>
          (case cgroup_readings_check lib (hs_tag_key s) hash_slice of
             Some status \<Rightarrow> Done (failed status, s)
           | None \<Rightarrow>
               (case hl_string lib topo of
                  None \<Rightarrow> Done (failed 2, s)
                | Some topo_energy_value \<Rightarrow>
                    (case hl_cgroups lib cgroup of
                       None \<Rightarrow> Done (failed 3, s)
                     | Some vm_samples \<Rightarrow>
                         (let (updates, prev) = iterate_cgroup topo_energy_value vm_samples (hs_prev_cpu s)
                          in finish_cycle lib updates out_cap (s\<lparr>hs_prev_cpu := prev\<rparr>)))))
      | _ \<Rightarrow> Done (failed 1, s))"

definition ecall_compute_total_host_energy ::
  "HostLib \<Rightarrow> bytes option \<Rightarrow> bytes option \<Rightarrow> nat option \<Rightarrow> bool \<Rightarrow> Outcome exec" where
  "ecall_compute_total_host_energy lib pkg_ptr dram_ptr out_ptr out_len_ptr =
     (case (pkg_ptr, dram_ptr, out_ptr) of
        (Some pkg, Some dram, Some out_cap) \<Rightarrow>
          if \<not> out_len_ptr then Done (failed 1)
          else (case hl_values lib pkg of
                  None \<Rightarrow> Done (failed 2)
                | Some pkg_values \<Rightarrow>
                    (case hl_values lib dram of
                       None \<Rightarrow> Done (failed 2)
                     | Some dram_values \<Rightarrow>
                         and_then (sum_values pkg_values 0) (\<lambda>total.
                         and_then (sum_values dram_values total) (\<lambda>total.
                           let result_str = dec_int total
                           in if length result_str > out_cap then Done (failed 3)
                              else Done \<lparr>oc_status = 0, oc_output = Some result_str, oc_written = []\<rparr>))))
      | _ \<Rightarrow> Done (failed 1))"

section \<open>The readings that are let through\<close>

definition tagged :: "tag_key option \<Rightarrow> RaplReading \<Rightarrow> bool" where
  "tagged key r \<longleftrightarrow>
     (\<exists>k0 k1 epoch producer. key = Some (k0, k1, epoch, producer) \<and>
        rr_hash r = siphash24 k0 k1 (tag_bytes (rr_energy_uj r) (rr_timestamp_ns r) (rr_socket_id r)
          (rr_domain_id r) SIPTAG_VERSION producer epoch))"

lemma rapl_tag_siphash:
  "rapl_tag (k0, k1, epoch, producer) e t u d =
     siphash24 k0 k1 (tag_bytes e t u d SIPTAG_VERSION producer epoch)"
  by (simp add: rapl_tag_def siptag_siphash_words spec_siptag_words_def tag_word_ids tag_word_meta
      tag_bytes_def spec_u64_le_bytes [of e] spec_u64_le_bytes [of t])

lemma simple_loop_tagged:
  "simple_rapl_loop key rs = None \<longleftrightarrow> (\<forall>r \<in> set rs. rr_valid r = 1 \<longrightarrow> tagged key r)"
  by (induction rs)
    (auto simp: verify_rapl_hash_def tagged_def admit_measurement_tag_def rapl_tag_siphash split: option.splits)

lemma cgroup_loop_tagged:
  "cgroup_rapl_loop key rs = None \<longleftrightarrow> (\<forall>r \<in> set rs. rr_valid r = 1 \<longrightarrow> tagged key r)"
  by (induction rs)
    (auto simp: tagged_def admit_measurement_tag_def rapl_tag_siphash Let_def split: option.splits)

definition readings_ok :: "HostLib \<Rightarrow> tag_key option \<Rightarrow> bytes \<Rightarrow> bool" where
  "readings_ok lib key hash \<longleftrightarrow>
     hash = [] \<or>
     (\<exists>rs. hl_readings lib hash = Some rs \<and> (\<forall>r \<in> set rs. rr_valid r = 1 \<longrightarrow> tagged key r))"

lemma simple_check_ok:
  "simple_readings_check lib key hash = None \<longleftrightarrow> (\<forall>h. hash = Some h \<longrightarrow> readings_ok lib key h)"
  by (auto simp: simple_readings_check_def readings_ok_def simple_loop_tagged split: option.splits)

lemma cgroup_check_ok: "cgroup_readings_check lib key hash = None \<longleftrightarrow> readings_ok lib key hash"
  by (auto simp: cgroup_readings_check_def readings_ok_def cgroup_loop_tagged split: option.splits)

lemma simple_loop_status: "simple_rapl_loop key rs = Some c \<Longrightarrow> c = -2"
  by (induction rs) (auto split: if_splits)

lemma cgroup_loop_status: "cgroup_rapl_loop key rs = Some c \<Longrightarrow> c = -2 \<or> c = -1"
  by (induction rs) (auto simp: Let_def split: if_splits option.splits)

lemma check_status_nonzero:
  "simple_readings_check lib key hash = Some c \<Longrightarrow> c \<noteq> 0"
  "cgroup_readings_check lib key h = Some c \<Longrightarrow> c \<noteq> 0"
  using simple_loop_status cgroup_loop_status
  by (fastforce simp: simple_readings_check_def cgroup_readings_check_def split: option.splits if_splits)+

lemma finish_cycle_Done:
  assumes "finish_cycle lib updates cap s = Done (oc, s')"
  obtains "oc_status oc = 0"
    "sign_cycle lib updates s = Done (oc_written oc, s')"
    "oc_output oc = Some (emit lib (map (signed_vm_update (hl_hexenc lib)) (oc_written oc)) cap)"
  using assms by (cases "sign_cycle lib updates s") (auto simp: finish_cycle_def)

lemma sign_updates_length: "sign_updates h x m us cs = Done (rs, cs') \<Longrightarrow> length rs = length us"
proof (induction us arbitrary: cs rs cs')
  case (Cons u us)
  then show ?case by (auto simp: and_then_eq_Done)
qed simp

lemma sign_cycle_length: "sign_cycle lib us s = Done (rs, s') \<Longrightarrow> length rs = length us"
  by (auto simp: sign_cycle_def and_then_eq_Done sign_updates_length split: if_splits option.splits)

lemma failed_simps [simp]: "oc_status (failed c) = c" "oc_output (failed c) = None" "oc_written (failed c) = []"
  by (simp_all add: failed_def)

text \<open>C9: Energy is attributed and signed only from readings of the kernel's tagger. The control-group call
  returns 0 exactly when both inputs parse and the tag data is empty or a list whose every reading with
  \<open>valid = 1\<close> carries the SipHash-2-4 tag of its fields under the installed key; then the signed readings
  are those of the attribution. Otherwise it returns another status, writes nothing and leaves every
  static of the enclave as it was.\<close>
theorem cgroup_call_correct:
  assumes "ecall_compute_vm_energy_cgroup lib (Some topo) (Some cgroup) hash cap s = Done (oc, s')"
  shows "(oc_status oc = 0 \<longleftrightarrow>
      readings_ok lib (hs_tag_key s) hash \<and> hl_string lib topo \<noteq> None \<and> hl_cgroups lib cgroup \<noteq> None) \<and>
    (oc_status oc \<noteq> 0 \<longrightarrow> oc = failed (oc_status oc) \<and> s' = s) \<and>
    (oc_status oc = 0 \<longrightarrow>
      (\<exists>t samples updates prev. hl_string lib topo = Some t \<and> hl_cgroups lib cgroup = Some samples \<and>
         iterate_cgroup t samples (hs_prev_cpu s) = (updates, prev) \<and>
         sign_cycle lib updates (s\<lparr>hs_prev_cpu := prev\<rparr>) = Done (oc_written oc, s')))"
proof (cases "cgroup_readings_check lib (hs_tag_key s) hash")
  case (Some c)
  then show ?thesis
    using assms check_status_nonzero(2) [OF Some] cgroup_check_ok [of lib "hs_tag_key s" hash]
    by (auto simp: ecall_compute_vm_energy_cgroup_def)
next
  case None
  then have ok: "readings_ok lib (hs_tag_key s) hash" by (simp add: cgroup_check_ok)
  show ?thesis
    using assms ok None
    by (auto simp: ecall_compute_vm_energy_cgroup_def Let_def split: option.splits prod.splits
        elim!: finish_cycle_Done)
qed

text \<open>An instance: one reading of 40 units of energy, tagged under the key (1, 2).\<close>

definition demo_reading :: RaplReading where
  "demo_reading =
     \<lparr>rr_energy_uj = 40, rr_timestamp_ns = 9, rr_socket_id = 0, rr_domain_id = 1,
      rr_hash = rapl_tag (1, 2, 0, 1) 40 9 0 1, rr_valid = 1\<rparr>"

definition demo_lib :: HostLib where
  "demo_lib =
     \<lparr>hl_hmac = toy_hmac, hl_sha = id, hl_master = id, hl_hexenc = hex_lower,
      hl_hexdec = (\<lambda>s. case hex_pairs s of Some b \<Rightarrow> Ok b | None \<Rightarrow> Err []),
      hl_readings = (\<lambda>_. Some [demo_reading]), hl_string = Some,
      hl_processes = (\<lambda>_. Some []), hl_cgroups = (\<lambda>_. Some [demo_sample 5 10]),
      hl_values = (\<lambda>_. None), hl_updates_json = (\<lambda>_. None)\<rparr>"

definition demo_state :: HostState where
  "demo_state =
     \<lparr>hs_vm_chains = Some (\<lambda>_. None), hs_tag_key = Some (1, 2, 0, 1), hs_prev_cpu = None, hs_nonce = None,
      hs_events = 0\<rparr>"

lemma demo_call_returns:
  "\<exists>oc s'. ecall_compute_vm_energy_cgroup demo_lib (Some (str ''1000'')) (Some []) [1] 4096 demo_state = Done (oc, s')"
proof -
  have "cgroup_rapl_loop (Some (1, 2, 0, 1)) [demo_reading] = None"
    by (simp add: demo_reading_def admit_measurement_tag_def Let_def)
  then show ?thesis
    by (simp add: ecall_compute_vm_energy_cgroup_def demo_lib_def demo_state_def cgroup_readings_check_def
        iterate_cgroup_def ensure_cpu_samples_init_def Let_def finish_cycle_def sign_cycle_def
        sign_update_def host_chain_entry_def checked_add_def)
qed

lemma cgroup_call_correct_witness:
  "\<exists>oc s'. ecall_compute_vm_energy_cgroup demo_lib (Some (str ''1000'')) (Some []) [1] 4096 demo_state = Done (oc, s')
     \<and> oc_status oc = 0 \<and> length (oc_written oc) = 1"
proof -
  obtain oc s' where c: "ecall_compute_vm_energy_cgroup demo_lib (Some (str ''1000'')) (Some []) [1] 4096 demo_state =
      Done (oc, s')" using demo_call_returns by blast
  note main = cgroup_call_correct [OF c]
  have "tagged (Some (1, 2, 0, 1)) demo_reading"
    by (simp add: tagged_def demo_reading_def rapl_tag_siphash)
  then have z: "oc_status oc = 0" using main by (simp add: readings_ok_def demo_lib_def demo_state_def)
  then obtain t samples updates prev where "hl_cgroups demo_lib [] = Some samples"
    "iterate_cgroup t samples None = (updates, prev)"
    "sign_cycle demo_lib updates (demo_state\<lparr>hs_prev_cpu := prev\<rparr>) = Done (oc_written oc, s')"
    using main by (auto simp: demo_state_def)
  then have "length (oc_written oc) = 1"
    using cycle_names [of t samples None] sign_cycle_length [of demo_lib updates]
    by (auto simp: demo_lib_def dest: map_eq_imp_length_eq)
  then show ?thesis using c z by blast
qed



end
