(* ===== verification/Quote.thy ===== *)
theory Quote
  imports HexTools
begin

text \<open>
  The structural check of a TPM quote, \<open>verify_quote_structure\<close>, in the guest
  (\<open>src/sgx_vm/src/lib.rs\<close>) and in the host (\<open>src/sgx/src/lib.rs\<close>). Each error message of the
  source is a constructor here, with the values it prints. Indexing and slicing panic out of range.
\<close>

definition TPM_GENERATED_VALUE :: u32 where "TPM_GENERATED_VALUE = 0xFF544347"
definition TPM_ST_ATTEST_QUOTE :: u16 where "TPM_ST_ATTEST_QUOTE = 0x8018"
definition TPM_ALG_SHA256 :: u16 where "TPM_ALG_SHA256 = 0x000B"
definition TPM_ALG_RSASSA :: u16 where "TPM_ALG_RSASSA = 0x0014"
definition EXPECTED_PCR_SELECT :: bytes where "EXPECTED_PCR_SELECT = [0x81, 0x04, 0x00]"

datatype quote_error =
    AttestTooShort nat | BadMagic u32 | BadType u16
  | TruncatedBeforeSigner | TruncatedBeforeExtraData | TruncatedExtraData | StaleNonce
  | TruncatedBeforePcrSelect | WrongBankCount u32 | TruncatedPcrSelection | WrongBank u16
  | TruncatedBitmap | WrongBitmap bytes | TruncatedBeforeDigest | WrongDigestLength nat
  | TrailingBytes int | DigestMismatch | SignatureTooShort nat | WrongScheme u16 | WrongHash u16
  | WrongSignatureLength nat nat

text \<open>\<open>u16::from_be_bytes([buf[p], buf[p + 1]])\<close> and its 32-bit counterpart\<close>

definition be16_at :: "bytes \<Rightarrow> nat \<Rightarrow> u16 exec" where
  "be16_at buf p = and_then (idx buf p) (\<lambda>a. and_then (idx buf (p + 1)) (\<lambda>b. Done (be16 a b)))"

definition be32_at :: "bytes \<Rightarrow> nat \<Rightarrow> u32 exec" where
  "be32_at buf p = and_then (idx buf p) (\<lambda>a. and_then (idx buf (p + 1)) (\<lambda>b.
     and_then (idx buf (p + 2)) (\<lambda>c. and_then (idx buf (p + 3)) (\<lambda>d. Done (be32 a b c d)))))"

text \<open>The signature part, and everything from the bank's algorithm on, are the same code in both.\<close>

definition check_signature :: "bytes \<Rightarrow> (quote_error, bytes) result exec" where
  "check_signature signature =
     (if length signature < 6 then Done (Err (SignatureTooShort (length signature)))
      else and_then (be16_at signature 0) (\<lambda>sig_alg.
        if sig_alg \<noteq> TPM_ALG_RSASSA then Done (Err (WrongScheme sig_alg))
        else and_then (be16_at signature 2) (\<lambda>sig_hash.
          if sig_hash \<noteq> TPM_ALG_SHA256 then Done (Err (WrongHash sig_hash))
          else and_then (be16_at signature 4) (\<lambda>sig_len.
            if 6 + unat sig_len \<noteq> length signature
            then Done (Err (WrongSignatureLength (unat sig_len) (length signature - 6)))
            else and_then (subslice signature 6 (length signature)) (\<lambda>s. Done (Ok s))))))"

definition check_digest ::
  "(bytes \<Rightarrow> bytes) \<Rightarrow> bytes \<Rightarrow> nat \<Rightarrow> bytes \<Rightarrow> bytes \<Rightarrow> (quote_error, bytes) result exec" where
  "check_digest sha attest p pcr_values signature =
     (if p + 2 > length attest then Done (Err TruncatedBeforeDigest)
      else and_then (be16_at attest p) (\<lambda>dlen.
        let dlen = unat dlen; p = p + 2
        in if dlen \<noteq> 32 then Done (Err (WrongDigestLength dlen))
           else if p + dlen \<noteq> length attest
           then Done (Err (TrailingBytes (int (length attest) - int (p + dlen))))
           else and_then (subslice attest p (p + dlen)) (\<lambda>digest.
             if digest \<noteq> sha pcr_values then Done (Err DigestMismatch)
             else check_signature signature)))"

definition check_selection ::
  "(bytes \<Rightarrow> bytes) \<Rightarrow> bytes \<Rightarrow> nat \<Rightarrow> u32 \<Rightarrow> bytes \<Rightarrow> bytes \<Rightarrow> (quote_error, bytes) result exec" where
  "check_selection sha attest p count pcr_values signature =
     (if count \<noteq> 1 then Done (Err (WrongBankCount count))
      else if p + 3 > length attest then Done (Err TruncatedPcrSelection)
      else and_then (be16_at attest p) (\<lambda>hash_alg.
        if hash_alg \<noteq> TPM_ALG_SHA256 then Done (Err (WrongBank hash_alg))
        else and_then (idx attest (p + 2)) (\<lambda>b.
          let sel_size = unat b; p = p + 3
          in if p + sel_size > length attest then Done (Err TruncatedBitmap)
             else and_then (subslice attest p (p + sel_size)) (\<lambda>selected.
               let p = p + sel_size; n = length EXPECTED_PCR_SELECT
               in if length selected < n then Done (Err (WrongBitmap selected))
                  else and_then (subslice selected 0 n) (\<lambda>start.
                    and_then (subslice selected n (length selected)) (\<lambda>rest.
                      if start \<noteq> EXPECTED_PCR_SELECT \<or> list_ex (\<lambda>b. b \<noteq> 0) rest
                      then Done (Err (WrongBitmap selected))
                      else check_digest sha attest p pcr_values signature))))))"

definition guest_verify_quote_structure ::
  "(bytes \<Rightarrow> bytes) \<Rightarrow> bytes \<Rightarrow> bytes \<Rightarrow> bytes \<Rightarrow> bytes \<Rightarrow> (quote_error, bytes) result exec" where
  "guest_verify_quote_structure sha attest signature pcr_values expected_nonce =
     (if length attest < 40 then Done (Err (AttestTooShort (length attest)))
      else and_then (be32_at attest 0) (\<lambda>magic.
        if magic \<noteq> TPM_GENERATED_VALUE then Done (Err (BadMagic magic))
        else and_then (be16_at attest 4) (\<lambda>atype.
          if atype \<noteq> TPM_ST_ATTEST_QUOTE then Done (Err (BadType atype))
          else
            (let p = 6
             in case read_u16_be attest p of
                  None \<Rightarrow> Done (Err TruncatedBeforeSigner)
                | Some qs_len \<Rightarrow>
                    (let p = p + 2
                     in case advance_within p (unat qs_len) (length attest) of
                          None \<Rightarrow> Done (Err TruncatedBeforeExtraData)
                        | Some p \<Rightarrow>
                            (case read_u16_be attest p of
                               None \<Rightarrow> Done (Err TruncatedBeforeExtraData)
                             | Some ed_len \<Rightarrow>
                                 (let p = p + 2
                                  in case advance_within p (unat ed_len) (length attest) of
                                       None \<Rightarrow> Done (Err TruncatedExtraData)
                                     | Some _ \<Rightarrow>
                                         and_then (subslice attest p (p + unat ed_len)) (\<lambda>extra_data.
                                           if extra_data \<noteq> expected_nonce then Done (Err StaleNonce)
                                           else
                                             (let p = p + (unat ed_len + 17 + 8)
                                              in if p + 4 > length attest then Done (Err TruncatedBeforePcrSelect)
                                                 else and_then (be32_at attest p) (\<lambda>count.
                                                   check_selection sha attest (p + 4) count pcr_values
                                                     signature))))))))))"

definition host_verify_quote_structure ::
  "(bytes \<Rightarrow> bytes) \<Rightarrow> bytes \<Rightarrow> bytes \<Rightarrow> bytes \<Rightarrow> bytes \<Rightarrow> (quote_error, bytes) result exec" where
  "host_verify_quote_structure sha attest signature pcr_values expected_nonce =
     (if length attest < 40 then Done (Err (AttestTooShort (length attest)))
      else and_then (be32_at attest 0) (\<lambda>magic.
        if magic \<noteq> TPM_GENERATED_VALUE then Done (Err (BadMagic magic))
        else and_then (be16_at attest 4) (\<lambda>atype.
          if atype \<noteq> TPM_ST_ATTEST_QUOTE then Done (Err (BadType atype))
          else
            (let p = 6
             in case read_u16_be attest p of
                  None \<Rightarrow> Done (Err TruncatedBeforeSigner)
                | Some qs_len \<Rightarrow>
                    (let p = p + 2
                     in case advance_within p (unat qs_len) (length attest) of
                          None \<Rightarrow> Done (Err TruncatedBeforeExtraData)
                        | Some p \<Rightarrow>
                            (case read_u16_be attest p of
                               None \<Rightarrow> Done (Err TruncatedBeforeExtraData)
                             | Some ed_len \<Rightarrow>
                                 (let p = p + 2
                                  in case advance_within p (unat ed_len) (length attest) of
                                       None \<Rightarrow> Done (Err TruncatedExtraData)
                                     | Some _ \<Rightarrow>
                                         and_then (subslice attest p (p + unat ed_len)) (\<lambda>extra_data.
                                           if extra_data \<noteq> expected_nonce then Done (Err StaleNonce)
                                           else
                                             (let p = p + (unat ed_len + 17 + 8)
                                              in case read_u32_be attest p of
                                                   None \<Rightarrow> Done (Err TruncatedBeforePcrSelect)
                                                 | Some count \<Rightarrow>
                                                     check_selection sha attest (p + 4) count pcr_values
                                                       signature)))))))))"

section \<open>The checks as conditions\<close>

lemma be16_at_Done [simp]: "p + 2 \<le> length buf \<Longrightarrow> be16_at buf p = Done (be16 (buf ! p) (buf ! (p + 1)))"
  by (simp add: be16_at_def)

lemma be32_at_Done [simp]:
  "p + 4 \<le> length buf \<Longrightarrow>
   be32_at buf p = Done (be32 (buf ! p) (buf ! (p + 1)) (buf ! (p + 2)) (buf ! (p + 3)))"
  by (simp add: be32_at_def)

lemma read_u16_be_be16:
  "read_u16_be buf p = (if p + 2 \<le> length buf then Some (be16 (buf ! p) (buf ! (p + 1))) else None)"
proof -
  have "ucast a * 256 + ucast b = be16 a b" for a b
    by (simp add: be16_def word_unat_eq_iff unat_word_ariths unat_of_nat unsigned_ucast_eq take_bit_nat_eq_self
        mod_simps)
  then show ?thesis by (auto simp: read_u16_be_def)
qed

lemma read_u32_be_be32:
  "read_u32_be buf p =
     (if p + 4 \<le> length buf then Some (be32 (buf ! p) (buf ! (p + 1)) (buf ! (p + 2)) (buf ! (p + 3))) else None)"
proof -
  have "ucast a * 16777216 + ucast b * 65536 + ucast c * 256 + ucast d = be32 a b c d" for a b c d
    using unat_u8_less [of a] unat_u8_less [of b] unat_u8_less [of c] unat_u8_less [of d]
    by (simp add: be32_def word_unat_eq_iff unat_word_ariths unat_of_nat unsigned_ucast_eq take_bit_nat_eq_self
        mod_simps distrib_right)
  then show ?thesis by (auto simp: read_u32_be_def)
qed

lemma read_count:
  "(case read_u32_be buf p of None \<Rightarrow> Done (Err e) | Some count \<Rightarrow> f count) =
   (if p + 4 > length buf then Done (Err e) else and_then (be32_at buf p) f)"
  by (auto simp: read_u32_be_be32)

lemma quote_host_guest:
  "host_verify_quote_structure sha attest signature pcr_values nonce =
   guest_verify_quote_structure sha attest signature pcr_values nonce"
  unfolding host_verify_quote_structure_def guest_verify_quote_structure_def read_count Let_def ..

section \<open>The grammar of an accepted quote\<close>

definition be16_bytes :: "nat \<Rightarrow> bytes" where
  "be16_bytes n = [of_nat (n div 256), of_nat (n mod 256)]"

definition quote_signature :: "bytes \<Rightarrow> bytes" where
  "quote_signature rsa = [0x00, 0x14, 0x00, 0x0B] @ be16_bytes (length rsa) @ rsa"

definition quote_selection :: "nat \<Rightarrow> bytes \<Rightarrow> bytes" where
  "quote_selection pad digest =
     [0x00, 0x0B] @ [of_nat (3 + pad)] @ [0x81, 0x04, 0x00] @ replicate pad 0 @ [0, 32] @ digest"

definition quote_attest :: "bytes \<Rightarrow> bytes \<Rightarrow> bytes \<Rightarrow> nat \<Rightarrow> bytes \<Rightarrow> bytes" where
  "quote_attest signer nonce clock pad digest =
     [0xFF, 0x54, 0x43, 0x47] @ [0x80, 0x18] @ be16_bytes (length signer) @ signer
     @ be16_bytes (length nonce) @ nonce @ clock @ [0, 0, 0, 1] @ quote_selection pad digest"

lemma length_be16_bytes [simp, lengths]: "length (be16_bytes n) = 2"
  by (simp add: be16_bytes_def)

lemma unat_be16: "unat (be16 a b) = unat a * 256 + unat b"
  using unat_u8_less [of a] unat_u8_less [of b] unfolding be16_def unat_of_nat by simp

lemma unat_be32: "unat (be32 a b c d) = ((unat a * 256 + unat b) * 256 + unat c) * 256 + unat d"
  using unat_u8_less [of a] unat_u8_less [of b] unat_u8_less [of c] unat_u8_less [of d]
  unfolding be32_def unat_of_nat by simp

lemma pair256:
  fixes a b c d :: nat
  assumes "b < 256" "d < 256"
  shows "a * 256 + b = c * 256 + d \<longleftrightarrow> a = c \<and> b = d"
proof
  assume eq: "a * 256 + b = c * 256 + d"
  have "(a * 256 + b) div 256 = a" "(a * 256 + b) mod 256 = b"
    "(c * 256 + d) div 256 = c" "(c * 256 + d) mod 256 = d" using assms by simp_all
  then show "a = c \<and> b = d" using eq by metis
qed simp

lemma be16_inj [simp]: "be16 a b = be16 c d \<longleftrightarrow> a = c \<and> b = d"
  unfolding word_unat_eq_iff unat_be16 pair256 [OF unat_u8_less unat_u8_less] ..

lemma be32_inj [simp]: "be32 a b c d = be32 e f g h \<longleftrightarrow> a = e \<and> b = f \<and> c = g \<and> d = h"
  unfolding word_unat_eq_iff unat_be32 pair256 [OF unat_u8_less unat_u8_less] by blast

lemma be16_length: "unat (be16 a b) = n \<longleftrightarrow> n < 65536 \<and> [a, b] = be16_bytes n"
proof -
  have "n < 65536 \<Longrightarrow> n div 256 < 256" by simp
  then show ?thesis
    using unat_u8_less [of a] unat_u8_less [of b]
    by (auto simp: unat_be16 be16_bytes_def word_unat_eq_iff unat_of_nat)
qed

lemma tpm_constants:
  "TPM_ALG_RSASSA = be16 0 0x14" "TPM_ALG_SHA256 = be16 0 0x0B" "TPM_ST_ATTEST_QUOTE = be16 0x80 0x18"
  "TPM_GENERATED_VALUE = be32 0xFF 0x54 0x43 0x47" "(1 :: u32) = be32 0 0 0 1"
  by (simp_all add: be16_def be32_def TPM_ALG_RSASSA_def TPM_ALG_SHA256_def TPM_ST_ATTEST_QUOTE_def
      TPM_GENERATED_VALUE_def)

lemma drop_be16:
  "p + 2 \<le> length buf \<Longrightarrow> drop p buf = be16_bytes (unat (be16 (buf ! p) (buf ! (p + 1)))) @ drop (p + 2) buf"
  using be16_length [of "buf ! p" "buf ! (p + 1)" "unat (be16 (buf ! p) (buf ! (p + 1)))"]
  by (simp add: drop_nth_Cons)

lemma drop_four:
  "p + 4 \<le> length buf \<Longrightarrow>
   drop p buf = buf ! p # buf ! (p + 1) # buf ! (p + 2) # buf ! (p + 3) # drop (p + 4) buf"
  by (simp add: drop_nth_Cons eval_nat_numeral)

lemma drop_slice: "p + n \<le> length buf \<Longrightarrow> drop p buf = slice buf p (p + n) @ drop (p + n) buf"
  by (simp add: slice_def) (metis add.commute append_take_drop_id drop_drop)

lemma check_signature_ok:
  "check_signature signature = Done (Ok rsa) \<longleftrightarrow> length rsa < 2 ^ 16 \<and> signature = quote_signature rsa"
proof (cases "length signature < 6")
  case True
  then show ?thesis by (auto simp: check_signature_def quote_signature_def)
next
  case False
  then obtain a b c d e f r where s: "signature = [a, b, c, d, e, f] @ r"
    by (auto simp: not_less numeral_eq_Suc Suc_le_length_iff)
  show ?thesis
    by (auto simp: s check_signature_def quote_signature_def tpm_constants be16_at_def idx_def subslice_def
        slice_def be16_length be16_bytes_def)
qed

lemma check_digest_ok:
  assumes "p \<le> length attest" "length (sha pcr_values) = 32"
  shows "check_digest sha attest p pcr_values signature = Done (Ok rsa) \<longleftrightarrow>
    drop p attest = [0, 32] @ sha pcr_values \<and> check_signature signature = Done (Ok rsa)"
proof (cases "p + 2 \<le> length attest")
  case True
  then have d: "drop p attest = attest ! p # attest ! (p + 1) # drop (p + 2) attest" by (simp add: drop_nth_Cons)
  have l: "unat (be16 (attest ! p) (attest ! (p + 1))) = 32 \<longleftrightarrow> attest ! p = 0 \<and> attest ! (p + 1) = 32"
    by (subst be16_length) (simp add: be16_bytes_def)
  have s: "slice attest (p + 2) (p + 34) = drop (p + 2) attest" if "p + 34 = length attest"
    using that by (simp add: slice_def)
  have len: "p + 34 = length attest" if "drop p attest = 0 # 32 # sha pcr_values"
    using arg_cong [OF that, of length] assms by simp
  show ?thesis
  proof (cases "p + 34 = length attest")
    case True
    then show ?thesis using d l s assms(2) by (auto simp: check_digest_def Let_def)
  next
    case False
    then show ?thesis using \<open>p + 2 \<le> length attest\<close> len by (auto simp: check_digest_def Let_def)
  qed
next
  case False
  then have "drop p attest \<noteq> [0, 32] @ sha pcr_values" by (auto dest: arg_cong [of _ _ length])
  then show ?thesis using False by (auto simp: check_digest_def)
qed

lemma pad_byte: "unat (of_nat (3 + k) :: u8) = 3 + k" if "k \<le> 252"
  using that by (intro unat_of_nat_u8) simp

lemma check_selection_ok:
  assumes "p \<le> length attest" "length (sha pcr_values) = 32"
  shows "check_selection sha attest p count pcr_values signature = Done (Ok rsa) \<longleftrightarrow>
    count = 1 \<and> (\<exists>pad \<le> 252. drop p attest = quote_selection pad (sha pcr_values)) \<and>
    check_signature signature = Done (Ok rsa)"
proof (cases "p + 3 \<le> length attest")
  case False
  then have "drop p attest \<noteq> quote_selection pad (sha pcr_values)" for pad
    by (auto dest: arg_cong [of _ _ length] simp: quote_selection_def)
  then show ?thesis using False by (auto simp: check_selection_def)
next
  case True
  let ?n = "unat (attest ! (p + 2))" and ?s = "drop (p + 3) attest"
  have d: "drop p attest = attest ! p # attest ! (p + 1) # attest ! (p + 2) # ?s"
    using True by (simp add: drop_nth_Cons numeral_3_eq_3)
  have n: "?n < 256" by (rule unat_u8_less)
  show ?thesis
  proof (cases "p + 3 + ?n \<le> length attest")
    case False
    have "drop p attest \<noteq> quote_selection pad (sha pcr_values)" if "pad \<le> 252" for pad
    proof
      assume q: "drop p attest = quote_selection pad (sha pcr_values)"
      then have "attest ! (p + 2) = of_nat (3 + pad)" using d by (simp add: quote_selection_def)
      then have "?n = 3 + pad" using pad_byte that by simp
      moreover have "length ?s = 3 + pad + 34" using q d assms(2) by (simp add: quote_selection_def)
      ultimately show False using False by simp
    qed
    then show ?thesis using False True by (auto simp: check_selection_def tpm_constants Let_def)
  next
    case bitmap: True
    let ?sel = "slice attest (p + 3) (p + 3 + ?n)" and ?r = "drop (p + 3 + ?n) attest"
    have s: "?s = ?sel @ ?r" using bitmap by (rule drop_slice)
    have len: "length ?sel = ?n" using bitmap by simp
    have 1: "check_selection sha attest p count pcr_values signature = Done (Ok rsa) \<longleftrightarrow>
        count = 1 \<and> attest ! p = 0 \<and> attest ! (p + 1) = 0x0B \<and> 3 \<le> ?n \<and> slice ?sel 0 3 = [0x81, 0x04, 0x00] \<and>
        slice ?sel 3 ?n = replicate (?n - 3) 0 \<and> ?r = [0, 32] @ sha pcr_values \<and>
        check_signature signature = Done (Ok rsa)"
    proof -
      have z: "list_ex (\<lambda>b. b \<noteq> 0) xs = False \<longleftrightarrow> xs = replicate (length xs) 0" for xs :: bytes
        by (induction xs) auto
      have "length (slice ?sel 3 ?n) = ?n - 3" using len by simp
      then have z': "list_ex (\<lambda>b. b \<noteq> 0) (slice ?sel 3 ?n) = False \<longleftrightarrow> slice ?sel 3 ?n = replicate (?n - 3) 0"
        using z [of "slice ?sel 3 ?n"] by simp
      have e: "length EXPECTED_PCR_SELECT = 3" by (simp add: EXPECTED_PCR_SELECT_def)
      show ?thesis
        unfolding check_selection_def e
        using True bitmap len z' check_digest_ok [of "p + 3 + ?n" attest sha pcr_values signature rsa, OF bitmap assms(2)]
        by (auto simp: tpm_constants Let_def EXPECTED_PCR_SELECT_def)
    qed
    have sel: "3 \<le> ?n \<and> slice ?sel 0 3 = a \<and> slice ?sel 3 ?n = b \<longleftrightarrow> 3 \<le> ?n \<and> ?sel = a @ b"
      if "length a = 3" for a b
    proof -
      have "slice ?sel 0 3 = take 3 ?sel" "slice ?sel 3 ?n = drop 3 ?sel"
        using len by (simp_all add: slice_def)
      moreover have "take 3 ?sel = a \<and> drop 3 ?sel = b \<longleftrightarrow> ?sel = a @ b" if "3 \<le> ?n"
      proof
        assume "take 3 ?sel = a \<and> drop 3 ?sel = b"
        then show "?sel = a @ b" using append_take_drop_id [of 3 ?sel] by simp
      qed (use \<open>length a = 3\<close> in simp)
      ultimately show ?thesis by auto
    qed
    have "(\<exists>pad \<le> 252. drop p attest = quote_selection pad (sha pcr_values)) \<longleftrightarrow>
        attest ! p = 0 \<and> attest ! (p + 1) = 0x0B \<and> 3 \<le> ?n \<and> ?sel = [0x81, 0x04, 0x00] @ replicate (?n - 3) 0 \<and>
        ?r = [0, 32] @ sha pcr_values" (is "?L \<longleftrightarrow> ?R")
    proof
      assume ?L
      then obtain pad where pad: "pad \<le> 252" and q: "drop p attest = quote_selection pad (sha pcr_values)" by blast
      then have h: "attest ! p = 0" "attest ! (p + 1) = 0x0B" "attest ! (p + 2) = of_nat (3 + pad)"
        "?s = ([0x81, 0x04, 0x00] @ replicate pad 0) @ [0, 32] @ sha pcr_values"
        using d by (simp_all add: quote_selection_def)
      then have n3: "?n = 3 + pad" using pad_byte [OF pad] by simp
      have "?sel @ ?r = ([0x81, 0x04, 0x00] @ replicate pad 0) @ [0, 32] @ sha pcr_values" using s h(4) by simp
      then have "?sel = [0x81, 0x04, 0x00] @ replicate pad 0 \<and> ?r = [0, 32] @ sha pcr_values"
        by (rule append_len_split) (use n3 len in simp)
      then show ?R using h n3 by simp
    next
      assume R: ?R
      then have "attest ! (p + 2) = of_nat (3 + (?n - 3))" by simp
      then have "drop p attest = quote_selection (?n - 3) (sha pcr_values)"
        using R d s by (simp add: quote_selection_def)
      moreover have "?n - 3 \<le> 252" using n by simp
      ultimately show ?L by blast
    qed
    then show ?thesis using 1 sel [of "[0x81, 0x04, 0x00]" "replicate (?n - 3) 0"] by auto
  qed
qed

lemma check_signature_no_panic: "check_signature signature \<noteq> Panic"
  by (simp add: check_signature_def)

lemma check_digest_no_panic: "check_digest sha attest p pcr_values signature \<noteq> Panic"
  by (simp add: check_digest_def Let_def check_signature_no_panic)

lemma check_selection_no_panic: "check_selection sha attest p count pcr_values signature \<noteq> Panic"
  by (simp add: check_selection_def Let_def check_digest_no_panic EXPECTED_PCR_SELECT_def)

lemma quote_no_panic: "guest_verify_quote_structure sha attest signature pcr_values nonce \<noteq> Panic"
  by (simp add: guest_verify_quote_structure_def Let_def check_selection_no_panic split: option.split)

lemma advance_case:
  "(case advance_within p n len of None \<Rightarrow> x | Some q \<Rightarrow> f q) = (if p + n \<le> len then f (p + n) else x)"
  by (auto simp: advance_within_def)

lemma read_case:
  "(case read_u16_be buf p of None \<Rightarrow> x | Some v \<Rightarrow> f v) =
   (if p + 2 \<le> length buf then f (be16 (buf ! p) (buf ! (p + 1))) else x)"
  by (simp add: read_u16_be_be16)

text \<open>The conditions on the attested structure, with the positions the code computes.\<close>

lemma quote_conditions:
  fixes attest
  defines "p1 \<equiv> 8 + unat (be16 (attest ! 6) (attest ! 7))"
  defines "ed \<equiv> unat (be16 (attest ! p1) (attest ! (p1 + 1)))"
  defines "p3 \<equiv> p1 + 2 + ed + 25"
  shows "guest_verify_quote_structure sha attest signature pcr_values nonce = Done (Ok rsa) \<longleftrightarrow>
    40 \<le> length attest \<and> be32 (attest ! 0) (attest ! 1) (attest ! 2) (attest ! 3) = be32 0xFF 0x54 0x43 0x47 \<and>
    be16 (attest ! 4) (attest ! 5) = be16 0x80 0x18 \<and> p1 + 2 + ed \<le> length attest \<and>
    slice attest (p1 + 2) (p1 + 2 + ed) = nonce \<and> p3 + 4 \<le> length attest \<and>
    check_selection sha attest (p3 + 4)
      (be32 (attest ! p3) (attest ! (p3 + 1)) (attest ! (p3 + 2)) (attest ! (p3 + 3))) pcr_values signature =
      Done (Ok rsa)"
proof -
  have p: "p1 + 2 + (ed + 17 + 8) = p3" "6 + 2 = (8 :: nat)" "6 + 1 = (7 :: nat)" "4 + 1 = (5 :: nat)"
    "0 + 1 = (1 :: nat)" "0 + 2 = (2 :: nat)" "0 + 3 = (3 :: nat)" by (simp_all add: p3_def)
  show ?thesis
  proof (cases "40 \<le> length attest")
    case True
    then have b: "be32_at attest 0 = Done (be32 (attest ! 0) (attest ! 1) (attest ! 2) (attest ! 3))"
      "be16_at attest 4 = Done (be16 (attest ! 4) (attest ! 5))"
      "6 + 2 \<le> length attest \<longleftrightarrow> True"
      using be32_at_Done [of 0 attest, unfolded p] be16_at_Done [of 4 attest, unfolded p] by simp_all
    show ?thesis
      unfolding guest_verify_quote_structure_def Let_def tpm_constants(3,4) read_case advance_case b
        and_then.simps p p1_def [symmetric] if_True ed_def [symmetric]
      using True by (auto simp: ed_def [symmetric] p simp del: add_2_eq_Suc' be32_inj be16_inj)
  next
    case False
    then show ?thesis by (simp add: guest_verify_quote_structure_def)
  qed
qed

lemma accepted_shape:
  assumes sha: "length (sha pcr_values) = 32"
    and ok: "guest_verify_quote_structure sha attest signature pcr_values nonce = Done (Ok rsa)"
  shows "\<exists>signer clock pad. length signer < 2 ^ 16 \<and> length nonce < 2 ^ 16 \<and> length clock = 25 \<and> pad \<le> 252 \<and>
    attest = quote_attest signer nonce clock pad (sha pcr_values) \<and>
    length rsa < 2 ^ 16 \<and> signature = quote_signature rsa"
proof -
  let ?p1 = "8 + unat (be16 (attest ! 6) (attest ! 7))"
  let ?ed = "unat (be16 (attest ! ?p1) (attest ! (?p1 + 1)))"
  let ?p3 = "?p1 + 2 + ?ed + 25"
  note c = ok [unfolded quote_conditions]
  from c have sel: "check_selection sha attest (?p3 + 4) (be32 (attest ! ?p3) (attest ! (?p3 + 1))
      (attest ! (?p3 + 2)) (attest ! (?p3 + 3))) pcr_values signature = Done (Ok rsa)" by blast
  from c have len: "40 \<le> length attest" "?p1 + 2 + ?ed \<le> length attest" "?p3 + 4 \<le> length attest" by blast+
  have "?p3 + 4 \<le> length attest" by (rule len(3))
  from sel [unfolded check_selection_ok [of "?p3 + 4" attest sha pcr_values, OF this sha]]
  obtain pad where pad: "pad \<le> 252" "drop (?p3 + 4) attest = quote_selection pad (sha pcr_values)"
    and one: "be32 (attest ! ?p3) (attest ! (?p3 + 1)) (attest ! (?p3 + 2)) (attest ! (?p3 + 3)) = 1"
    and sig: "check_signature signature = Done (Ok rsa)" by blast
  have 6: "attest = [0xFF, 0x54, 0x43, 0x47] @ [0x80, 0x18] @ drop 6 attest"
  proof -
    have "drop 4 attest = attest ! 4 # attest ! 5 # drop 6 attest"
      using len(1) drop_nth_Cons [of 4 attest] drop_nth_Cons [of 5 attest] by simp
    moreover have "attest = attest ! 0 # attest ! 1 # attest ! 2 # attest ! 3 # drop 4 attest"
      using len(1) drop_four [of 0 attest] by (simp add: numeral_2_eq_2)
    ultimately have "attest = [attest ! 0, attest ! 1, attest ! 2, attest ! 3] @ [attest ! 4, attest ! 5] @ drop 6 attest"
      by (metis append_Cons append_Nil)
    then show ?thesis using c unfolding be32_inj be16_inj by simp
  qed
  let ?signer = "slice attest 8 ?p1" and ?clock = "slice attest (?p1 + 2 + ?ed) ?p3"
  have 7: "drop 6 attest = be16_bytes (length ?signer) @ ?signer @ drop ?p1 attest"
    using drop_be16 [of 6 attest] drop_slice [of 8 "unat (be16 (attest ! 6) (attest ! 7))" attest] len by simp
  have 8: "drop ?p1 attest = be16_bytes (length nonce) @ nonce @ drop (?p1 + 2 + ?ed) attest"
  proof -
    have "nonce = slice attest (?p1 + 2) (?p1 + 2 + ?ed)" using c by blast
    moreover from this have "length nonce = ?ed" using len by simp
    ultimately show ?thesis
      using drop_be16 [of ?p1 attest] drop_slice [of "?p1 + 2" ?ed attest] len by (simp add: add.commute)
  qed
  have 9: "drop (?p1 + 2 + ?ed) attest = ?clock @ [0, 0, 0, 1] @ drop (?p3 + 4) attest"
  proof -
    have "drop ?p3 attest = attest ! ?p3 # attest ! (?p3 + 1) # attest ! (?p3 + 2) # attest ! (?p3 + 3) # drop (?p3 + 4) attest"
      by (rule drop_four [OF len(3)])
    then have "drop ?p3 attest = [0, 0, 0, 1] @ drop (?p3 + 4) attest"
      using one unfolding tpm_constants(5) be32_inj by simp
    then show ?thesis using drop_slice [of "?p1 + 2 + ?ed" 25 attest] len by simp
  qed
  have "attest = quote_attest ?signer nonce ?clock pad (sha pcr_values)"
    using 6 unfolding 7 8 9 pad(2) quote_attest_def .
  moreover have "length ?signer < 2 ^ 16" "length ?clock = 25" "length nonce < 2 ^ 16"
    using len c unsigned_less [of "be16 (attest ! 6) (attest ! 7)", where 'a = nat]
      unsigned_less [of "be16 (attest ! ?p1) (attest ! (?p1 + 1))", where 'a = nat] by auto
  ultimately show ?thesis
    using pad(1) sig by (intro exI [of _ ?signer] exI [of _ ?clock] exI [of _ pad]) (simp add: check_signature_ok)
qed

lemma be16_at_pos:
  assumes "buf = pre @ be16_bytes n @ r" "length pre = p" "n < 65536"
  shows "unat (be16 (buf ! p) (buf ! (p + 1))) = n"
proof -
  have "[buf ! p, buf ! (p + 1)] = be16_bytes n"
    using assms(1,2) by (auto simp: nth_append be16_bytes_def)
  then show ?thesis using be16_length assms(3) by blast
qed

lemma slice_pos: "buf = pre @ x @ r \<Longrightarrow> length pre = p \<Longrightarrow> slice buf p (p + length x) = x"
  by (simp add: slice_def)

lemma drop_pos: "buf = pre @ r \<Longrightarrow> length pre = p \<Longrightarrow> drop p buf = r"
  by simp

lemma shape_accepted:
  assumes sha: "length (sha pcr_values) = 32"
    and sz: "length signer < 2 ^ 16" "length nonce < 2 ^ 16" "length clock = 25" "pad \<le> 252" "length rsa < 2 ^ 16"
    and attest: "attest = quote_attest signer nonce clock pad (sha pcr_values)"
    and sig: "signature = quote_signature rsa"
  shows "guest_verify_quote_structure sha attest signature pcr_values nonce = Done (Ok rsa)"
proof -
  let ?h = "[0xFF, 0x54, 0x43, 0x47, 0x80, 0x18] :: bytes" and ?sel = "quote_selection pad (sha pcr_values)"
  let ?p1 = "8 + length signer" and ?p3 = "8 + length signer + 2 + length nonce + 25"
  note a = attest [unfolded quote_attest_def]
  have len: "length attest = ?p3 + 4 + length ?sel" using sz(3) by (simp add: a)
  have 6: "attest = ?h @ be16_bytes (length signer) @ signer @ be16_bytes (length nonce) @ nonce @ clock
      @ [0, 0, 0, 1] @ ?sel" by (simp add: a)
  have s: "unat (be16 (attest ! 6) (attest ! 7)) = length signer"
    using be16_at_pos [OF 6, of 6] sz(1) by simp
  have 8: "attest = (?h @ be16_bytes (length signer) @ signer) @ be16_bytes (length nonce) @ nonce @ clock
      @ [0, 0, 0, 1] @ ?sel" by (simp add: a)
  have n: "unat (be16 (attest ! ?p1) (attest ! (?p1 + 1))) = length nonce"
    using be16_at_pos [OF 8, of ?p1] sz(2) by simp
  have 9: "attest = (?h @ be16_bytes (length signer) @ signer @ be16_bytes (length nonce)) @ nonce @ clock
      @ [0, 0, 0, 1] @ ?sel" by (simp add: a)
  have sl: "slice attest (?p1 + 2) (?p1 + 2 + length nonce) = nonce" by (rule slice_pos [OF 9]) simp
  have 10: "attest = (?h @ be16_bytes (length signer) @ signer @ be16_bytes (length nonce) @ nonce @ clock)
      @ [0, 0, 0, 1] @ ?sel" by (simp add: a)
  have d: "drop ?p3 attest = [0, 0, 0, 1] @ ?sel" by (rule drop_pos [OF 10]) (simp add: sz(3))
  have "drop ?p3 attest = attest ! ?p3 # attest ! (?p3 + 1) # attest ! (?p3 + 2) # attest ! (?p3 + 3) #
      drop (?p3 + 4) attest" by (rule drop_four) (simp add: len)
  then have c: "attest ! ?p3 = 0" "attest ! (?p3 + 1) = 0" "attest ! (?p3 + 2) = 0" "attest ! (?p3 + 3) = 1"
    "drop (?p3 + 4) attest = ?sel" using d by simp_all
  have one: "be32 (attest ! ?p3) (attest ! (?p3 + 1)) (attest ! (?p3 + 2)) (attest ! (?p3 + 3)) = 1"
    unfolding c tpm_constants(5) ..
  have "check_selection sha attest (?p3 + 4) 1 pcr_values signature = Done (Ok rsa)"
    using c(5) sz(4,5) sha sig check_selection_ok [of "?p3 + 4" attest sha pcr_values 1 signature rsa] len
    by (auto simp: check_signature_ok)
  moreover have "40 \<le> length attest" using len sha by (simp add: quote_selection_def)
  moreover have "attest ! 0 = 0xFF" "attest ! 1 = 0x54" "attest ! 2 = 0x43" "attest ! 3 = 0x47"
    "attest ! 4 = 0x80" "attest ! 5 = 0x18" by (simp_all add: 6)
  ultimately show ?thesis
    unfolding quote_conditions s n one using sl len by simp
qed

text \<open>C24: A quote is accepted exactly when it has the TPM's format: magic, type, any signer name, the expected
  nonce, 25 bytes of clock and firmware, one SHA-256 bank whose bitmap selects PCRs 0, 7 and 10 only, and the
  hash of the supplied register values with nothing behind it; and the signature is RSASSA with SHA-256 of
  its declared length, which is what is returned. On no input does the check read out of range, and the
  host's version gives the guest's answer on every input.\<close>
theorem quote_accepts_exactly:
  assumes "\<forall>x. length (sha x) = 32"
  shows "(guest_verify_quote_structure sha attest signature pcr_values nonce = Done (Ok rsa) \<longleftrightarrow>
      (\<exists>signer clock pad. length signer < 2 ^ 16 \<and> length nonce < 2 ^ 16 \<and> length clock = 25 \<and> pad \<le> 252 \<and>
        attest = quote_attest signer nonce clock pad (sha pcr_values) \<and>
        length rsa < 2 ^ 16 \<and> signature = quote_signature rsa)) \<and>
    guest_verify_quote_structure sha attest signature pcr_values nonce \<noteq> Panic \<and>
    host_verify_quote_structure sha attest signature pcr_values nonce =
      guest_verify_quote_structure sha attest signature pcr_values nonce"
proof -
  have len: "length (sha pcr_values) = 32" using assms by blast
  show ?thesis
    by (intro conjI iffI quote_no_panic quote_host_guest)
      (erule accepted_shape [of sha, OF len], elim exE conjE, rule shape_accepted [of sha, OF len])
qed

lemma quote_accepts_exactly_witness:
  "guest_verify_quote_structure (\<lambda>x. replicate 32 7) (quote_attest [1, 2] [3, 4, 5] (replicate 25 0) 0 (replicate 32 7))
     (quote_signature [9]) [] [3, 4, 5] = Done (Ok [9])"
proof -
  have "\<exists>signer clock pad. length signer < 2 ^ 16 \<and> length [3, 4, 5 :: u8] < 2 ^ 16 \<and> length clock = 25 \<and> pad \<le> 252 \<and>
      quote_attest [1, 2] [3, 4, 5] (replicate 25 0) 0 (replicate 32 7) =
        quote_attest signer [3, 4, 5] clock pad (replicate 32 7) \<and>
      length [9 :: u8] < 2 ^ 16 \<and> quote_signature [9] = quote_signature [9]"
    by (intro exI [of _ "[1, 2]"] exI [of _ "replicate 25 0"] exI [of _ 0]) simp
  moreover have "\<forall>x :: bytes. length (replicate 32 (7 :: u8)) = 32" by simp
  ultimately show ?thesis using quote_accepts_exactly [of "\<lambda>x. replicate 32 7"] by blast
qed

end
