(* ===== verification/HostVerify.thy ===== *)
theory HostVerify
  imports HostEnergy GuestBoot Quote
begin

text \<open>
  The host enclave's boot verification (\<open>src/sgx/src/main.rs\<close>, with the ImmuDB query of
  \<open>src/sgx/src/lib.rs\<close>): the nonce that a quote must carry, the quote check, and \<open>handle_verify\<close>, as
  built with the feature \<open>use_mbedtls\<close>. Responses hold the code's texts.
\<close>

section \<open>Requests, responses and parameters\<close>

record VerifyReq =
  vq_pcr_values :: bytes
  vq_ima_hash :: bytes
  vq_ima_count :: nat
  vq_ima_log :: "bytes option"
  vq_scaphandre_hash :: bytes
  vq_hostname :: bytes
  vq_deployment_type :: bytes
  vq_immudb_addr :: bytes
  vq_skip_ima :: bool
  vq_quote_attest :: bytes
  vq_quote_signature :: bytes

record EnclaveResponse =
  er_status :: int
  er_message :: bytes
  er_ima_hash :: "bytes option"
  er_output_data :: "bytes option"

definition respond :: "int \<Rightarrow> bytes \<Rightarrow> EnclaveResponse" where
  "respond status message =
     \<lparr>er_status = status, er_message = message, er_ima_hash = None, er_output_data = None\<rparr>"

definition respond_with :: "bytes \<Rightarrow> int \<Rightarrow> bytes \<Rightarrow> EnclaveResponse" where
  "respond_with ima_hash status message =
     \<lparr>er_status = status, er_message = message, er_ima_hash = Some ima_hash, er_output_data = None\<rparr>"

text \<open>The errors of the random generator and of a public key, with the crate's own text.\<close>

datatype rng_error = NoRng bytes | RngFailed bytes

datatype pk_error = KeyNotLoadable bytes | SignatureInvalid bytes

text \<open>
  The crates: serde's parser of the request, mbedTLS (the built-in certificate parses, the
  connections, the random generator, the signature check, given the key, the digest and the signature).
\<close>

record VerifyLib =
  vl_host :: HostLib
  vl_verify_req :: "bytes \<Rightarrow> (bytes, VerifyReq) result"
  vl_ca_ok :: bool
  vl_dial :: dial
  vl_rng :: "nat \<Rightarrow> (rng_error, bytes) result"
  vl_pk_verify :: "bytes \<Rightarrow> bytes \<Rightarrow> bytes \<Rightarrow> (pk_error, unit) result"

section \<open>The nonce\<close>

definition handle_get_nonce :: "VerifyLib \<Rightarrow> HostState \<Rightarrow> EnclaveResponse \<times> HostState" where
  "handle_get_nonce lib s =
     (let s1 = s\<lparr>hs_events := hs_events s + 1\<rparr>
      in case vl_rng lib (hs_events s) of
           Err (NoRng e) \<Rightarrow> (respond (-120) (str ''no RNG available inside the enclave: '' @ e), s1)
         | Err (RngFailed e) \<Rightarrow> (respond (-120) (str ''RNG failed while issuing a nonce: '' @ e), s1)
         | Ok nonce \<Rightarrow>
             (\<lparr>er_status = 0, er_message = str ''nonce issued'', er_ima_hash = None,
               er_output_data = Some (hl_hexenc (vl_host lib) nonce)\<rparr>, s1\<lparr>hs_nonce := Some nonce\<rparr>))"

text \<open>\<open>ISSUED_NONCE.lock()...take()\<close>\<close>

definition take_nonce :: "HostState \<Rightarrow> bytes option \<times> HostState" where
  "take_nonce s = (hs_nonce s, s\<lparr>hs_nonce := None\<rparr>)"

section \<open>The quote\<close>

definition hex_pad :: "nat \<Rightarrow> bytes \<Rightarrow> bytes" where
  "hex_pad w bs = str ''0x'' @ hex_lower (replicate (w - length bs) 0 @ bs)"

definition hex16 :: "u16 \<Rightarrow> bytes" where
  "hex16 x = hex_pad 2 (rev (le_bytes 2 (unat x)))"

definition hex32 :: "u32 \<Rightarrow> bytes" where
  "hex32 x = hex_pad 4 (rev (le_bytes 4 (unat x)))"

text \<open>\<open>{:02x?}\<close> of a byte slice\<close>

definition hex_list :: "bytes \<Rightarrow> bytes" where
  "hex_list bs =
     str ''['' @ concat (map (\<lambda>i. (if i = 0 then [] else str '', '') @ hex_lower [bs ! i]) [0..<length bs])
     @ str '']''"

fun quote_error_text :: "quote_error \<Rightarrow> bytes" where
  "quote_error_text (AttestTooShort n) = str ''TPMS_ATTEST too short: '' @ dec n @ str '' bytes''"
| "quote_error_text (BadMagic m) = str ''bad magic '' @ hex32 m @ str '' (expected TPM_GENERATED_VALUE)''"
| "quote_error_text (BadType t) = str ''bad type '' @ hex16 t @ str '' (expected TPM_ST_ATTEST_QUOTE)''"
| "quote_error_text TruncatedBeforeSigner = str ''truncated before qualifiedSigner''"
| "quote_error_text TruncatedBeforeExtraData = str ''truncated before extraData''"
| "quote_error_text TruncatedExtraData = str ''truncated extraData''"
| "quote_error_text StaleNonce = str ''extraData != issued nonce (stale or replayed quote)''"
| "quote_error_text TruncatedBeforePcrSelect = str ''truncated before pcrSelect''"
| "quote_error_text (WrongBankCount c) =
     str ''quote selects '' @ dec (unat c) @ str '' PCR banks (expected exactly 1: sha256)''"
| "quote_error_text TruncatedPcrSelection = str ''truncated TPMS_PCR_SELECTION''"
| "quote_error_text (WrongBank b) = str ''quote bank is '' @ hex16 b @ str '', not sha256''"
| "quote_error_text TruncatedBitmap = str ''truncated pcrSelect bitmap''"
| "quote_error_text (WrongBitmap bs) =
     str ''quote covers PCR bitmap '' @ hex_list bs @ str '', expected exactly sha256:0,7,10''"
| "quote_error_text TruncatedBeforeDigest = str ''truncated before pcrDigest''"
| "quote_error_text (WrongDigestLength n) = str ''pcrDigest length '' @ dec n @ str '' (expected 32 / sha256)''"
| "quote_error_text (TrailingBytes n) =
     str ''TPMS_ATTEST has '' @ dec_int n @ str '' trailing byte(s) after pcrDigest''"
| "quote_error_text DigestMismatch =
     str ''pcrDigest != sha256(supplied PCR values) - the values are not the ones signed''"
| "quote_error_text (SignatureTooShort n) = str ''TPMT_SIGNATURE too short: '' @ dec n @ str '' bytes''"
| "quote_error_text (WrongScheme a) = str ''signature scheme '' @ hex16 a @ str '', expected RSASSA''"
| "quote_error_text (WrongHash a) = str ''signature hash '' @ hex16 a @ str '', expected sha256''"
| "quote_error_text (WrongSignatureLength d n) =
     str ''TPMT_SIGNATURE declares '' @ dec d @ str '' signature bytes but carries '' @ dec n"

text \<open>\<open>chunks(64)\<close>, and the PEM armour of a bare key; a chunk that is not UTF-8 on its own is refused.\<close>

function pem_lines :: "bytes \<Rightarrow> bytes option" where
  "pem_lines s =
     (if s = [] then Some []
      else if \<not> utf8_valid (take 64 s) then None
      else map_option (\<lambda>rest. take 64 s @ [10] @ rest) (pem_lines (drop 64 s)))"
  by pat_completeness auto
termination by (relation "measure length") auto

declare pem_lines.simps [simp del]

definition armour :: "bytes \<Rightarrow> bytes option" where
  "armour trimmed =
     (if starts_with (str ''-----BEGIN'') trimmed then Some trimmed
      else map_option (\<lambda>body. str ''-----BEGIN PUBLIC KEY-----'' @ [10] @ body
                              @ str ''-----END PUBLIC KEY-----'' @ [10])
             (pem_lines trimmed))"

definition verify_rsa_pkcs1_sha256 :: "VerifyLib \<Rightarrow> bytes \<Rightarrow> bytes \<Rightarrow> bytes \<Rightarrow> (bytes, unit) result" where
  "verify_rsa_pkcs1_sha256 lib ak_pem message signature =
     (case armour (trim ak_pem) of
        None \<Rightarrow> Err (str ''AK key is not ASCII'')
      | Some pem \<Rightarrow>
          (case vl_pk_verify lib (pem @ [0]) (hl_sha (vl_host lib) message) signature of
             Err (KeyNotLoadable e) \<Rightarrow> Err (str ''AK public key not loadable: '' @ e)
           | Err (SignatureInvalid e) \<Rightarrow> Err (str ''quote signature INVALID: '' @ e)
           | Ok _ \<Rightarrow> Ok ()))"

definition verify_tpm_quote ::
  "VerifyLib \<Rightarrow> bytes \<Rightarrow> bytes \<Rightarrow> bytes \<Rightarrow> bytes \<Rightarrow> bytes \<Rightarrow> (bytes, unit) result exec" where
  "verify_tpm_quote lib attest signature pcr_values expected_nonce ak_pem =
     and_then (host_verify_quote_structure (hl_sha (vl_host lib)) attest signature pcr_values expected_nonce)
       (\<lambda>r. Done (case r of
              Err e \<Rightarrow> Err (quote_error_text e)
            | Ok rsa_sig \<Rightarrow> verify_rsa_pkcs1_sha256 lib ak_pem attest rsa_sig))"

section \<open>The query\<close>

fun rfind_sub :: "'a list \<Rightarrow> 'a list \<Rightarrow> nat option" where
  "rfind_sub p [] = (if p = [] then Some 0 else None)"
| "rfind_sub p (x # xs) =
     (case rfind_sub p xs of
        Some i \<Rightarrow> Some (Suc i)
      | None \<Rightarrow> (if starts_with p (x # xs) then Some 0 else None))"

text \<open>The text between the last \<open>key\<close> and the next quote.\<close>

definition scrape_last :: "bytes \<Rightarrow> bytes \<Rightarrow> bytes option" where
  "scrape_last key response =
     (case rfind_sub key response of
        None \<Rightarrow> None
      | Some pos \<Rightarrow>
          (let start = pos + length key
           in case find_sub [34] (drop start response) of
                None \<Rightarrow> None
              | Some end \<Rightarrow> Some (slice response start (start + end))))"

definition host_query_body :: "bytes \<Rightarrow> bytes \<Rightarrow> bytes \<Rightarrow> bytes" where
  "host_query_body binary_name hostname deployment_type =
     str ''{'' @ quoted (str ''page'') @ str '':1,'' @ quoted (str ''pageSize'') @ str '':20,''
     @ quoted (str ''query'') @ str '':{'' @ quoted (str ''expressions'') @ str '':[{''
     @ quoted (str ''fieldComparisons'') @ str '':[''
     @ field_eq ''binary_name'' (quoted binary_name) @ str '',''
     @ field_eq ''hostname'' (quoted hostname) @ str '',''
     @ field_eq ''deployment_type'' (quoted deployment_type) @ str '',''
     @ field_eq ''active'' (str ''true'') @ str '']}]}}''"

definition host_query_request :: "bytes \<Rightarrow> bytes \<Rightarrow> bytes" where
  "host_query_request session_id body =
     str ''POST /api/v2/collection/binary_hashes_v3/documents/search HTTP/1.1'' @ crlf
     @ str ''Host: localhost'' @ crlf @ str ''Content-Type: application/json'' @ crlf
     @ str ''Grpc-Metadata-SessionID: '' @ session_id @ crlf
     @ str ''Content-Length: '' @ dec (length body) @ crlf
     @ str ''Connection: close'' @ crlf @ crlf @ body"

definition host_parse_registered :: "bytes \<Rightarrow> (int, registered) result" where
  "host_parse_registered response =
     (case scrape_last (quoted_key ''hash_value'') response of
        None \<Rightarrow> Err (-8)
      | Some h \<Rightarrow>
          (case scrape_last (quoted_key ''pcr0'') response of
             None \<Rightarrow> Err (-9)
           | Some pcr0 \<Rightarrow>
               (case scrape_last (quoted_key ''pcr7'') response of
                  None \<Rightarrow> Err (-10)
                | Some pcr7 \<Rightarrow>
                    (case scrape_last (quoted_key ''pcr10'') response of
                       None \<Rightarrow> Err (-11)
                     | Some pcr10 \<Rightarrow> Ok (h, pcr0, pcr7, pcr10)))))"

text \<open>Printing \<open>&query_response[..500]\<close> panics when byte 500 is inside a character.\<close>

definition log_response :: "bytes \<Rightarrow> unit exec" where
  "log_response response =
     (if length response < 500 then Done ()
      else if 500 < length response \<and> is_cont (response ! 500) then Panic else Done ())"

definition host_fetch ::
  "VerifyLib \<Rightarrow> bytes \<Rightarrow> bytes \<Rightarrow> bytes \<Rightarrow> bytes \<Rightarrow> nat \<Rightarrow> ((int, registered) result \<times> nat) exec" where
  "host_fetch lib binary_name hostname deployment_type addr n =
     (if \<not> vl_ca_ok lib then Done (Err (-2), n)
      else case exchange (vl_dial lib) n addr login_request
                  (\<lambda>s. contains (quoted (str ''sessionID'') @ [58]) s \<and> contains (str ''}'') s) of
        Err e \<Rightarrow> Done (Err e, n + 1)
      | Ok login_response \<Rightarrow>
          (case scrape (quoted_key ''sessionID'') login_response of
             None \<Rightarrow> Done (Err (-7), n + 1)
           | Some session_id \<Rightarrow>
               (case exchange (vl_dial lib) (n + 1) addr
                       (host_query_request session_id (host_query_body binary_name hostname deployment_type))
                       (\<lambda>s. contains (quoted (str ''revisions'') @ [58]) s \<and> ends_with (str ''}'') s) of
                  Err e \<Rightarrow> Done (Err e, n + 2)
                | Ok response \<Rightarrow>
                    and_then (log_response response) (\<lambda>_. Done (host_parse_registered response, n + 2)))))"

definition fetch_for :: "VerifyLib \<Rightarrow> VerifyReq \<Rightarrow> bytes \<Rightarrow> HostState \<Rightarrow> ((int, registered) result \<times> HostState) exec" where
  "fetch_for lib request key s =
     and_then (host_fetch lib key (vq_hostname request) (vq_deployment_type request) (vq_immudb_addr request)
                 (hs_events s))
       (\<lambda>(reply, n). Done (reply, s\<lparr>hs_events := n\<rparr>))"

section \<open>The verification request\<close>

text \<open>\<open>hex::decode(text.trim()).unwrap_or_default()\<close>\<close>

definition decode_or_empty :: "VerifyLib \<Rightarrow> bytes \<Rightarrow> bytes" where
  "decode_or_empty lib text =
     (case hl_hexdec (vl_host lib) (trim text) of Ok bs \<Rightarrow> bs | Err _ \<Rightarrow> [])"

text \<open>The quote: a refusal, or nothing, with the state after it.\<close>

definition check_quote ::
  "VerifyLib \<Rightarrow> VerifyReq \<Rightarrow> bytes \<Rightarrow> bytes \<Rightarrow> HostState \<Rightarrow> (EnclaveResponse option \<times> HostState) exec" where
  "check_quote lib request pcr_values ak_pem s =
     (let attest = decode_or_empty lib (vq_quote_attest request);
          sig = decode_or_empty lib (vq_quote_signature request)
      in if attest = [] \<or> sig = [] then
           Done (Some (respond (-122) (str ''an AK is registered for this node, so PCR values must be accompanied by a TPM2_Quote. None was supplied.'')), s)
         else
           (case take_nonce s of
              (None, s) \<Rightarrow>
                Done (Some (respond (-121) (str ''AK registered, so a fresh quote is required, but this enclave has no outstanding nonce. Request get_nonce, then verify.'')), s)
            | (Some nonce, s) \<Rightarrow>
                and_then (verify_tpm_quote lib attest sig pcr_values nonce ak_pem) (\<lambda>r.
                  case r of
                    Ok _ \<Rightarrow> Done (None, s)
                  | Err e \<Rightarrow>
                      Done (Some (respond (-123) (str ''TPM2_Quote verification failed: '' @ e)), s))))"

definition authenticate ::
  "VerifyLib \<Rightarrow> VerifyReq \<Rightarrow> bytes \<Rightarrow> HostState \<Rightarrow> (EnclaveResponse option \<times> HostState) exec" where
  "authenticate lib request pcr_values s =
     and_then (fetch_for lib request (str ''ak_pub'') s) (\<lambda>(reply, s).
       case reply of
         Ok (ak_pem, _) \<Rightarrow>
           (if ak_pem \<noteq> [] then check_quote lib request pcr_values ak_pem s else Done (None, s))
       | Err code \<Rightarrow>
           (if code = -8 then Done (None, s)
            else Done (Some (respond (-124) (str ''could not determine whether an AK is registered for this node (ImmuDB lookup failed with '' @ dec_int code @ str ''). Refusing.'')), s)))"

text \<open>The attested part of the log.\<close>

definition attest_log :: "VerifyLib \<Rightarrow> VerifyReq \<Rightarrow> bytes \<Rightarrow> AttestedImaPrefix option" where
  "attest_log lib request actual_pcr10 =
     (case vq_ima_log request of
        None \<Rightarrow> None
      | Some ima_log \<Rightarrow>
          (case parse_ima_log (hl_sha (vl_host lib)) ima_log of
             Err e \<Rightarrow> None
           | Ok records \<Rightarrow>
               (case reconcile_ima_against_pcr10 (hl_sha (vl_host lib)) records actual_pcr10 of
                  Ok prefix \<Rightarrow> Some prefix
                | Err e \<Rightarrow> None)))"

fun host_denial :: "bytes \<Rightarrow> bytes \<Rightarrow> bytes \<Rightarrow> registered \<Rightarrow> BootDenial \<Rightarrow> int \<times> bytes" where
  "host_denial scaphandre_hash actual_pcr0 actual_pcr7 (expected_hash, expected_pcr0, expected_pcr7, p10) d =
     (case d of
        Pcr10Zero \<Rightarrow> (-2, str ''PCR10 is zero - IMA not active'')
      | NoBinaryHashInLog \<Rightarrow> (-4, str ''no scaphandre binary measurement in the attested IMA log'')
      | ExpectedStateUnavailable \<Rightarrow> (-5, str ''no expected state available from ImmuDB'')
      | BinaryHashMismatch \<Rightarrow>
          (-6, str ''Hash mismatch: IMA='' @ scaphandre_hash @ str '' ImmuDB='' @ expected_hash)
      | Pcr0Mismatch \<Rightarrow> (-7, str ''PCR0 mismatch: actual='' @ actual_pcr0 @ str '' expected='' @ expected_pcr0)
      | Pcr7Mismatch \<Rightarrow> (-8, str ''PCR7 mismatch: actual='' @ actual_pcr7 @ str '' expected='' @ expected_pcr7)
      | ImaLogNotReconciled \<Rightarrow> (-10, str ''IMA log does not reconcile with PCR10''))"

text \<open>The registered components: the first one whose hash differs, and the state after the queries.\<close>

definition gpu_key :: "bytes \<Rightarrow> bytes" where
  "gpu_key path =
     (let base = last_piece 0x2F path
      in if starts_with (str ''libnvidia-ml'') base then str ''libnvidia-ml''
         else (case map_option (\<lambda>r. hd (split_on 0x2F r)) (strip_prefix (str ''/usr/lib/modules/'') path) of
                 Some kver \<Rightarrow> (if kver \<noteq> [] then base @ str ''@'' @ kver else base)
               | None \<Rightarrow> base))"

fun registered_loop ::
  "VerifyLib \<Rightarrow> VerifyReq \<Rightarrow> (bytes \<Rightarrow> bytes) \<Rightarrow> (bytes \<times> bytes) list \<Rightarrow> HostState \<Rightarrow>
   (bytes option \<times> HostState) exec" where
  "registered_loop lib request key_of [] s = Done (None, s)"
| "registered_loop lib request key_of ((name, hash) # rest) s =
     and_then (fetch_for lib request (key_of name) s) (\<lambda>(reply, s).
       case reply of
         Ok (expected, _) \<Rightarrow>
           (if expected \<noteq> [] then
              (if eq_ignore_ascii_case hash expected then registered_loop lib request key_of rest s
               else Done (Some name, s))
            else registered_loop lib request key_of rest s)
       | Err _ \<Rightarrow> registered_loop lib request key_of rest s)"

definition check_gpu_stack ::
  "VerifyLib \<Rightarrow> VerifyReq \<Rightarrow> AttestedImaPrefix option \<Rightarrow> HostState \<Rightarrow> (bytes option \<times> HostState) exec" where
  "check_gpu_stack lib request attested s =
     (case attested of
        None \<Rightarrow> Done (None, s)
      | Some prefix \<Rightarrow> registered_loop lib request gpu_key (host_extract_gpu_stack prefix) s)"

definition check_hypervisor ::
  "VerifyLib \<Rightarrow> VerifyReq \<Rightarrow> AttestedImaPrefix option \<Rightarrow> HostState \<Rightarrow> (bytes option \<times> HostState) exec" where
  "check_hypervisor lib request attested s =
     (case attested of
        None \<Rightarrow> Done (None, s)
      | Some prefix \<Rightarrow> registered_loop lib request (\<lambda>name. name) (host_extract_hypervisor prefix) s)"

definition finish_verify ::
  "VerifyLib \<Rightarrow> VerifyReq \<Rightarrow> AttestedImaPrefix option \<Rightarrow> bytes \<Rightarrow> BootAdmitted option \<Rightarrow> HostState \<Rightarrow>
   (EnclaveResponse \<times> HostState) exec" where
  "finish_verify lib request attested scaphandre_hash admitted s =
     (let answer = respond_with (vq_ima_hash request)
      in and_then (check_gpu_stack lib request attested s) (\<lambda>(gpu, s).
        case gpu of
          Some path \<Rightarrow> Done (answer (-11) (str ''GPU-stack hash mismatch: '' @ path), s)
        | None \<Rightarrow>
            and_then (check_hypervisor lib request attested s) (\<lambda>(hyp, s).
              case hyp of
                Some key \<Rightarrow>
                  Done (answer (-12) (str ''hypervisor component '' @ [39] @ key @ [39] @ str '' does not match its registered hash - refusing, because this component underpins every guest on this host''), s)
              | None \<Rightarrow>
                  (let passed = str ''FULL VERIFICATION PASSED - hash '' @ take_chars 16 scaphandre_hash
                         @ str '' verified against ImmuDB, all PCRs match ('' @ dec (vq_ima_count request)
                         @ str '' IMA entries)''
                   in case admitted of
                        Some token \<Rightarrow> Done (answer (boot_success_code token) passed, s)
                      | None \<Rightarrow>
                          (if \<not> vq_skip_ima request
                           then Done (answer (-6) (str ''internal: success path reached without a verified admission token''), s)
                           else Done (answer 0 passed, s))))))"

definition measured_hash :: "VerifyReq \<Rightarrow> AttestedImaPrefix option \<Rightarrow> bytes option" where
  "measured_hash request attested =
     (case (case attested of None \<Rightarrow> None | Some prefix \<Rightarrow> host_extract_collector prefix) of
        Some h \<Rightarrow> Some h
      | None \<Rightarrow> (if vq_skip_ima request then Some (str ''skip_ima_verification'') else None))"

definition compare_state ::
  "VerifyLib \<Rightarrow> VerifyReq \<Rightarrow> bytes \<Rightarrow> registered \<Rightarrow> HostState \<Rightarrow> (EnclaveResponse \<times> HostState) exec" where
  "compare_state lib request pcr_values expected s =
     (let answer = respond_with (vq_ima_hash request);
          (expected_hash, expected_pcr0, expected_pcr7, expected_pcr10) = expected;
          actual_pcr0 = hl_hexenc (vl_host lib) (slice pcr_values 0 32);
          actual_pcr7 = hl_hexenc (vl_host lib) (slice pcr_values 32 64);
          actual_pcr10 = hl_hexenc (vl_host lib) (slice pcr_values 64 96);
          attested = attest_log lib request actual_pcr10;
          ima_log_reconciled = attested \<noteq> None
      in case measured_hash request attested of
           None \<Rightarrow>
             Done (answer (-4) (str ''no scaphandre binary measurement in the attested IMA log - refusing to accept a host-supplied hash in its place''), s)
         | Some scaphandre_hash \<Rightarrow>
             (if vq_skip_ima request then finish_verify lib request attested scaphandre_hash None s
              else
                (case admit_boot actual_pcr0 actual_pcr7 scaphandre_hash expected_pcr0 expected_pcr7
                        expected_hash (list_ex (\<lambda>b. b \<noteq> 0) (slice pcr_values 64 96))
                        ima_log_reconciled (expected_hash \<noteq> []) of
                   Ok token \<Rightarrow> finish_verify lib request attested scaphandre_hash (Some token) s
                 | Err denial \<Rightarrow>
                     (let (status, message) = host_denial scaphandre_hash actual_pcr0 actual_pcr7 expected denial
                      in Done (answer status message, s)))))"

definition handle_verify :: "VerifyLib \<Rightarrow> bytes \<Rightarrow> HostState \<Rightarrow> (EnclaveResponse \<times> HostState) exec" where
  "handle_verify lib json s =
     (case vl_verify_req lib json of
        Err e \<Rightarrow> Done (respond (-101) (str ''Failed to parse verify request: '' @ e), s)
      | Ok request \<Rightarrow>
          (case hl_hexdec (vl_host lib) (vq_pcr_values request) of
             Err e \<Rightarrow> Done (respond (-102) (str ''Failed to decode PCR hex: '' @ e), s)
           | Ok pcr_values \<Rightarrow>
               (let answer = respond_with (vq_ima_hash request)
                in if length pcr_values < 96 then
                     Done (answer (-102) (str ''PCR values too short (need 96 bytes for PCR 0,7,10)''), s)
                   else if list_all (\<lambda>b. b = 0) (slice pcr_values 64 96) then
                     Done (answer (-2) (str ''PCR10 is zero - IMA not active''), s)
                   else
                     and_then (authenticate lib request pcr_values s) (\<lambda>(refusal, s).
                       case refusal of
                         Some r \<Rightarrow> Done (r, s)
                       | None \<Rightarrow>
                           and_then (fetch_for lib request (str ''scaphandre'') s) (\<lambda>(reply, s).
                             case reply of
                               Err e \<Rightarrow>
                                 Done (answer (-5) (str ''Failed to query ImmuDB inside SGX: error '' @ dec_int e), s)
                             | Ok expected \<Rightarrow> compare_state lib request pcr_values expected s)))))"

section \<open>What a status of 0 means\<close>

text \<open>Queries and comparisons change no static but the count of interactions.\<close>

definition unchanged :: "HostState \<Rightarrow> HostState \<Rightarrow> bool" where
  "unchanged s s' \<longleftrightarrow> s' = s\<lparr>hs_events := hs_events s'\<rparr>"

lemma unchanged_refl [simp]: "unchanged s s"
  by (simp add: unchanged_def)

lemma unchanged_trans: "unchanged s t \<Longrightarrow> unchanged t u \<Longrightarrow> unchanged s u"
  by (cases s; cases t; cases u) (simp add: unchanged_def)

lemma unchanged_nonce: "unchanged s s' \<Longrightarrow> hs_nonce s' = hs_nonce s"
  by (cases s; cases s') (simp add: unchanged_def)

lemma fetch_unchanged: "fetch_for lib request key s = Done (reply, s') \<Longrightarrow> unchanged s s'"
  by (auto simp: fetch_for_def and_then_eq_Done unchanged_def)

lemma registered_unchanged: "registered_loop lib request key_of xs s = Done (bad, s') \<Longrightarrow> unchanged s s'"
proof (induction xs arbitrary: s)
  case (Cons x xs)
  obtain name hash where x: "x = (name, hash)" by (cases x)
  obtain reply t where f: "fetch_for lib request (key_of name) s = Done (reply, t)"
    using Cons.prems by (auto simp: x and_then_eq_Done)
  have "unchanged t s'"
    using Cons.prems Cons.IH [of t] by (auto simp: x f split: result.splits if_splits)
  then show ?case using fetch_unchanged [OF f] unchanged_trans by blast
qed simp

lemma gpu_unchanged: "check_gpu_stack lib request attested s = Done (bad, s') \<Longrightarrow> unchanged s s'"
  by (auto simp: check_gpu_stack_def registered_unchanged split: option.splits)

lemma hypervisor_unchanged: "check_hypervisor lib request attested s = Done (bad, s') \<Longrightarrow> unchanged s s'"
  by (auto simp: check_hypervisor_def registered_unchanged split: option.splits)

lemma finish_verify_Done:
  assumes "finish_verify lib request attested h admitted s = Done (r, s')"
  shows "unchanged s s' \<and>
    (er_status r = 0 \<longrightarrow>
      (admitted \<noteq> None \<or> vq_skip_ima request) \<and>
      (\<exists>t. check_gpu_stack lib request attested s = Done (None, t) \<and>
           check_hypervisor lib request attested t = Done (None, s')))"
proof -
  obtain gpu t where g: "check_gpu_stack lib request attested s = Done (gpu, t)"
    using assms by (auto simp: finish_verify_def and_then_eq_Done Let_def)
  show ?thesis
  proof (cases gpu)
    case (Some p)
    then show ?thesis
      using assms g gpu_unchanged [OF g] by (auto simp: finish_verify_def Let_def respond_with_def)
  next
    case None
    then obtain hyp u where h: "check_hypervisor lib request attested t = Done (hyp, u)"
      using assms g by (auto simp: finish_verify_def and_then_eq_Done Let_def)
    have "unchanged s u"
      using gpu_unchanged [OF g] hypervisor_unchanged [OF h] by (rule unchanged_trans)
    then show ?thesis
      using assms g h None
      by (cases hyp; cases admitted) (auto simp: finish_verify_def Let_def respond_with_def split: if_splits)
  qed
qed

lemma admit_boot_conditions:
  "admit_boot p0 p7 b e0 e7 eb nz rc he = Ok t \<Longrightarrow>
   b \<noteq> [] \<and> nz \<and> rc \<and> he \<and> spec_hex_eq b eb \<and> (e0 = [] \<or> spec_hex_eq p0 e0) \<and> (e7 = [] \<or> spec_hex_eq p7 e7)"
  by (auto simp: admit_boot_def refines split: if_splits)

text \<open>The comparison with the registered state, as it should be.\<close>

definition state_matches :: "VerifyLib \<Rightarrow> VerifyReq \<Rightarrow> bytes \<Rightarrow> registered \<Rightarrow> bool" where
  "state_matches lib request pcr_values expected =
     (let hexenc = hl_hexenc (vl_host lib); (e, p0, p7, p10) = expected
      in case attest_log lib request (hexenc (slice pcr_values 64 96)) of
           None \<Rightarrow> False
         | Some prefix \<Rightarrow>
             (case host_extract_collector prefix of
                None \<Rightarrow> False
              | Some h \<Rightarrow>
                  h \<noteq> [] \<and> e \<noteq> [] \<and> spec_hex_eq h e \<and>
                  (p0 = [] \<or> spec_hex_eq (hexenc (slice pcr_values 0 32)) p0) \<and>
                  (p7 = [] \<or> spec_hex_eq (hexenc (slice pcr_values 32 64)) p7)))"

definition components_match :: "VerifyLib \<Rightarrow> VerifyReq \<Rightarrow> bytes \<Rightarrow> HostState \<Rightarrow> HostState \<Rightarrow> bool" where
  "components_match lib request pcr_values s s' \<longleftrightarrow>
     (\<exists>t. check_gpu_stack lib request (attest_log lib request (hl_hexenc (vl_host lib) (slice pcr_values 64 96))) s
            = Done (None, t) \<and>
          check_hypervisor lib request (attest_log lib request (hl_hexenc (vl_host lib) (slice pcr_values 64 96))) t
            = Done (None, s'))"

lemma compare_state_Done:
  assumes "compare_state lib request pcr_values expected s = Done (r, s')"
  shows "unchanged s s' \<and>
    (er_status r = 0 \<longrightarrow>
      (vq_skip_ima request \<or> state_matches lib request pcr_values expected) \<and>
      components_match lib request pcr_values s s')"
proof -
  obtain e p0 p7 p10 where e: "expected = (e, p0, p7, p10)" by (cases expected)
  define att where "att = attest_log lib request (hl_hexenc (vl_host lib) (slice pcr_values 64 96))"
  show ?thesis
  proof (cases "measured_hash request att")
    case None
    then show ?thesis
      using assms by (auto simp: compare_state_def e att_def [symmetric] respond_with_def Let_def)
  next
    case (Some h)
    show ?thesis
    proof (cases "vq_skip_ima request")
      case True
      then have "finish_verify lib request att h None s = Done (r, s')"
        using assms Some by (simp add: compare_state_def e att_def [symmetric] Let_def)
      from finish_verify_Done [OF this] show ?thesis
        using True by (auto simp: components_match_def att_def)
    next
      case False
      then obtain prefix where p: "att = Some prefix" "host_extract_collector prefix = Some h"
        using Some by (auto simp: measured_hash_def split: option.splits)
      show ?thesis
      proof (cases "admit_boot (hl_hexenc (vl_host lib) (slice pcr_values 0 32))
          (hl_hexenc (vl_host lib) (slice pcr_values 32 64)) h p0 p7 e
          (list_ex (\<lambda>b. b \<noteq> 0) (slice pcr_values 64 96)) (att \<noteq> None) (e \<noteq> [])")
        case (Err d)
        then show ?thesis
          using assms Some False
          by (cases d) (auto simp: compare_state_def e att_def [symmetric] respond_with_def Let_def)
      next
        case (Ok t)
        then have "finish_verify lib request att h (Some t) s = Done (r, s')"
          using assms Some False by (simp add: compare_state_def e att_def [symmetric] Let_def)
        from finish_verify_Done [OF this] show ?thesis
          using admit_boot_conditions [OF Ok] p
          by (auto simp: components_match_def state_matches_def e att_def [symmetric])
      qed
    qed
  qed
qed

text \<open>The quote, as it should be: over the supplied values, with the nonce, and signed by the registered key.\<close>

definition quote_signed :: "VerifyLib \<Rightarrow> VerifyReq \<Rightarrow> bytes \<Rightarrow> bytes \<Rightarrow> bytes \<Rightarrow> bool" where
  "quote_signed lib request pcr_values nonce ak_pem \<longleftrightarrow>
     verify_tpm_quote lib (decode_or_empty lib (vq_quote_attest request))
       (decode_or_empty lib (vq_quote_signature request)) pcr_values nonce ak_pem = Done (Ok ())"

lemma check_quote_Done:
  assumes "check_quote lib request pcr_values ak_pem s = Done (refusal, s')"
  shows "(s' = s \<or> s' = s\<lparr>hs_nonce := None\<rparr>) \<and>
    (case refusal of
       None \<Rightarrow> (\<exists>nonce. hs_nonce s = Some nonce \<and> quote_signed lib request pcr_values nonce ak_pem) \<and>
               s' = s\<lparr>hs_nonce := None\<rparr>
     | Some x \<Rightarrow> er_status x \<noteq> 0)"
proof (cases "decode_or_empty lib (vq_quote_attest request) = [] \<or> decode_or_empty lib (vq_quote_signature request) = []
    \<or> hs_nonce s = None")
  case True
  then show ?thesis
    using assms by (auto simp: check_quote_def take_nonce_def Let_def respond_def split: if_splits)
next
  case False
  then obtain nonce where n: "hs_nonce s = Some nonce" by auto
  then obtain x where x: "verify_tpm_quote lib (decode_or_empty lib (vq_quote_attest request))
      (decode_or_empty lib (vq_quote_signature request)) pcr_values nonce ak_pem = Done x"
    using False assms by (auto simp: check_quote_def take_nonce_def Let_def and_then_eq_Done)
  then show ?thesis
    using False assms n
    by (cases x) (auto simp: check_quote_def take_nonce_def Let_def respond_def quote_signed_def)
qed

text \<open>The registry's answer for a node's attestation key.\<close>

definition ak_reply :: "VerifyLib \<Rightarrow> VerifyReq \<Rightarrow> HostState \<Rightarrow> (int, registered) result" where
  "ak_reply lib request s =
     (case fetch_for lib request (str ''ak_pub'') s of Done (reply, _) \<Rightarrow> reply | Panic \<Rightarrow> Err 0)"

definition ak_registered :: "VerifyLib \<Rightarrow> VerifyReq \<Rightarrow> HostState \<Rightarrow> bool" where
  "ak_registered lib request s \<longleftrightarrow> (\<exists>ak rest. ak_reply lib request s = Ok (ak, rest) \<and> ak \<noteq> [])"

definition authenticated :: "VerifyLib \<Rightarrow> VerifyReq \<Rightarrow> bytes \<Rightarrow> HostState \<Rightarrow> HostState \<Rightarrow> bool" where
  "authenticated lib request pcr_values s s' \<longleftrightarrow>
     (case ak_reply lib request s of
        Err code \<Rightarrow> code = -8 \<and> hs_nonce s' = hs_nonce s
      | Ok (ak, _) \<Rightarrow>
          if ak = [] then hs_nonce s' = hs_nonce s
          else (\<exists>nonce. hs_nonce s = Some nonce \<and> quote_signed lib request pcr_values nonce ak \<and>
                        hs_nonce s' = None))"

lemma unchanged_chains: "unchanged s t \<Longrightarrow> hs_vm_chains t = hs_vm_chains s"
  by (cases s; cases t) (simp add: unchanged_def)

lemma authenticate_Done:
  assumes "authenticate lib request pcr_values s = Done (refusal, s')"
  shows "(hs_nonce s' = hs_nonce s \<or> hs_nonce s' = None) \<and> hs_vm_chains s' = hs_vm_chains s \<and>
    (case refusal of None \<Rightarrow> authenticated lib request pcr_values s s' | Some x \<Rightarrow> er_status x \<noteq> 0)"
proof -
  obtain reply t where f: "fetch_for lib request (str ''ak_pub'') s = Done (reply, t)"
    using assms by (auto simp: authenticate_def and_then_eq_Done)
  have t: "hs_nonce t = hs_nonce s" "hs_vm_chains t = hs_vm_chains s"
    using unchanged_nonce unchanged_chains fetch_unchanged [OF f] by auto
  have r: "ak_reply lib request s = reply" by (simp add: ak_reply_def f)
  show ?thesis
  proof (cases "\<exists>ak rest. reply = Ok (ak, rest) \<and> ak \<noteq> []")
    case True
    then obtain ak rest where ak: "reply = Ok (ak, rest)" "ak \<noteq> []" by blast
    then have "check_quote lib request pcr_values ak t = Done (refusal, s')"
      using assms by (simp add: authenticate_def f)
    from check_quote_Done [OF this] show ?thesis
      using t ak by (cases refusal) (auto simp: authenticated_def r)
  next
    case False
    then show ?thesis
      using assms t
      by (cases reply) (auto simp: authenticate_def f authenticated_def r respond_def split: if_splits)
  qed
qed

lemma handle_verify_zero:
  assumes "handle_verify lib json s = Done (r, s')" "er_status r = 0"
  shows "\<exists>request pcrs expected s1 s2.
    vl_verify_req lib json = Ok request \<and> hl_hexdec (vl_host lib) (vq_pcr_values request) = Ok pcrs \<and>
    96 \<le> length pcrs \<and> (\<exists>b \<in> set (slice pcrs 64 96). b \<noteq> 0) \<and>
    authenticated lib request pcrs s s' \<and> hs_nonce s1 = hs_nonce s' \<and>
    fetch_for lib request (str ''scaphandre'') s1 = Done (Ok expected, s2) \<and>
    (vq_skip_ima request \<or> state_matches lib request pcrs expected) \<and>
    components_match lib request pcrs s2 s'"
proof -
  obtain request where q: "vl_verify_req lib json = Ok request"
    using assms by (cases "vl_verify_req lib json") (auto simp: handle_verify_def respond_def)
  obtain pcrs where p: "hl_hexdec (vl_host lib) (vq_pcr_values request) = Ok pcrs"
    using assms q by (cases "hl_hexdec (vl_host lib) (vq_pcr_values request)") (auto simp: handle_verify_def respond_def)
  have len: "96 \<le> length pcrs" and nz: "\<not> list_all (\<lambda>b. b = 0) (slice pcrs 64 96)"
    using assms by (auto simp: handle_verify_def q p respond_with_def Let_def split: if_splits)
  obtain refusal s1 where a: "authenticate lib request pcrs s = Done (refusal, s1)"
    using assms(1) len nz by (auto simp: handle_verify_def q p Let_def and_then_eq_Done split: if_splits)
  note auth = authenticate_Done [OF a]
  have n: "refusal = None"
    using assms len nz auth by (cases refusal) (auto simp: handle_verify_def q p Let_def a split: if_splits)
  obtain reply s2 where f: "fetch_for lib request (str ''scaphandre'') s1 = Done (reply, s2)"
    using assms(1) len nz n by (auto simp: handle_verify_def q p Let_def a and_then_eq_Done split: if_splits)
  obtain expected where e: "reply = Ok expected"
    using assms len nz n f
    by (cases reply) (auto simp: handle_verify_def q p Let_def a respond_with_def split: if_splits)
  have "compare_state lib request pcrs expected s2 = Done (r, s')"
    using assms(1) len nz n f e by (auto simp: handle_verify_def q p Let_def a split: if_splits)
  from compare_state_Done [OF this] assms(2)
  have c: "unchanged s2 s'" "vq_skip_ima request \<or> state_matches lib request pcrs expected"
    "components_match lib request pcrs s2 s'" by auto
  have s1: "hs_nonce s' = hs_nonce s1"
    using unchanged_nonce [OF c(1)] unchanged_nonce [OF fetch_unchanged [OF f]] by simp
  then have "authenticated lib request pcrs s s'"
    using auth n by (auto simp: authenticated_def split: result.splits)
  then show ?thesis
    using q p len nz s1 f e c
    by (intro exI [of _ request] exI [of _ pcrs] exI [of _ expected] exI [of _ s1] exI [of _ s2])
      (auto simp: list_all_iff)
qed


text \<open>An instance: a node without an attestation key whose collector, registers and log are as registered.\<close>

definition node_log :: bytes where
  "node_log = str ''10 5 ima-ng s:AB /bin/scaphandre'' @ [10]"

definition node_pcr10 :: bytes where
  "node_pcr10 = [0, 0, 0, 0, 4, 0, 0, 0, 115, 58, 0, 171, 16, 0, 0, 0] @ str ''/bin/scaphandre'' @ [0]"

definition node_prefix :: AttestedImaPrefix where
  "node_prefix =
     \<lparr>ap_attested = [\<lparr>ir_extend_digest = rev node_pcr10, ir_file_hash = str ''AB'',
        ir_file_path = str ''/bin/scaphandre'', ir_end_offset = 33\<rparr>],
      ap_entries_total = 1, ap_attested_bytes = 33\<rparr>"

definition node_request :: VerifyReq where
  "node_request =
     \<lparr>vq_pcr_values = hex_lower (replicate 64 0 @ node_pcr10), vq_ima_hash = [], vq_ima_count = 1,
      vq_ima_log = Some node_log, vq_scaphandre_hash = [], vq_hostname = str ''n'',
      vq_deployment_type = str ''host'', vq_immudb_addr = str ''a'', vq_skip_ima = False,
      vq_quote_attest = [], vq_quote_signature = []\<rparr>"

definition node_session :: bytes where
  "node_session = quoted_key ''sessionID'' @ str ''s'' @ quoted (str ''}'')"

definition node_document :: bytes where
  "node_document = quoted_key ''hash_value'' @ str ''ab'' @ quoted_key ''pcr0'' @ quoted_key ''pcr7''
     @ quoted_key ''pcr10'' @ quoted []"

definition node_dial :: dial where
  "node_dial n addr request =
     Ok [Ok (if n = 1 then str ''none'' else if n = 3 then node_document else node_session), Ok []]"

definition node_lib :: VerifyLib where
  "node_lib =
     \<lparr>vl_host = demo_lib\<lparr>hl_sha := demo_sha\<rparr>, vl_verify_req = (\<lambda>_. Ok node_request), vl_ca_ok = True,
      vl_dial = node_dial, vl_rng = (\<lambda>n. Ok (replicate 32 (of_nat n))), vl_pk_verify = (\<lambda>_ _ _. Ok ())\<rparr>"

lemma read_two: "read_loop c [Ok x, Ok []] [] = Ok x"
  by (simp add: Let_def)

lemma node_texts:
  "utf8_lossy node_session = node_session" "utf8_lossy (str ''none'') = str ''none''"
  "utf8_lossy node_document = node_document"
  "scrape (quoted_key ''sessionID'') node_session = Some (str ''s'')"
  "host_parse_registered (str ''none'') = Err (-8)" "log_response (str ''none'') = Done ()"
  by code_simp+

lemma node_document_parsed: "host_parse_registered node_document = Ok (str ''ab'', [], [], [])"
  by code_simp

lemma node_document_logged: "log_response node_document = Done ()"
  by code_simp

lemma node_exchange:
  "exchange node_dial 0 a q c = Ok node_session" "exchange node_dial 1 a q c = Ok (str ''none'')"
  "exchange node_dial 2 a q c = Ok node_session" "exchange node_dial 3 a q c = Ok node_document"
  unfolding exchange_def node_dial_def by (simp_all add: node_texts read_two del: read_loop.simps)

lemma node_fetch:
  "host_fetch node_lib key h d a 0 = Done (Err (-8), 2)"
  "host_fetch node_lib key h d a 2 = Done (Ok (str ''ab'', [], [], []), 4)"
  by (simp_all add: host_fetch_def node_lib_def node_exchange node_texts node_document_parsed node_document_logged
      node_exchange(2) [unfolded One_nat_def])

lemma node_parse: "parse_ima_log demo_sha node_log = Ok (ap_attested node_prefix)"
  by code_simp

lemma node_reconcile: "reconcile_ima_against_pcr10 demo_sha (ap_attested node_prefix) (hex_lower node_pcr10) = Ok node_prefix"
  by code_simp

lemma node_readings:
  "host_extract_collector node_prefix = Some (str ''AB'')" "host_extract_gpu_stack node_prefix = []"
  "host_extract_hypervisor node_prefix = []"
  by code_simp+

lemma node_values:
  "length node_pcr10 = 32" "list_ex (\<lambda>b. b \<noteq> 0) node_pcr10" "\<not> list_all (\<lambda>b. b = 0) node_pcr10"
  "eq_ignore_ascii_case (str ''AB'') (str ''ab'')"
  by code_simp+

lemma node_passes: "\<exists>r s'. handle_verify node_lib [] demo_state = Done (r, s') \<and> er_status r = 0"
proof -
  have lib: "hl_sha (vl_host node_lib) = demo_sha" "hl_hexenc (vl_host node_lib) = hex_lower"
    "hl_hexdec (vl_host node_lib) = (\<lambda>s. case hex_pairs s of Some b \<Rightarrow> Ok b | None \<Rightarrow> Err [])"
    "vl_verify_req node_lib json = Ok node_request" for json
    by (simp_all add: node_lib_def demo_lib_def)
  have pcr: "slice (replicate 64 0 @ node_pcr10) 64 96 = node_pcr10"
    by (simp add: slice_def node_values)
  have att: "attest_log node_lib node_request (hex_lower node_pcr10) = Some node_prefix"
    by (simp add: attest_log_def lib node_request_def node_parse node_reconcile)
  have ev: "hs_events demo_state = 0" by (simp add: demo_state_def)
  have a: "authenticate node_lib node_request p demo_state = Done (None, demo_state\<lparr>hs_events := 2\<rparr>)" for p
    by (simp add: authenticate_def fetch_for_def ev node_fetch)
  have f: "fetch_for node_lib node_request (str ''scaphandre'') (demo_state\<lparr>hs_events := 2\<rparr>) =
      Done (Ok (str ''ab'', [], [], []), demo_state\<lparr>hs_events := 4\<rparr>)"
    by (simp add: fetch_for_def node_fetch)
  have ne: "str ''AB'' \<noteq> []" "str ''ab'' \<noteq> []" by (simp_all add: str_Cons)
  have b: "admit_boot p0 p7 (str ''AB'') [] [] (str ''ab'') True True True = Ok \<lparr>ba_seal = 0\<rparr>" for p0 p7
    using ne by (simp add: admit_boot_def node_values)
  have m: "measured_hash node_request (Some node_prefix) = Some (str ''AB'')"
    by (simp add: measured_hash_def node_readings)
  have k: "vq_skip_ima node_request = False" by (simp add: node_request_def)
  have "\<exists>r s'. compare_state node_lib node_request (replicate 64 0 @ node_pcr10) (str ''ab'', [], [], [])
      (demo_state\<lparr>hs_events := 4\<rparr>) = Done (r, s') \<and> er_status r = 0"
    by (simp add: compare_state_def lib pcr att m k node_values b ne finish_verify_def check_gpu_stack_def
        check_hypervisor_def node_readings boot_success_code_def respond_with_def Let_def)
  then show ?thesis
    by (simp add: handle_verify_def lib node_request_def [unfolded atomize_eq, THEN arg_cong, of vq_pcr_values]
        hex_pairs_lower pcr node_values a f)
qed


section \<open>What the request can switch off\<close>

text \<open>The request's \<open>skip_ima\<close> switches the comparison off altogether: with the flag set and no log sent, a
  node whose PCR 10 is not zero, whose authentication passes (any node without a registered key) and for
  which some state is registered is answered 0 and \<open>FULL VERIFICATION PASSED\<close>, whatever its PCR 0 and
  PCR 7, its collector and the registered values are.\<close>
theorem skip_ima_admits_anything:
  assumes "vl_verify_req lib json = Ok request" "vq_skip_ima request" "vq_ima_log request = None"
    and "hl_hexdec (vl_host lib) (vq_pcr_values request) = Ok pcrs" "96 \<le> length pcrs"
    and "\<not> list_all (\<lambda>b. b = 0) (slice pcrs 64 96)"
    and "authenticate lib request pcrs s = Done (None, s1)"
    and "fetch_for lib request (str ''scaphandre'') s1 = Done (Ok expected, s2)"
  shows "\<exists>r. handle_verify lib json s = Done (r, s2) \<and> er_status r = 0 \<and>
    starts_with (str ''FULL VERIFICATION PASSED'') (er_message r)"
proof -
  have "attest_log lib request p = None" for p by (simp add: attest_log_def assms(3))
  moreover obtain e p0 p7 p10 where e: "expected = (e, p0, p7, p10)" by (cases expected)
  ultimately have "\<exists>r. compare_state lib request pcrs expected s2 = Done (r, s2) \<and> er_status r = 0 \<and>
      starts_with (str ''FULL VERIFICATION PASSED'') (er_message r)"
    using assms(2) by (simp add: compare_state_def measured_hash_def finish_verify_def check_gpu_stack_def
        check_hypervisor_def respond_with_def starts_with_def str_Cons Let_def)
  then show ?thesis
    using assms by (auto simp: handle_verify_def Let_def)
qed

definition wrong_request :: VerifyReq where
  "wrong_request = node_request\<lparr>vq_skip_ima := True, vq_ima_log := None,
     vq_pcr_values := hex_lower (replicate 96 1)\<rparr>"

lemma skip_ima_admits_anything_witness:
  "\<exists>r s2. handle_verify (node_lib\<lparr>vl_verify_req := \<lambda>_. Ok wrong_request\<rparr>) [] demo_state = Done (r, s2) \<and> er_status r = 0"
proof -
  let ?lib = "node_lib\<lparr>vl_verify_req := \<lambda>_. Ok wrong_request\<rparr>"
  have f: "host_fetch ?lib = host_fetch node_lib"
    by (simp add: fun_eq_iff host_fetch_def cong: result.case_cong option.case_cong)
  have ev: "hs_events demo_state = 0" by (simp add: demo_state_def)
  have a: "authenticate ?lib wrong_request p demo_state = Done (None, demo_state\<lparr>hs_events := 2\<rparr>)" for p
    by (simp add: authenticate_def fetch_for_def ev f node_fetch)
  have g: "fetch_for ?lib wrong_request (str ''scaphandre'') (demo_state\<lparr>hs_events := 2\<rparr>) =
      Done (Ok (str ''ab'', [], [], []), demo_state\<lparr>hs_events := 4\<rparr>)"
    by (simp add: fetch_for_def f node_fetch)
  have "\<not> list_all (\<lambda>b. b = 0) (slice (replicate 96 (1 :: u8)) 64 96)"
    by (simp add: slice_def list_all_iff)
  moreover have "hl_hexdec (vl_host ?lib) (vq_pcr_values wrong_request) = Ok (replicate 96 1)"
    by (simp add: node_lib_def demo_lib_def wrong_request_def hex_pairs_lower)
  moreover have "vl_verify_req ?lib [] = Ok wrong_request" "vq_skip_ima wrong_request" "vq_ima_log wrong_request = None"
    by (simp_all add: wrong_request_def)
  ultimately show ?thesis
    using skip_ima_admits_anything [of ?lib "[]" wrong_request "replicate 96 1" demo_state, OF _ _ _ _ _ _ a g] by auto
qed

text \<open>The status of a log that does not reconcile is never the -10 reserved for it: without an attested part no
  collector hash is read either, so the answer is -4.\<close>

lemma unreconciled_is_minus_4:
  assumes "attest_log lib request (hl_hexenc (vl_host lib) (slice pcrs 64 96)) = None" "\<not> vq_skip_ima request"
    and "compare_state lib request pcrs expected s = Done (r, s')"
  shows "er_status r = -4"
  using assms by (cases expected) (auto simp: compare_state_def measured_hash_def respond_with_def Let_def)

section \<open>The statics a verification touches\<close>

definition taken :: "HostState \<Rightarrow> HostState \<Rightarrow> bool" where
  "taken s s' \<longleftrightarrow> (hs_nonce s' = hs_nonce s \<or> hs_nonce s' = None) \<and> hs_vm_chains s' = hs_vm_chains s"

lemma unchanged_taken: "unchanged t u \<Longrightarrow> taken s t \<Longrightarrow> taken s u"
  using unchanged_nonce [of t u] unchanged_chains [of t u] by (simp add: taken_def)

lemma authenticate_taken: "authenticate lib request pcrs s = Done (refusal, t) \<Longrightarrow> taken s t"
  using authenticate_Done [of lib request pcrs s refusal t] by (simp add: taken_def)

lemma handle_verify_effect:
  assumes "handle_verify lib json s = Done (r, s')"
  shows "taken s s'"
proof (cases "s' = s")
  case False
  then obtain request pcrs refusal t where q: "vl_verify_req lib json = Ok request"
    "hl_hexdec (vl_host lib) (vq_pcr_values request) = Ok pcrs"
    "\<not> length pcrs < 96" "\<not> list_all (\<lambda>b. b = 0) (slice pcrs 64 96)"
    and a: "authenticate lib request pcrs s = Done (refusal, t)"
    using assms by (auto simp: handle_verify_def Let_def and_then_eq_Done split: result.splits if_splits)
  show ?thesis
  proof (cases refusal)
    case (Some x)
    then show ?thesis using assms authenticate_taken [OF a] by (simp add: handle_verify_def q a Let_def)
  next
    case None
    then obtain reply u where f: "fetch_for lib request (str ''scaphandre'') t = Done (reply, u)"
      using assms by (auto simp: handle_verify_def q a Let_def and_then_eq_Done)
    have u: "taken s u" using unchanged_taken [OF fetch_unchanged [OF f] authenticate_taken [OF a]] .
    show ?thesis
    proof (cases reply)
      case (Err e)
      then show ?thesis using assms None u by (simp add: handle_verify_def q a f Let_def)
    next
      case (Ok expected)
      then have "compare_state lib request pcrs expected u = Done (r, s')"
        using assms None by (simp add: handle_verify_def q a f Let_def)
      from compare_state_Done [OF this] u show ?thesis using unchanged_taken by blast
    qed
  qed
qed (simp add: taken_def)

end
