(* ===== verification/HostServer.thy ===== *)
theory HostServer
  imports HostVerify
begin

text \<open>
  The host enclave's server (\<open>src/sgx/src/main.rs\<close>): the request handlers, their dispatch, the framing
  of requests and responses (a 32-bit big-endian length, then the text) in the TLS and the plain build,
  and the loop over the requests of a connection. A connection is the bytes the peer sends before it
  closes; what the server sends is returned.
\<close>

section \<open>Requests\<close>

record ComputeReq =
  cq_topo_data :: bytes
  cq_proc_data :: bytes
  cq_hash_data :: bytes
  cq_tag_key :: "(u64 \<times> u64) option"
  cq_tag_epoch :: u32
  cq_tag_producer :: u16

record CgroupComputeReq =
  gq_topo_data :: bytes
  gq_cgroup_data :: bytes
  gq_hash_data :: bytes
  gq_tag_key :: "(u64 \<times> u64) option"
  gq_tag_epoch :: u32
  gq_tag_producer :: u16

record HostComputeReq =
  hq_pkg_data :: bytes
  hq_dram_data :: bytes

text \<open>serde's parsers of the requests and printer of the responses, and the files.\<close>

record ServerLib =
  sv_verify :: VerifyLib
  sv_operation :: "bytes \<Rightarrow> (bytes, bytes) result"
  sv_compute_req :: "bytes \<Rightarrow> (bytes, ComputeReq) result"
  sv_cgroup_req :: "bytes \<Rightarrow> (bytes, CgroupComputeReq) result"
  sv_file_req :: "bytes \<Rightarrow> (bytes, bytes) result"
  sv_host_req :: "bytes \<Rightarrow> (bytes, HostComputeReq) result"
  sv_read_file :: "nat \<Rightarrow> bytes \<Rightarrow> (bytes, bytes) result"
  sv_response_json :: "EnclaveResponse \<Rightarrow> bytes"

abbreviation sv_host :: "ServerLib \<Rightarrow> HostLib" where
  "sv_host lib \<equiv> vl_host (sv_verify lib)"

section \<open>The handlers\<close>

definition energy_response :: "ServerLib \<Rightarrow> bytes \<Rightarrow> bytes \<Rightarrow> Outcome \<Rightarrow> EnclaveResponse" where
  "energy_response lib ok bad outcome =
     (if oc_status outcome = 0 then
        (let output = (case oc_output outcome of Some bs \<Rightarrow> bs | None \<Rightarrow> [])
         in \<lparr>er_status = 0,
             er_message = ok @ str '' computed successfully, '' @ dec (length output) @ str '' bytes output'',
             er_ima_hash = None,
             er_output_data = (if output \<noteq> [] then Some (hl_hexenc (sv_host lib) output) else None)\<rparr>)
      else respond (oc_status outcome) (bad @ str '' computation failed with status '' @ dec_int (oc_status outcome)))"

definition handle_compute_vm_energy :: "ServerLib \<Rightarrow> bytes \<Rightarrow> HostState \<Rightarrow> (EnclaveResponse \<times> HostState) exec" where
  "handle_compute_vm_energy lib json s =
     (case sv_compute_req lib json of
        Err e \<Rightarrow> Done (respond (-101) (str ''Failed to parse compute_vm_energy request: '' @ e), s)
      | Ok request \<Rightarrow>
          (case cq_tag_key request of
             None \<Rightarrow> Done (respond (-128) (str ''RAPL readings carry keyed SipTag-32 but the request supplied no tag key. An old collector, or one built without the eBPF tag feature, is talking to a keyed enclave. Refusing.''), s)
           | Some (k0, k1) \<Rightarrow>
               (let s = set_rapl_tag_key (Some (k0, k1, cq_tag_epoch request, cq_tag_producer request)) s
                in case hl_hexdec (sv_host lib) (cq_topo_data request) of
                     Err e \<Rightarrow> Done (respond (-102) (str ''Failed to decode topo hex: '' @ e), s)
                   | Ok topo_bytes \<Rightarrow>
                       (case hl_hexdec (sv_host lib) (cq_proc_data request) of
                          Err e \<Rightarrow> Done (respond (-103) (str ''Failed to decode proc hex: '' @ e), s)
                        | Ok proc_bytes \<Rightarrow>
                            (case hl_hexdec (sv_host lib) (cq_hash_data request) of
                               Err e \<Rightarrow> Done (respond (-104) (str ''Failed to decode hash hex: '' @ e), s)
                             | Ok hash_bytes \<Rightarrow>
                                 and_then (ecall_compute_vm_energy_simple (sv_host lib) (Some topo_bytes)
                                             (Some proc_bytes) (Some hash_bytes) (Some 65536) True s)
                                   (\<lambda>(outcome, s).
                                      Done (energy_response lib (str ''VM energy'') (str ''VM energy'') outcome, s)))))))"

definition handle_compute_vm_energy_cgroup ::
  "ServerLib \<Rightarrow> bytes \<Rightarrow> HostState \<Rightarrow> (EnclaveResponse \<times> HostState) exec" where
  "handle_compute_vm_energy_cgroup lib json s =
     (case sv_cgroup_req lib json of
        Err e \<Rightarrow> Done (respond (-100) (str ''Failed to parse cgroup compute request: '' @ e), s)
      | Ok request \<Rightarrow>
          (case gq_tag_key request of
             None \<Rightarrow> Done (respond (-128) (str ''RAPL readings carry keyed SipTag-32 but the cgroup request supplied no tag key. Refusing.''), s)
           | Some (k0, k1) \<Rightarrow>
               (let s = set_rapl_tag_key (Some (k0, k1, gq_tag_epoch request, gq_tag_producer request)) s
                in case hl_hexdec (sv_host lib) (gq_topo_data request) of
                     Err e \<Rightarrow> Done (respond (-110) (str ''Invalid topo_data hex: '' @ e), s)
                   | Ok topo_bytes \<Rightarrow>
                       (case hl_hexdec (sv_host lib) (gq_cgroup_data request) of
                          Err e \<Rightarrow> Done (respond (-111) (str ''Invalid cgroup_data hex: '' @ e), s)
                        | Ok cgroup_bytes \<Rightarrow>
                            (case hl_hexdec (sv_host lib) (gq_hash_data request) of
                               Err e \<Rightarrow> Done (respond (-112) (str ''Invalid hash_data hex: '' @ e), s)
                             | Ok hash_bytes \<Rightarrow>
                                 and_then (ecall_compute_vm_energy_cgroup (sv_host lib) (Some topo_bytes)
                                             (Some cgroup_bytes) hash_bytes 4096 s)
                                   (\<lambda>(outcome, s).
                                      Done (if oc_status outcome = -2
                                            then respond (-2) (str ''RAPL hash verification FAILED - possible tampering'')
                                            else energy_response lib (str ''Cgroup VM energy'')
                                                   (str ''Cgroup VM energy'') outcome, s)))))))"

definition handle_compute_vm_energy_from_file ::
  "ServerLib \<Rightarrow> bytes \<Rightarrow> HostState \<Rightarrow> (EnclaveResponse \<times> HostState) exec" where
  "handle_compute_vm_energy_from_file lib json s =
     (case sv_file_req lib json of
        Err e \<Rightarrow> Done (respond (-101) (str ''Failed to parse file request: '' @ e), s)
      | Ok file_path \<Rightarrow>
          (let s1 = s\<lparr>hs_events := hs_events s + 1\<rparr>
           in case sv_read_file lib (hs_events s) file_path of
                Err e \<Rightarrow> Done (respond (-110) (str ''Failed to read file '' @ file_path @ str '': '' @ e), s1)
              | Ok file_content \<Rightarrow> handle_compute_vm_energy lib file_content s1))"

definition handle_compute_host_energy :: "ServerLib \<Rightarrow> bytes \<Rightarrow> EnclaveResponse exec" where
  "handle_compute_host_energy lib json =
     (case sv_host_req lib json of
        Err e \<Rightarrow> Done (respond (-101) (str ''Failed to parse compute_host_energy request: '' @ e))
      | Ok request \<Rightarrow>
          (case hl_hexdec (sv_host lib) (hq_pkg_data request) of
             Err e \<Rightarrow> Done (respond (-102) (str ''Failed to decode pkg hex: '' @ e))
           | Ok pkg_bytes \<Rightarrow>
               (case hl_hexdec (sv_host lib) (hq_dram_data request) of
                  Err e \<Rightarrow> Done (respond (-103) (str ''Failed to decode dram hex: '' @ e))
                | Ok dram_bytes \<Rightarrow>
                    and_then (ecall_compute_total_host_energy (sv_host lib) (Some pkg_bytes) (Some dram_bytes)
                                (Some 256) True)
                      (\<lambda>outcome.
                         let output = (case oc_output outcome of Some bs \<Rightarrow> bs | None \<Rightarrow> [])
                         in if oc_status outcome = 0 \<and> output \<noteq> [] then
                              (if utf8_valid output then Done (respond 0 output)
                               else Done (respond (-104) (str ''Failed to decode output as string'')))
                            else Done (respond (oc_status outcome)
                                   (str ''Host energy computation failed with status '' @ dec_int (oc_status outcome)))))))"

definition handle_init_sealed_key :: EnclaveResponse where
  "handle_init_sealed_key =
     respond 0 (str ''NOT IMPLEMENTED: sealed-key initialization is a stub; no key was sealed'')"

section \<open>Dispatch\<close>

definition dispatch :: "ServerLib \<Rightarrow> bytes \<Rightarrow> bytes \<Rightarrow> HostState \<Rightarrow> (EnclaveResponse \<times> HostState) exec" where
  "dispatch lib operation line s =
     (if operation = str ''verify'' then handle_verify (sv_verify lib) line s
      else if operation = str ''get_nonce'' then Done (handle_get_nonce (sv_verify lib) s)
      else if operation = str ''compute_vm_energy'' then handle_compute_vm_energy lib line s
      else if operation = str ''compute_vm_energy_cgroup'' then handle_compute_vm_energy_cgroup lib line s
      else if operation = str ''compute_vm_energy_file'' then handle_compute_vm_energy_from_file lib line s
      else if operation = str ''compute_host_energy'' then
        and_then (handle_compute_host_energy lib line) (\<lambda>r. Done (r, s))
      else if operation = str ''init_sealed_key'' then Done (handle_init_sealed_key, s)
      else Done (respond (-1000) (str ''Unknown operation: '' @ operation), s))"

text \<open>The answer to one request text, and whether the server goes on.\<close>

definition answer_line :: "ServerLib \<Rightarrow> bytes \<Rightarrow> HostState \<Rightarrow> (EnclaveResponse \<times> bool \<times> HostState) exec" where
  "answer_line lib request_data s =
     (if \<not> utf8_valid request_data then
        Done (respond (-50) (str ''Invalid UTF-8 in request''), True, s)
      else
        (case sv_operation lib request_data of
           Err e \<Rightarrow> Done (respond (-100) (str ''Failed to parse request: '' @ e), True, s)
         | Ok operation \<Rightarrow>
             (if operation = str ''shutdown'' then Done (respond 0 (str ''Shutting down''), False, s)
              else and_then (dispatch lib operation request_data s) (\<lambda>(r, s). Done (r, True, s)))))"

section \<open>Frames\<close>

definition be32_bytes :: "nat \<Rightarrow> bytes" where
  "be32_bytes n = rev (le_bytes 4 n)"

text \<open>\<open>(len as u32).to_be_bytes()\<close> and the text\<close>

definition send_tls_response :: "ServerLib \<Rightarrow> EnclaveResponse \<Rightarrow> bytes" where
  "send_tls_response lib response =
     (let response_bytes = sv_response_json lib response
      in be32_bytes (length response_bytes) @ response_bytes)"

text \<open>Reading an exact number of bytes, or failing at the end of the connection.\<close>

definition read_exact :: "nat \<Rightarrow> bytes \<Rightarrow> (bytes \<times> bytes) option" where
  "read_exact n input = (if n \<le> length input then Some (take n input, drop n input) else None)"

datatype verdict = Broken | Stop | Continue

record Turn =
  tu_verdict :: verdict
  tu_rest :: bytes
  tu_sent :: bytes
  tu_state :: HostState

definition ends :: "verdict \<Rightarrow> bytes \<Rightarrow> HostState \<Rightarrow> Turn" where
  "ends v rest s = \<lparr>tu_verdict = v, tu_rest = rest, tu_sent = [], tu_state = s\<rparr>"

definition serve_frame :: "ServerLib \<Rightarrow> nat \<Rightarrow> verdict \<Rightarrow> bytes \<Rightarrow> HostState \<Rightarrow> Turn exec" where
  "serve_frame lib cap at_end input s =
     (case read_exact 4 input of
        None \<Rightarrow> Done (ends at_end [] s)
      | Some (len_buf, rest) \<Rightarrow>
          (let request_len = unat (be32 (len_buf ! 0) (len_buf ! 1) (len_buf ! 2) (len_buf ! 3))
           in if request_len = 0 then Done (ends Stop rest s)
              else if request_len > cap then Done (ends Broken rest s)
              else
                (case read_exact request_len rest of
                   None \<Rightarrow> Done (ends Broken [] s)
                 | Some (request_data, rest) \<Rightarrow>
                     and_then (answer_line lib request_data s) (\<lambda>(response, go_on, s).
                       Done \<lparr>tu_verdict = (if go_on then Continue else Stop), tu_rest = rest,
                             tu_sent = send_tls_response lib response, tu_state = s\<rparr>))))"

text \<open>The TLS build breaks at the end of the connection and takes 256 MiB; the plain one stops and takes 40.\<close>

definition MAX_REQUEST_BYTES :: nat where
  "MAX_REQUEST_BYTES = 256 * 1024 * 1024"

definition handle_single_tls_request :: "ServerLib \<Rightarrow> bytes \<Rightarrow> HostState \<Rightarrow> Turn exec" where
  "handle_single_tls_request lib input s = serve_frame lib MAX_REQUEST_BYTES Broken input s"

definition handle_single_request :: "ServerLib \<Rightarrow> bytes \<Rightarrow> HostState \<Rightarrow> Turn exec" where
  "handle_single_request lib input s =
     serve_frame lib (40 * 1024 * 1024) Stop input s"

lemma serve_frame_consumes:
  "serve_frame lib cap v input s = Done t \<Longrightarrow> tu_verdict t = Continue \<Longrightarrow> v \<noteq> Continue \<Longrightarrow>
   length (tu_rest t) < length input"
  by (auto simp: serve_frame_def read_exact_def ends_def Let_def and_then_eq_Done split: if_splits)

text \<open>The loop of \<open>main\<close>: what is sent, the number of requests handled, and the statics at the end.\<close>

function serve :: "ServerLib \<Rightarrow> bytes \<Rightarrow> nat \<Rightarrow> HostState \<Rightarrow> (bytes \<times> nat \<times> HostState) exec" where
  "serve lib input request_count s =
     (case handle_single_tls_request lib input s of
        Panic \<Rightarrow> Panic
      | Done t \<Rightarrow>
          (if tu_verdict t = Continue then
             and_then (serve lib (tu_rest t) (request_count + 1) (tu_state t))
               (\<lambda>(sent, n, s). Done (tu_sent t @ sent, n, s))
           else Done (tu_sent t, request_count, tu_state t)))"
  by pat_completeness auto
termination
  by (relation "measure (\<lambda>(lib, input, n, s). length input)")
    (auto simp: handle_single_tls_request_def dest: serve_frame_consumes)

declare serve.simps [simp del]

text \<open>\<open>main\<close>: the chain table is created, then the connection is served.\<close>

definition enclave_start :: HostState where
  "enclave_start =
     \<lparr>hs_vm_chains = snd (ecall_initialize_sealed_key None), hs_tag_key = None, hs_prev_cpu = None,
      hs_nonce = None, hs_events = 0\<rparr>"

definition enclave_main :: "ServerLib \<Rightarrow> bytes \<Rightarrow> (bytes \<times> nat \<times> HostState) exec" where
  "enclave_main lib input = serve lib input 0 enclave_start"

section \<open>A session\<close>

text \<open>A client's frame, and the abstract server: one response per request, in order.\<close>

definition frame :: "bytes \<Rightarrow> bytes" where
  "frame request = be32_bytes (length request) @ request"

definition frameable :: "bytes \<Rightarrow> bool" where
  "frameable request \<longleftrightarrow> request \<noteq> [] \<and> length request \<le> MAX_REQUEST_BYTES"

fun answers :: "ServerLib \<Rightarrow> bytes list \<Rightarrow> HostState \<Rightarrow> (EnclaveResponse list \<times> bool \<times> HostState) exec" where
  "answers lib [] s = Done ([], False, s)"
| "answers lib (request # requests) s =
     and_then (answer_line lib request s) (\<lambda>(response, go_on, s).
       if go_on then
         and_then (answers lib requests s) (\<lambda>(rs, stopped, s). Done (response # rs, stopped, s))
       else Done ([response], True, s))"

lemma be32_bytes_four:
  "be32_bytes n = [of_nat (n div 256 div 256 div 256 mod 256), of_nat (n div 256 div 256 mod 256),
     of_nat (n div 256 mod 256), of_nat (n mod 256)]"
proof -
  have four: "4 = Suc (Suc (Suc (Suc 0)))" by simp
  show ?thesis unfolding be32_bytes_def four le_bytes.simps by simp
qed

lemma be32_of_bytes:
  assumes "n < 2 ^ 32"
  shows "unat (be32 (be32_bytes n ! 0) (be32_bytes n ! 1) (be32_bytes n ! 2) (be32_bytes n ! 3)) = n"
proof -
  define a b c where "a = n div 256" and "b = a div 256" and "c = b div 256"
  have "c < 256" using assms by (simp add: a_def b_def c_def div_mult2_eq [symmetric] less_mult_imp_div_less)
  then have "c mod 256 = c" by simp
  moreover have "c * 256 + b mod 256 = b" "b * 256 + a mod 256 = a" "a * 256 + n mod 256 = n"
    unfolding a_def b_def c_def by (rule div_mult_mod_eq)+
  ultimately show ?thesis
    unfolding be32_bytes_four a_def [symmetric] b_def [symmetric] c_def [symmetric]
    by (simp add: unat_be32 unat_of_nat_u8 unat_of_nat)
qed

lemma serve_one:
  assumes "frameable request"
  shows "handle_single_tls_request lib (frame request @ rest) s =
    and_then (answer_line lib request s) (\<lambda>(response, go_on, s).
      Done \<lparr>tu_verdict = (if go_on then Continue else Stop), tu_rest = rest,
            tu_sent = send_tls_response lib response, tu_state = s\<rparr>)"
proof -
  have l: "length (be32_bytes n) = 4" for n by (simp add: be32_bytes_def)
  have b: "length request < 2 ^ 32" using assms by (simp add: frameable_def MAX_REQUEST_BYTES_def)
  have "read_exact 4 (frame request @ rest) = Some (be32_bytes (length request), request @ rest)"
    by (simp add: read_exact_def frame_def l)
  then show ?thesis
    using assms be32_of_bytes [OF b]
    by (simp add: handle_single_tls_request_def serve_frame_def frameable_def read_exact_def Let_def)
qed

lemma serve_end:
  "handle_single_tls_request lib [] s = Done (ends Broken [] s)"
  by (simp add: handle_single_tls_request_def serve_frame_def read_exact_def)

text \<open>C20: The server answers a connection request by request. For every sequence of requests of at most 256 MiB
  each, sent back to back and then closed, the loop terminates, and what it sends is the framed responses
  of the handlers, in order, up to and including the answer to the first \<open>shutdown\<close>; the statics end as
  the handlers leave them, a panic of a handler is the only way it can fail, and the count it logs is the
  number of requests answered, without the shutdown.\<close>
theorem server_answers_in_order:
  assumes "list_all frameable requests"
  shows "serve lib (concat (map frame requests)) n s =
    and_then (answers lib requests s) (\<lambda>(rs, stopped, s').
      Done (concat (map (send_tls_response lib) rs), n + length rs - (if stopped then 1 else 0), s'))"
  using assms
proof (induction requests arbitrary: n s)
  case Nil
  show ?case by (subst serve.simps) (simp add: serve_end ends_def)
next
  case (Cons request requests)
  have f: "frameable request" and fs: "list_all frameable requests" using Cons.prems by simp_all
  show ?case
  proof (cases "answer_line lib request s")
    case Panic
    then show ?thesis by (subst serve.simps) (simp add: serve_one [OF f])
  next
    case (Done x)
    obtain response go_on s1 where x: "x = (response, go_on, s1)" by (cases x)
    show ?thesis
    proof (cases go_on)
      case True
      then show ?thesis
        using Done x Cons.IH [OF fs, of "n + 1" s1]
        by (subst serve.simps) (cases "answers lib requests s1"; auto simp: serve_one [OF f])
    next
      case False
      then show ?thesis
        using Done x by (subst serve.simps) (simp add: serve_one [OF f])
    qed
  qed
qed

text \<open>An instance: the operations are sent bare and the responses are their texts.\<close>

definition demo_server :: ServerLib where
  "demo_server =
     \<lparr>sv_verify = node_lib, sv_operation = Ok, sv_compute_req = (\<lambda>_. Err []), sv_cgroup_req = (\<lambda>_. Err []),
      sv_file_req = (\<lambda>_. Err []), sv_host_req = (\<lambda>_. Err []), sv_read_file = (\<lambda>_ _. Err []),
      sv_response_json = er_message\<rparr>"

lemma server_answers_in_order_witness:
  "serve demo_server (concat (map frame [str ''init_sealed_key'', str ''shutdown'', str ''x''])) 0 demo_state =
     Done (send_tls_response demo_server handle_init_sealed_key
       @ send_tls_response demo_server (respond 0 (str ''Shutting down'')), 1, demo_state)"
proof -
  have u: "utf8_valid (str ''init_sealed_key'')" "utf8_valid (str ''shutdown'')" by code_simp+
  have d: "str ''init_sealed_key'' \<noteq> str ''shutdown''" "str ''init_sealed_key'' \<noteq> str ''verify''"
    "str ''init_sealed_key'' \<noteq> str ''get_nonce''" "str ''init_sealed_key'' \<noteq> str ''compute_vm_energy''"
    "str ''init_sealed_key'' \<noteq> str ''compute_vm_energy_cgroup''" "str ''init_sealed_key'' \<noteq> str ''compute_vm_energy_file''"
    "str ''init_sealed_key'' \<noteq> str ''compute_host_energy''" by code_simp+
  have a: "answer_line demo_server (str ''init_sealed_key'') s = Done (handle_init_sealed_key, True, s)"
    "answer_line demo_server (str ''shutdown'') s = Done (respond 0 (str ''Shutting down''), False, s)" for s
    by (simp_all add: answer_line_def u demo_server_def dispatch_def d)
  have "list_all frameable [str ''init_sealed_key'', str ''shutdown'', str ''x'']"
    by (simp add: frameable_def MAX_REQUEST_BYTES_def str_Cons)
  from server_answers_in_order [OF this, of demo_server 0 demo_state] show ?thesis
    by (simp add: a)
qed

section \<open>The statics each request touches\<close>

text \<open>The energy calls change the chain table only by signing, and never the nonce.\<close>

definition energy_effect :: "HostLib \<Rightarrow> HostState \<Rightarrow> HostState \<Rightarrow> bool" where
  "energy_effect lib s s' \<longleftrightarrow>
     hs_nonce s' = hs_nonce s \<and>
     (hs_vm_chains s' = hs_vm_chains s \<or>
      (\<exists>cs us rs cs'. hs_vm_chains s = Some cs \<and> hs_vm_chains s' = Some cs' \<and>
         sign_updates (hl_hmac lib) (hl_hexenc lib) (hl_master lib) us cs = Done (rs, cs')))"

lemma energy_effect_refl [simp]: "energy_effect lib s s"
  by (simp add: energy_effect_def)

lemma energy_effect_updates [simp]:
  "energy_effect lib (s\<lparr>hs_tag_key := k\<rparr>) s' = energy_effect lib s s'"
  "energy_effect lib s (s'\<lparr>hs_tag_key := k\<rparr>) = energy_effect lib s s'"
  "energy_effect lib (s\<lparr>hs_events := n\<rparr>) s' = energy_effect lib s s'"
  "energy_effect lib s (s'\<lparr>hs_events := n\<rparr>) = energy_effect lib s s'"
  by (simp_all add: energy_effect_def)

lemma finish_cycle_effect:
  "finish_cycle lib updates cap (s\<lparr>hs_prev_cpu := prev\<rparr>) = Done (oc, s') \<Longrightarrow> energy_effect lib s s'"
  by (auto simp: finish_cycle_def sign_cycle_def energy_effect_def and_then_eq_Done split: if_splits option.splits)

lemma simple_effect:
  assumes "ecall_compute_vm_energy_simple lib topo proc hash out len s = Done (oc, s')"
  shows "energy_effect lib s s'"
proof -
  have "finish_cycle lib updates cap s = Done (oc, s') \<Longrightarrow> energy_effect lib s s'" for updates cap
    using finish_cycle_effect [where s = s and prev = "hs_prev_cpu s"] by simp
  then show ?thesis
    using assms by (auto simp: ecall_compute_vm_energy_simple_def split: option.splits if_splits)
qed

lemma cgroup_effect:
  "ecall_compute_vm_energy_cgroup lib topo cgroup hash cap s = Done (oc, s') \<Longrightarrow> energy_effect lib s s'"
  by (auto simp: ecall_compute_vm_energy_cgroup_def Let_def finish_cycle_effect split: option.splits prod.splits)

lemma vm_energy_effect: "handle_compute_vm_energy lib json s = Done (r, s') \<Longrightarrow> energy_effect (sv_host lib) s s'"
  by (auto simp: handle_compute_vm_energy_def set_rapl_tag_key_def Let_def and_then_eq_Done
      split: result.splits option.splits prod.splits dest!: simple_effect)

lemma vm_energy_cgroup_effect:
  "handle_compute_vm_energy_cgroup lib json s = Done (r, s') \<Longrightarrow> energy_effect (sv_host lib) s s'"
  by (auto simp: handle_compute_vm_energy_cgroup_def set_rapl_tag_key_def Let_def and_then_eq_Done
      split: result.splits option.splits prod.splits dest!: cgroup_effect)

lemma vm_energy_file_effect:
  "handle_compute_vm_energy_from_file lib json s = Done (r, s') \<Longrightarrow> energy_effect (sv_host lib) s s'"
  by (auto simp: handle_compute_vm_energy_from_file_def Let_def
      split: result.splits dest!: vm_energy_effect)

lemma get_nonce_effect:
  "handle_get_nonce lib s = (r, s') \<Longrightarrow>
   hs_vm_chains s' = hs_vm_chains s \<and>
   (if er_status r = 0 then hs_nonce s' \<noteq> None else hs_nonce s' = hs_nonce s)"
  by (auto simp: handle_get_nonce_def Let_def respond_def split: result.splits rng_error.splits)

definition operation_of :: "ServerLib \<Rightarrow> bytes \<Rightarrow> bytes option" where
  "operation_of lib request =
     (if \<not> utf8_valid request then None
      else case sv_operation lib request of Ok operation \<Rightarrow> Some operation | Err _ \<Rightarrow> None)"

lemma answer_cases:
  assumes "answer_line lib request s = Done (r, go_on, s')"
  obtains (verify) "operation_of lib request = Some (str ''verify'')"
      "handle_verify (sv_verify lib) request s = Done (r, s')"
  | (nonce) "operation_of lib request = Some (str ''get_nonce'')"
      "handle_get_nonce (sv_verify lib) s = (r, s')"
  | (energy) "energy_effect (sv_host lib) s s'"
      "operation_of lib request \<noteq> Some (str ''verify'')" "operation_of lib request \<noteq> Some (str ''get_nonce'')"
proof -
  have d: "str ''shutdown'' \<noteq> str ''verify''" "str ''shutdown'' \<noteq> str ''get_nonce''"
    "str ''get_nonce'' \<noteq> str ''verify''" by code_simp+
  show thesis
  proof (cases "operation_of lib request = None \<or> operation_of lib request = Some (str ''shutdown'')")
    case True
    then have "s' = s" using assms
      by (auto simp: answer_line_def operation_of_def split: if_splits result.splits)
    then show thesis using True d energy by auto
  next
    case False
    then obtain operation where o: "operation_of lib request = Some operation" "operation \<noteq> str ''shutdown''"
      by auto
    then have p: "dispatch lib operation request s = Done (r, s')"
      using assms by (auto simp: answer_line_def operation_of_def and_then_eq_Done split: if_splits result.splits)
    show thesis
    proof (cases "operation = str ''verify'' \<or> operation = str ''get_nonce''")
      case True
      then show thesis using p o d verify nonce by (auto simp: dispatch_def)
    next
      case False
      have "energy_effect (sv_host lib) s s'"
        using p False
        by (auto simp: dispatch_def and_then_eq_Done split: if_splits
            dest: vm_energy_effect vm_energy_cgroup_effect vm_energy_file_effect)
      then show thesis using False o energy by auto
    qed
  qed
qed

section \<open>A nonce authorises one verification\<close>

record Event =
  ev_request :: bytes
  ev_before :: HostState
  ev_response :: EnclaveResponse

fun trace :: "ServerLib \<Rightarrow> bytes list \<Rightarrow> HostState \<Rightarrow> Event list" where
  "trace lib [] s = []"
| "trace lib (request # requests) s =
     (case answer_line lib request s of
        Panic \<Rightarrow> []
      | Done (r, go_on, s') \<Rightarrow>
          \<lparr>ev_request = request, ev_before = s, ev_response = r\<rparr> # trace lib requests s')"

definition nonce_issued :: "ServerLib \<Rightarrow> Event \<Rightarrow> bool" where
  "nonce_issued lib e \<longleftrightarrow>
     operation_of lib (ev_request e) = Some (str ''get_nonce'') \<and> er_status (ev_response e) = 0"

definition quote_verified :: "ServerLib \<Rightarrow> Event \<Rightarrow> bool" where
  "quote_verified lib e \<longleftrightarrow>
     operation_of lib (ev_request e) = Some (str ''verify'') \<and> er_status (ev_response e) = 0 \<and>
     (\<exists>request. vl_verify_req (sv_verify lib) (ev_request e) = Ok request \<and>
        ak_registered (sv_verify lib) request (ev_before e))"

definition pending :: "HostState \<Rightarrow> nat" where
  "pending s = (if hs_nonce s = None then 0 else 1)"

lemma verified_consumes:
  assumes "handle_verify lib json s = Done (r, s')" "er_status r = 0"
    and "vl_verify_req lib json = Ok request" "ak_registered lib request s"
  shows "hs_nonce s \<noteq> None \<and> hs_nonce s' = None"
  using handle_verify_zero [OF assms(1,2)] assms(3,4)
  by (auto simp: authenticated_def ak_registered_def)

lemma event_nonce:
  assumes "answer_line lib request s = Done (r, go_on, s')"
  defines "e \<equiv> \<lparr>ev_request = request, ev_before = s, ev_response = r\<rparr>"
  shows "(if quote_verified lib e then 1 else 0) + pending s' \<le> (if nonce_issued lib e then 1 else 0) + pending s"
  using assms(1)
proof (cases rule: answer_cases)
  case verify
  then show ?thesis
    using handle_verify_effect [OF verify(2)] verified_consumes [OF verify(2)]
    by (cases "hs_nonce s") (auto simp: quote_verified_def nonce_issued_def pending_def taken_def e_def)
next
  case nonce
  have "str ''get_nonce'' \<noteq> str ''verify''" by code_simp
  then show ?thesis
    using nonce get_nonce_effect [OF nonce(2)]
    by (auto simp: quote_verified_def nonce_issued_def pending_def e_def)
next
  case energy
  then show ?thesis by (auto simp: quote_verified_def pending_def energy_effect_def e_def)
qed

lemma trace_nonces:
  "length (filter (quote_verified lib) (trace lib requests s)) \<le>
   length (filter (nonce_issued lib) (trace lib requests s)) + pending s"
proof (induction requests arbitrary: s)
  case (Cons request requests)
  show ?case
  proof (cases "answer_line lib request s")
    case (Done x)
    obtain r go_on s' where x: "x = (r, go_on, s')" by (cases x)
    show ?thesis
      using event_nonce [of lib request s r go_on s'] Cons.IH [of s'] Done x by (simp split: if_splits)
  qed simp
qed simp

text \<open>C4: Every nonce authorises at most one verification. In every run of requests from the start of the enclave,
  in any order and with any other requests between them, the verifications that end with status 0 for a
  node with a registered attestation key are at most as many as the nonces the enclave issued; a quote
  cannot be verified again, whatever the client resends.\<close>
theorem nonce_single_use:
  "length (filter (quote_verified lib) (trace lib requests enclave_start)) \<le>
   length (filter (nonce_issued lib) (trace lib requests enclave_start))"
  using trace_nonces [of lib requests enclave_start] by (simp add: pending_def enclave_start_def)

section \<open>The signed chains only grow\<close>

definition host_step :: "ServerLib \<Rightarrow> HostState \<Rightarrow> bytes \<Rightarrow> HostState" where
  "host_step lib s request =
     (case answer_line lib request s of Panic \<Rightarrow> s | Done (r, go_on, s') \<Rightarrow> s')"

definition chains_ok :: "ServerLib \<Rightarrow> HostState \<Rightarrow> bool" where
  "chains_ok lib s \<longleftrightarrow>
     (\<exists>cs. hs_vm_chains s = Some cs \<and>
        (\<forall>vm c. cs vm = Some c \<longrightarrow>
           hc_hmac_key c = derive_vm_key (hl_hmac (sv_host lib)) (hl_master (sv_host lib) (str ''chain'')) vm \<and>
           0 < hc_counter c))"

text \<open>One chain continues another: it has the same key, a counter and an energy that are not smaller, and it is
  the same chain when its counter is the same.\<close>

definition continues :: "HostChain \<Rightarrow> HostChain \<Rightarrow> bool" where
  "continues c c' \<longleftrightarrow>
     hc_hmac_key c' = hc_hmac_key c \<and> hc_counter c \<le> hc_counter c' \<and>
     hc_cumulative_energy_uj c \<le> hc_cumulative_energy_uj c' \<and> (hc_counter c = hc_counter c' \<longrightarrow> c' = c)"

definition grown :: "HostState \<Rightarrow> HostState \<Rightarrow> bool" where
  "grown s s' \<longleftrightarrow>
     (\<forall>cs vm c. hs_vm_chains s = Some cs \<longrightarrow> cs vm = Some c \<longrightarrow>
        (\<exists>cs' c'. hs_vm_chains s' = Some cs' \<and> cs' vm = Some c' \<and> continues c c'))"

lemma continues_refl [simp]: "continues c c"
  by (simp add: continues_def)

lemma continues_trans: "continues a b \<Longrightarrow> continues b c \<Longrightarrow> continues a c"
  by (auto simp: continues_def)

lemma sign_update_grows:
  assumes "sign_update h x m u cs = Done (r, cs')"
  shows "(cs vm = Some c \<longrightarrow> (\<exists>c'. cs' vm = Some c' \<and> continues c c')) \<and>
    (cs' vm = Some c' \<longrightarrow> cs vm = Some c' \<or>
       hc_hmac_key c' = (case cs vm of Some c \<Rightarrow> hc_hmac_key c | None \<Rightarrow> derive_vm_key h (m (str ''chain'')) vm) \<and>
       0 < hc_counter c')"
proof -
  let ?h = "host_chain_entry h m cs (vu_vm_name u)"
  have add: "unat (hc_counter ?h) + 1 < 2 ^ 64"
    using assms by (auto simp: sign_update_def Let_def checked_add_def split: if_splits)
  then have c: "unat (hc_counter ?h + 1) = unat (hc_counter ?h) + 1" by (simp add: unat_word_ariths)
  have less: "hc_counter ?h < hc_counter ?h + 1" "0 < hc_counter ?h + 1"
    using c by (simp_all add: u64_less_iff)
  have e: "e \<le> saturating_add e d" for e d
    using unat_u64_less [of e] by (simp add: u64_le_iff unat_saturating_add)
  show ?thesis
    using assms add less e
    by (auto simp: sign_update_def Let_def checked_add_def continues_def host_chain_entry_def
        split: if_splits option.splits)
qed

lemma sign_updates_grow:
  assumes "sign_updates h x m us cs = Done (rs, cs')"
  shows "cs vm = Some c \<Longrightarrow> \<exists>c'. cs' vm = Some c' \<and> continues c c'"
  using assms
proof (induction us arbitrary: cs rs c)
  case (Cons u us)
  then obtain r cs1 rs1 where 1: "sign_update h x m u cs = Done (r, cs1)"
    and 2: "sign_updates h x m us cs1 = Done (rs1, cs')"
    by (auto simp: and_then_eq_Done)
  obtain c1 where c1: "cs1 vm = Some c1" "continues c c1"
    using sign_update_grows [OF 1] Cons.prems(1) by blast
  from Cons.IH [OF c1(1) 2] c1(2) show ?case using continues_trans by blast
qed auto

lemma sign_updates_keys:
  assumes "sign_updates h x m us cs = Done (rs, cs')"
    and "\<And>vm c. cs vm = Some c \<Longrightarrow> hc_hmac_key c = derive_vm_key h (m (str ''chain'')) vm \<and> 0 < hc_counter c"
  shows "cs' vm = Some c \<Longrightarrow> hc_hmac_key c = derive_vm_key h (m (str ''chain'')) vm \<and> 0 < hc_counter c"
  using assms
proof (induction us arbitrary: cs rs)
  case (Cons u us)
  then obtain r cs1 rs1 where 1: "sign_update h x m u cs = Done (r, cs1)"
    and 2: "sign_updates h x m us cs1 = Done (rs1, cs')"
    by (auto simp: and_then_eq_Done)
  have "cs1 v = Some d \<Longrightarrow> hc_hmac_key d = derive_vm_key h (m (str ''chain'')) v \<and> 0 < hc_counter d" for v d
    using sign_update_grows [OF 1, of v _ d] Cons.prems(3) [of v] by (cases "cs v") auto
  then show ?case using Cons.IH [OF Cons.prems(1) 2] by blast
qed auto

lemma host_step_effect:
  "energy_effect (sv_host lib) s (host_step lib s request) \<or>
   hs_vm_chains (host_step lib s request) = hs_vm_chains s"
proof (cases "answer_line lib request s")
  case (Done x)
  obtain r go_on s' where x: "x = (r, go_on, s')" by (cases x)
  from Done have a: "answer_line lib request s = Done (r, go_on, s')" by (simp add: x)
  then have h: "host_step lib s request = s'" by (simp add: host_step_def)
  from a show ?thesis
    unfolding h by (cases rule: answer_cases) (auto simp: taken_def dest: handle_verify_effect get_nonce_effect)
qed (simp add: host_step_def)

lemma energy_ok:
  assumes "energy_effect (sv_host lib) s s'" "chains_ok lib s"
  shows "chains_ok lib s'"
  using assms(1) unfolding energy_effect_def
proof (elim conjE disjE exE)
  fix cs us rs cs'
  assume c: "hs_vm_chains s = Some cs" "hs_vm_chains s' = Some cs'"
    and u: "sign_updates (hl_hmac (sv_host lib)) (hl_hexenc (sv_host lib)) (hl_master (sv_host lib)) us cs = Done (rs, cs')"
  have "cs vm = Some c \<Longrightarrow> hc_hmac_key c =
      derive_vm_key (hl_hmac (sv_host lib)) (hl_master (sv_host lib) (str ''chain'')) vm \<and> 0 < hc_counter c" for vm c
    using assms(2) c(1) by (simp add: chains_ok_def)
  from sign_updates_keys [OF u this] show ?thesis using c(2) by (simp add: chains_ok_def)
qed (use assms(2) in \<open>simp add: chains_ok_def\<close>)

lemma energy_grown:
  assumes "energy_effect (sv_host lib) s s'"
  shows "grown s s'"
  using assms unfolding energy_effect_def
proof (elim conjE disjE exE)
  fix cs us rs cs'
  assume c: "hs_vm_chains s = Some cs" "hs_vm_chains s' = Some cs'"
    and u: "sign_updates (hl_hmac (sv_host lib)) (hl_hexenc (sv_host lib)) (hl_master (sv_host lib)) us cs = Done (rs, cs')"
  then show ?thesis using sign_updates_grow [OF u] by (simp add: grown_def)
qed (simp add: grown_def)

lemma host_step_ok: "chains_ok lib s \<Longrightarrow> chains_ok lib (host_step lib s request)"
  using host_step_effect [of lib s request] energy_ok by (auto simp: chains_ok_def)

lemma host_step_grown: "grown s (host_step lib s request)"
  using host_step_effect [of lib s request] energy_grown by (auto simp: grown_def)

lemma grown_trans: "grown s t \<Longrightarrow> grown t u \<Longrightarrow> grown s u"
  unfolding grown_def using continues_trans by meson

lemma grown_refl: "grown s s"
  by (simp add: grown_def)

interpretation server: stepper "host_step lib" "chains_ok lib" for lib
  by unfold_locales (rule host_step_ok)

lemma start_ok: "chains_ok lib enclave_start"
  by (simp add: chains_ok_def enclave_start_def ecall_initialize_sealed_key_def)

text \<open>C5: No request can roll a signed chain back. After any run of requests, whatever their operations, inputs and
  order, the chain table exists and every chain in it has the key derived from the enclave's own key and
  the machine's name and has signed something; and any further requests only continue the chains: keys
  stay, counters and accumulated energies never decrease, and a chain that has not signed is unchanged.\<close>
theorem chains_never_roll_back:
  "chains_ok lib (foldl (host_step lib) enclave_start requests) \<and>
   grown (foldl (host_step lib) enclave_start requests)
     (foldl (host_step lib) (foldl (host_step lib) enclave_start requests) later)"
proof
  let ?s = "foldl (host_step lib) enclave_start requests"
  show ok: "chains_ok lib ?s" by (rule server.inv_run [OF start_ok])
  show "grown ?s (foldl (host_step lib) ?s later)"
    by (rule server.rel_run [where r = grown, OF host_step_grown grown_refl _ ok]) (rule grown_trans)
qed

end
