(* ===== verification/GuestServer.thy ===== *)
theory GuestServer
  imports GuestGpu HostServer
begin

text \<open>
  The guest enclave's server (\<open>src/sgx_vm/src/main.rs\<close>, with the ImmuDB calls of \<open>src/sgx_vm/src/lib.rs\<close>):
  the remaining request handlers, their dispatch, the framing in the TLS and the plain build, and the loop
  over a connection. A connection is the bytes the peer sends before it closes; what the server sends is
  returned. The quote check and the nonce are those of the build with \<open>use_mbedtls\<close>.
\<close>

section \<open>Requests and parameters\<close>

record VerifyBootReq =
  bq_pcr_values :: bytes
  bq_ima_log :: bytes
  bq_hostname :: bytes
  bq_deployment_type :: bytes
  bq_immudb_addr :: bytes
  bq_ca_pem :: bytes
  bq_quote_attest :: bytes
  bq_quote_signature :: bytes

record VerifyChainReq =
  wq_vm_name :: bytes
  wq_energy_value :: u64
  wq_energy_delta :: u64
  wq_counter :: u64
  wq_previous_hash :: bytes
  wq_signature :: bytes

record InsertReq =
  iq_session_id :: bytes
  iq_body :: bytes

text \<open>Where an HTTPS exchange with ImmuDB fails.\<close>

datatype https_error = NoTcp | NoTls | NoWrite | NoRead

text \<open>
  serde's parsers of the requests and printer of the responses, the random generator, the signature check,
  and the \<open>n\<close>-th HTTPS exchange (address and request; the answer up to the end of the connection).
\<close>

record 'c GuestServerLib =
  sl_lib :: "'c GuestLib"
  sl_operation :: "bytes \<Rightarrow> (bytes, bytes) result"
  sl_boot_req :: "bytes \<Rightarrow> (bytes, VerifyBootReq) result"
  sl_chain_req :: "bytes \<Rightarrow> (bytes, VerifyChainReq) result"
  sl_insert_req :: "bytes \<Rightarrow> (bytes, InsertReq) result"
  sl_rng :: "nat \<Rightarrow> (rng_error, bytes) result"
  sl_pk_verify :: "bytes \<Rightarrow> bytes \<Rightarrow> bytes \<Rightarrow> (pk_error, unit) result"
  sl_https :: "nat \<Rightarrow> bytes \<Rightarrow> bytes \<Rightarrow> (https_error, bytes) result"
  sl_response_json :: "GuestResponse \<Rightarrow> bytes"

section \<open>The nonce and the quote\<close>

definition guest_get_nonce :: "'c GuestServerLib \<Rightarrow> GuestState \<Rightarrow> GuestResponse \<times> GuestState" where
  "guest_get_nonce lib g =
     (let g1 = g\<lparr>gs_events := gs_events g + 1\<rparr>
      in case sl_rng lib (gs_events g) of
           Err (NoRng e) \<Rightarrow> (answer (-120) (str ''no RNG available inside the enclave: '' @ e), g1)
         | Err (RngFailed e) \<Rightarrow> (answer (-120) (str ''RNG failed while issuing a nonce: '' @ e), g1)
         | Ok nonce \<Rightarrow>
             (\<lparr>gr_status = 0, gr_message = str ''nonce issued'',
               gr_output = Some (gl_hexenc (sl_lib lib) nonce)\<rparr>, g1\<lparr>gs_nonce := Some nonce\<rparr>))"

definition guest_verify_rsa :: "'c GuestServerLib \<Rightarrow> bytes \<Rightarrow> bytes \<Rightarrow> bytes \<Rightarrow> (bytes, unit) result" where
  "guest_verify_rsa lib ak_pem message signature =
     (case armour (trim ak_pem) of
        None \<Rightarrow> Err (str ''AK key is not ASCII'')
      | Some pem \<Rightarrow>
          (case sl_pk_verify lib (pem @ [0]) (gl_sha (sl_lib lib) message) signature of
             Err (KeyNotLoadable e) \<Rightarrow> Err (str ''AK public key not loadable: '' @ e)
           | Err (SignatureInvalid e) \<Rightarrow> Err (str ''quote signature INVALID: '' @ e)
           | Ok _ \<Rightarrow> Ok ()))"

definition guest_verify_tpm_quote ::
  "'c GuestServerLib \<Rightarrow> bytes \<Rightarrow> bytes \<Rightarrow> bytes \<Rightarrow> bytes \<Rightarrow> bytes \<Rightarrow> (bytes, unit) result exec" where
  "guest_verify_tpm_quote lib attest signature pcr_values expected_nonce ak_pem =
     and_then (guest_verify_quote_structure (gl_sha (sl_lib lib)) attest signature pcr_values expected_nonce)
       (\<lambda>r. Done (case r of
              Err e \<Rightarrow> Err (quote_error_text e)
            | Ok rsa_sig \<Rightarrow> guest_verify_rsa lib ak_pem attest rsa_sig))"

section \<open>The boot of the guest\<close>

text \<open>A query in ImmuDB with the enclave's own CA certificate.\<close>

definition guest_lookup ::
  "'c GuestServerLib \<Rightarrow> bytes \<Rightarrow> bytes \<Rightarrow> bytes \<Rightarrow> bytes \<Rightarrow> GuestState \<Rightarrow> (int, registered) result \<times> GuestState" where
  "guest_lookup lib key hostname deployment_type address g =
     (let (reply, n) = fetch_expected_hash_from_immudb (gl_cert_ok (sl_lib lib)) (gl_dial (sl_lib lib))
            (gs_events g) key hostname deployment_type address (gl_immudb_ca (sl_lib lib))
      in (reply, g\<lparr>gs_events := n\<rparr>))"

definition hex_or_empty :: "'c GuestServerLib \<Rightarrow> bytes \<Rightarrow> bytes" where
  "hex_or_empty lib text = (case gl_hexdec (sl_lib lib) (trim text) of Ok bs \<Rightarrow> bs | Err _ \<Rightarrow> [])"

text \<open>The quote under the registered key: a refusal, or nothing.\<close>

definition guest_check_quote ::
  "'c GuestServerLib \<Rightarrow> VerifyBootReq \<Rightarrow> bytes \<Rightarrow> bytes \<Rightarrow> GuestState \<Rightarrow> (GuestResponse option \<times> GuestState) exec" where
  "guest_check_quote lib request pcr_values ak_pem g =
     (let attest = hex_or_empty lib (bq_quote_attest request);
          sig = hex_or_empty lib (bq_quote_signature request)
      in if attest = [] \<or> sig = [] then
           Done (Some (answer (-122) (str ''an AK is registered for this node, so PCR values must be accompanied by a TPM2_Quote. None was supplied.'')), g)
         else
           (case gs_nonce g of
              None \<Rightarrow>
                Done (Some (answer (-121) (str ''AK registered, so a fresh quote is required, but this enclave has no outstanding nonce. Request get_nonce, then verify_boot.'')), g)
            | Some nonce \<Rightarrow>
                (let g = g\<lparr>gs_nonce := None\<rparr>
                 in and_then (guest_verify_tpm_quote lib attest sig pcr_values nonce ak_pem) (\<lambda>r.
                      case r of
                        Ok _ \<Rightarrow> Done (None, g)
                      | Err e \<Rightarrow> Done (Some (answer (-123) (str ''TPM2_Quote verification failed: '' @ e)), g)))))"

definition guest_authenticate ::
  "'c GuestServerLib \<Rightarrow> VerifyBootReq \<Rightarrow> bytes \<Rightarrow> GuestState \<Rightarrow> (GuestResponse option \<times> GuestState) exec" where
  "guest_authenticate lib request pcr_values g =
     (case guest_lookup lib (str ''ak_pub'') (bq_hostname request) (bq_deployment_type request)
             (bq_immudb_addr request) g of
        (Ok (ak_pem, _), g) \<Rightarrow>
          (if ak_pem \<noteq> [] then guest_check_quote lib request pcr_values ak_pem g else Done (None, g))
      | (Err code, g) \<Rightarrow>
          (if code = -8 then Done (None, g)
           else Done (Some (answer (-124) (str ''could not determine whether an AK is registered for this node (ImmuDB lookup failed with '' @ dec_int code @ str ''). Refusing: treating an unreachable registry as '' @ single_quoted (str ''unregistered'') @ str '' would let a node downgrade itself.'')), g)))"

text \<open>The host the guest runs on: a refusal when one is registered and not attested, or not known to be.\<close>

definition not_attested_text :: "bytes \<Rightarrow> bytes" where
  "not_attested_text parent =
     str ''this guest'' @ [39] @ str ''s host '' @ single_quoted (trim parent)
     @ str '' has no attestation on record. The guest'' @ [39]
     @ str ''s vTPM, its attestation key and its PCR values are all produced by software on that host, so attesting the guest first would be meaningless.''"

definition check_parent_host ::
  "'c GuestServerLib \<Rightarrow> VerifyBootReq \<Rightarrow> GuestState \<Rightarrow> GuestResponse option \<times> GuestState" where
  "check_parent_host lib request g =
     (case guest_lookup lib (str ''parent_host'') (bq_hostname request) (bq_deployment_type request)
             (bq_immudb_addr request) g of
        (Ok (parent, _), g) \<Rightarrow>
          (if parent \<noteq> [] then
             (case guest_lookup lib (str ''host_attested'') (trim parent) (str ''host'')
                     (bq_immudb_addr request) g of
                (Ok (state, _), g) \<Rightarrow>
                  (if state \<noteq> [] then (None, g) else (Some (answer (-125) (not_attested_text parent)), g))
              | (Err code, g) \<Rightarrow>
                  (if code = -8 then (Some (answer (-125) (not_attested_text parent)), g)
                   else (Some (answer (-126) (str ''could not determine whether host '' @ single_quoted (trim parent)
                           @ str '' was attested (lookup failed with '' @ dec_int code
                           @ str ''). Refusing rather than assuming it was.'')), g)))
           else (None, g))
      | (Err _, g) \<Rightarrow> (None, g))"

definition boot_answer :: "int \<Rightarrow> GuestResponse" where
  "boot_answer result = answer result
     (if result = 0 then str ''Boot integrity verified - binary hash and PCRs match''
      else if result = -6 then str ''HASH MISMATCH - Binary has been tampered!''
      else if result = -7 then str ''PCR0 MISMATCH - Boot process tampered!''
      else if result = -8 then str ''PCR7 MISMATCH - Secure Boot tampered!''
      else if result = -9 then str ''IMA log does not reconcile with PCR10 - the log is edited, truncated, from a different boot, or PCR10 was sampled AFTER the log was read''
      else if result = -4 then str ''Scaphandre binary not found in the TPM-attested portion of the IMA log''
      else if result = -5 then str ''ImmuDB connection failed''
      else str ''Boot verification failed with code '' @ dec_int result)"

text \<open>
  The call of \<open>ecall_verify_binary_hash\<close>, with the CA certificate of the request. It makes at most two
  connections for the collector and two for each line of the log; the numbers it does not use are skipped.
\<close>

definition verify_binary ::
  "'c GuestServerLib \<Rightarrow> VerifyBootReq \<Rightarrow> bytes \<Rightarrow> GuestState \<Rightarrow> int \<times> GuestState" where
  "verify_binary lib request pcr_values g =
     (guest_verify_binary_hash (gl_sha (sl_lib lib))
        (\<lambda>t. case gl_hexdec (sl_lib lib) t of Ok bs \<Rightarrow> Some bs | Err _ \<Rightarrow> None) (gl_cert_ok (sl_lib lib))
        (\<lambda>n. gl_dial (sl_lib lib) (gs_events g + n)) (Some pcr_values) (Some (bq_ima_log request))
        (Some (bq_hostname request)) (Some (bq_deployment_type request)) (Some (bq_immudb_addr request))
        (Some (bq_ca_pem request)),
      g\<lparr>gs_events := gs_events g + 2 + 2 * length (lines (bq_ima_log request))\<rparr>)"

definition handle_verify_boot ::
  "'c GuestServerLib \<Rightarrow> bytes \<Rightarrow> GuestState \<Rightarrow> (GuestResponse \<times> GuestState) exec" where
  "handle_verify_boot lib json g =
     (case sl_boot_req lib json of
        Err e \<Rightarrow> Done (answer (-101) (str ''Failed to parse verify_boot request: '' @ e), g)
      | Ok request \<Rightarrow>
          (case gl_hexdec (sl_lib lib) (bq_pcr_values request) of
             Err e \<Rightarrow> Done (answer (-102) (str ''Invalid PCR hex: '' @ e), g)
           | Ok pcr_values \<Rightarrow>
               (if length pcr_values \<noteq> 96 then
                  Done (answer (-102) (str ''Invalid PCR values length: '' @ dec (length pcr_values)
                          @ str '' (expected 96 bytes)''), g)
                else
                  and_then (guest_authenticate lib request pcr_values g) (\<lambda>(refusal, g).
                    case refusal of
                      Some r \<Rightarrow> Done (r, g)
                    | None \<Rightarrow>
                        (case check_parent_host lib request g of
                           (Some r, g) \<Rightarrow> Done (r, g)
                         | (None, g) \<Rightarrow>
                             (let (result, g) = verify_binary lib request pcr_values g
                              in Done (boot_answer result, g)))))))"

section \<open>The chain request, and the refused one\<close>

definition chain_answer :: "u64 \<Rightarrow> int \<Rightarrow> GuestResponse" where
  "chain_answer counter result = answer result
     (if result = 0 then str ''Chain verified successfully (counter='' @ dec_u64 counter @ str '')''
      else if result = 1 then str ''Chain initialized (first verification)''
      else if result = 2 then str ''Skipped (same counter, host not updated)''
      else if result = -2 then str ''TAMPERING DETECTED - signature mismatch!''
      else if result = -3 then str ''REPLAY/ROLLBACK ATTACK - counter discontinuity!''
      else if result = -4 then str ''FORK ATTACK - previous hash mismatch!''
      else str ''Chain verification failed with code '' @ dec_int result)"

definition handle_verify_chain ::
  "'c GuestServerLib \<Rightarrow> bytes \<Rightarrow> GuestState \<Rightarrow> GuestResponse \<times> GuestState" where
  "handle_verify_chain lib json g =
     (case sl_chain_req lib json of
        Err e \<Rightarrow> (answer (-101) (str ''Failed to parse verify_chain request: '' @ e), g)
      | Ok request \<Rightarrow>
          (case decode_32 (sl_lib lib) (wq_previous_hash request) of
             None \<Rightarrow> (answer (-102) (str ''Invalid previous_hash (must be 64 hex chars)''), g)
           | Some previous_hash \<Rightarrow>
               (case decode_32 (sl_lib lib) (wq_signature request) of
                  None \<Rightarrow> (answer (-103) (str ''Invalid signature (must be 64 hex chars)''), g)
                | Some signature \<Rightarrow>
                    (let (result, chains) =
                           ecall_verify_energy_chain (gl_hmac (sl_lib lib)) (gl_hexenc (sl_lib lib))
                             (gl_master (sl_lib lib)) (Some (wq_vm_name request)) (wq_energy_value request)
                             (wq_energy_delta request) (wq_counter request) (Some previous_hash)
                             (Some signature) (gs_chains g)
                     in (chain_answer (wq_counter request) result, g\<lparr>gs_chains := chains\<rparr>)))))"

definition handle_compute_process_energy :: GuestResponse where
  "handle_compute_process_energy = answer (-107)
     (str ''compute_process_energy is REFUSED: per-process attribution cannot conserve energy one process at a time. Use db_export, which splits the delta across all processes with the verified attribute_by_weight.'')"

section \<open>ImmuDB\<close>

definition immudb_addr :: bytes where
  "immudb_addr = str ''127.0.0.1:8443''"

text \<open>
  One exchange: the certificate, the connection, and a response that must be a text; \<open>code\<close> gives the error
  numbers of the caller. The response is cut to the caller's buffer.
\<close>

definition https_exchange ::
  "'c GuestServerLib \<Rightarrow> int \<Rightarrow> (https_error \<Rightarrow> int) \<Rightarrow> nat \<Rightarrow> bytes \<Rightarrow> GuestState \<Rightarrow> (int, bytes) result \<times> GuestState" where
  "https_exchange lib no_cert code cap request g =
     (if \<not> gl_cert_ok (sl_lib lib) (gl_immudb_ca (sl_lib lib) @ [0]) then (Err no_cert, g)
      else
        (let g1 = g\<lparr>gs_events := gs_events g + 1\<rparr>
         in case sl_https lib (gs_events g) immudb_addr request of
              Err e \<Rightarrow> (Err (code e), g1)
            | Ok response \<Rightarrow>
                (if utf8_valid response then (Ok (take cap response), g1) else (Err (code NoRead), g1))))"

fun login_code :: "https_error \<Rightarrow> int" where
  "login_code NoTcp = -4" | "login_code NoTls = -6" | "login_code NoWrite = -7" | "login_code NoRead = -8"

fun insert_code :: "https_error \<Rightarrow> int" where
  "insert_code NoTcp = -6" | "insert_code NoTls = -8" | "insert_code NoWrite = -9" | "insert_code NoRead = -10"

definition immudb_login_request :: bytes where
  "immudb_login_request =
     str ''POST /api/v2/authorization/session/open HTTP/1.1'' @ crlf
     @ str ''Host: localhost'' @ crlf @ str ''Content-Type: application/json'' @ crlf
     @ str ''Content-Length: '' @ dec (length login_body) @ crlf
     @ str ''Connection: close'' @ crlf @ crlf @ login_body"

definition ecall_immudb_login ::
  "'c GuestServerLib \<Rightarrow> nat \<Rightarrow> GuestState \<Rightarrow> (int, bytes) result \<times> GuestState" where
  "ecall_immudb_login lib response_cap g =
     https_exchange lib (-2) login_code response_cap immudb_login_request g"

definition immudb_insert_request :: "bytes \<Rightarrow> bytes \<Rightarrow> bytes" where
  "immudb_insert_request session_id body =
     str ''POST /api/v2/collection/cpulog_v3/documents HTTP/1.1'' @ crlf
     @ str ''Host: localhost'' @ crlf @ str ''Content-Type: application/json'' @ crlf
     @ str ''Grpc-Metadata-SessionID: '' @ trim session_id @ crlf
     @ str ''Content-Length: '' @ dec (length body) @ crlf
     @ str ''Connection: close'' @ crlf @ crlf @ body"

definition ecall_immudb_insert ::
  "'c GuestServerLib \<Rightarrow> bytes \<Rightarrow> bytes \<Rightarrow> nat \<Rightarrow> GuestState \<Rightarrow> (int, bytes) result \<times> GuestState" where
  "ecall_immudb_insert lib session_id body response_cap g =
     (if \<not> utf8_valid session_id then (Err (-2), g)
      else if \<not> utf8_valid body then (Err (-3), g)
      else https_exchange lib (-4) insert_code response_cap (immudb_insert_request session_id body) g)"

text \<open>Logging the first 16 bytes of the session panics inside a character.\<close>

definition log_session :: "bytes \<Rightarrow> unit exec" where
  "log_session session_id =
     (if 16 < length session_id \<and> is_cont (session_id ! 16) then Panic else Done ())"

definition handle_immudb_login ::
  "'c GuestServerLib \<Rightarrow> GuestState \<Rightarrow> (GuestResponse \<times> GuestState) exec" where
  "handle_immudb_login lib g =
     (case ecall_immudb_login lib 8192 g of
        (Err code, g) \<Rightarrow> Done (answer code (str ''ImmuDB login failed: '' @ dec_int code), g)
      | (Ok response, g) \<Rightarrow>
          (let response_str = utf8_lossy response
           in case scrape (quoted_key ''sessionID'') response_str of
                None \<Rightarrow>
                  Done (\<lparr>gr_status = -10, gr_message = str ''Failed to extract session ID'',
                         gr_output = Some response_str\<rparr>, g)
              | Some session_id \<Rightarrow>
                  and_then (log_session session_id) (\<lambda>_.
                    Done (\<lparr>gr_status = 0, gr_message = str ''Login successful'',
                           gr_output = Some session_id\<rparr>, g))))"

definition handle_immudb_insert ::
  "'c GuestServerLib \<Rightarrow> bytes \<Rightarrow> GuestState \<Rightarrow> GuestResponse \<times> GuestState" where
  "handle_immudb_insert lib json g =
     (case sl_insert_req lib json of
        Err e \<Rightarrow> (answer (-101) (str ''Failed to parse insert request: '' @ e), g)
      | Ok request \<Rightarrow>
          (case ecall_immudb_insert lib (iq_session_id request) (iq_body request) 4096 g of
             (Err code, g) \<Rightarrow> (answer code (str ''ImmuDB insert failed: '' @ dec_int code), g)
           | (Ok response, g) \<Rightarrow>
               (\<lparr>gr_status = 0, gr_message = str ''Insert successful'', gr_output = Some (utf8_lossy response)\<rparr>, g)))"

text \<open>The energy of one process, in floating point; nothing calls it any more.\<close>

definition ecall_compute_single_process_energy :: "u64 \<Rightarrow> f64 \<Rightarrow> bool \<Rightarrow> int \<times> u64 option" where
  "ecall_compute_single_process_energy vm_total_energy_uj cpu_percentage out =
     (if \<not> out then (-1, None)
      else if f_less cpu_percentage (Finite 0) \<or> f_less (Finite 100) cpu_percentage then (-2, None)
      else (0, Some (f64_as_u64 (f_mul (u64_as_f64 vm_total_energy_uj) (f_div cpu_percentage (Finite 100))))))"

section \<open>Dispatch\<close>

definition guest_dispatch ::
  "'c GuestServerLib \<Rightarrow> bytes \<Rightarrow> bytes \<Rightarrow> GuestState \<Rightarrow> 'c \<Rightarrow> (GuestResponse \<times> GuestState \<times> 'c) outcome" where
  "guest_dispatch lib operation line g c =
     (if operation = str ''get_nonce'' then (let (r, g) = guest_get_nonce lib g in oret (r, g, c))
      else if operation = str ''verify_boot'' then
        obind (Some (handle_verify_boot lib line g)) (\<lambda>(r, g). oret (r, g, c))
      else if operation = str ''verify_chain'' then (let (r, g) = handle_verify_chain lib line g in oret (r, g, c))
      else if operation = str ''compute_process_energy'' then oret (handle_compute_process_energy, g, c)
      else if operation = str ''db_export'' then handle_db_export (sl_lib lib) line g c
      else if operation = str ''gpu_db_export'' then handle_gpu_db_export (sl_lib lib) line g c
      else if operation = str ''immudb_login'' then
        obind (Some (handle_immudb_login lib g)) (\<lambda>(r, g). oret (r, g, c))
      else if operation = str ''immudb_insert'' then (let (r, g) = handle_immudb_insert lib line g in oret (r, g, c))
      else oret (answer (-1000) (str ''Unknown operation: '' @ operation), g, c))"

text \<open>The answer to one request text, and whether the server goes on.\<close>

definition guest_answer_line ::
  "'c GuestServerLib \<Rightarrow> bytes \<Rightarrow> GuestState \<Rightarrow> 'c \<Rightarrow> (GuestResponse \<times> bool \<times> GuestState \<times> 'c) outcome" where
  "guest_answer_line lib request_data g c =
     (if \<not> utf8_valid request_data then oret (answer (-50) (str ''Invalid UTF-8 in request''), True, g, c)
      else
        (case sl_operation lib request_data of
           Err e \<Rightarrow> oret (answer (-100) (str ''Failed to parse request: '' @ e), True, g, c)
         | Ok operation \<Rightarrow>
             (if operation = str ''shutdown'' then oret (answer 0 (str ''Shutting down''), False, g, c)
              else obind (guest_dispatch lib operation request_data g c) (\<lambda>(r, g, c). oret (r, True, g, c)))))"

section \<open>Frames\<close>

definition guest_send_response :: "'c GuestServerLib \<Rightarrow> GuestResponse \<Rightarrow> bytes" where
  "guest_send_response lib response =
     (let response_bytes = sl_response_json lib response
      in be32_bytes (length response_bytes) @ response_bytes)"

record 'c GuestTurn =
  gt_verdict :: verdict
  gt_rest :: bytes
  gt_sent :: bytes
  gt_state :: GuestState
  gt_world :: 'c

definition guest_ends :: "verdict \<Rightarrow> bytes \<Rightarrow> GuestState \<Rightarrow> 'c \<Rightarrow> 'c GuestTurn" where
  "guest_ends v rest g c = \<lparr>gt_verdict = v, gt_rest = rest, gt_sent = [], gt_state = g, gt_world = c\<rparr>"

definition MAX_GUEST_REQUEST :: nat where
  "MAX_GUEST_REQUEST = 10 * 1024 * 1024"

text \<open>One request; \<open>at_end\<close> is what the end of the connection means: the TLS build breaks, the plain one stops.\<close>

definition guest_serve_frame ::
  "'c GuestServerLib \<Rightarrow> verdict \<Rightarrow> bytes \<Rightarrow> GuestState \<Rightarrow> 'c \<Rightarrow> 'c GuestTurn outcome" where
  "guest_serve_frame lib at_end input g c =
     (case read_exact 4 input of
        None \<Rightarrow> oret (guest_ends at_end [] g c)
      | Some (len_buf, rest) \<Rightarrow>
          (let request_len = unat (be32 (len_buf ! 0) (len_buf ! 1) (len_buf ! 2) (len_buf ! 3))
           in if request_len = 0 then oret (guest_ends Stop rest g c)
              else if request_len > MAX_GUEST_REQUEST then oret (guest_ends Broken rest g c)
              else
                (case read_exact request_len rest of
                   None \<Rightarrow> oret (guest_ends Broken [] g c)
                 | Some (request_data, rest) \<Rightarrow>
                     obind (guest_answer_line lib request_data g c) (\<lambda>(response, go_on, g, c).
                       oret \<lparr>gt_verdict = (if go_on then Continue else Stop), gt_rest = rest,
                             gt_sent = guest_send_response lib response, gt_state = g, gt_world = c\<rparr>))))"

definition guest_handle_single_tls_request ::
  "'c GuestServerLib \<Rightarrow> bytes \<Rightarrow> GuestState \<Rightarrow> 'c \<Rightarrow> 'c GuestTurn outcome" where
  "guest_handle_single_tls_request lib input g c = guest_serve_frame lib Broken input g c"

definition guest_handle_single_request ::
  "'c GuestServerLib \<Rightarrow> bytes \<Rightarrow> GuestState \<Rightarrow> 'c \<Rightarrow> 'c GuestTurn outcome" where
  "guest_handle_single_request lib input g c = guest_serve_frame lib Stop input g c"

lemma guest_serve_frame_consumes:
  "guest_serve_frame lib v input g c = Some (Done t) \<Longrightarrow> gt_verdict t = Continue \<Longrightarrow> v \<noteq> Continue \<Longrightarrow>
   length (gt_rest t) < length input"
  by (auto simp: guest_serve_frame_def read_exact_def guest_ends_def oret_def Let_def obind_eq_Done branches
      split: if_splits)

text \<open>The loop of \<open>main\<close>: what is sent, the number of requests it logs, and the statics and world at the end.\<close>

function guest_serve ::
  "'c GuestServerLib \<Rightarrow> bytes \<Rightarrow> nat \<Rightarrow> GuestState \<Rightarrow> 'c \<Rightarrow> (bytes \<times> nat \<times> GuestState \<times> 'c) outcome" where
  "guest_serve lib input request_count g c =
     (case guest_handle_single_tls_request lib input g c of
        None \<Rightarrow> None
      | Some Panic \<Rightarrow> Some Panic
      | Some (Done t) \<Rightarrow>
          (if gt_verdict t = Continue then
             obind (guest_serve lib (gt_rest t) (request_count + 1) (gt_state t) (gt_world t))
               (\<lambda>(sent, n, g, c). oret (gt_sent t @ sent, n, g, c))
           else oret (gt_sent t, request_count, gt_state t, gt_world t)))"
  by pat_completeness auto
termination
  by (relation "measure (\<lambda>(lib, input, n, g, c). length input)")
    (auto simp: guest_handle_single_tls_request_def dest: guest_serve_frame_consumes)

declare guest_serve.simps [simp del]

definition guest_main :: "'c GuestServerLib \<Rightarrow> bytes \<Rightarrow> 'c \<Rightarrow> (bytes \<times> nat \<times> GuestState \<times> 'c) outcome" where
  "guest_main lib input c = guest_serve lib input 0 guest_start c"

section \<open>A session\<close>

text \<open>The abstract server: one response per request, in order.\<close>

fun guest_answers ::
  "'c GuestServerLib \<Rightarrow> bytes list \<Rightarrow> GuestState \<Rightarrow> 'c \<Rightarrow> (GuestResponse list \<times> bool \<times> GuestState \<times> 'c) outcome" where
  "guest_answers lib [] g c = oret ([], False, g, c)"
| "guest_answers lib (request # requests) g c =
     obind (guest_answer_line lib request g c) (\<lambda>(response, go_on, g, c).
       if go_on then
         obind (guest_answers lib requests g c) (\<lambda>(rs, stopped, g, c). oret (response # rs, stopped, g, c))
       else oret ([response], True, g, c))"

definition guest_frameable :: "bytes \<Rightarrow> bool" where
  "guest_frameable request \<longleftrightarrow> request \<noteq> [] \<and> length request \<le> MAX_GUEST_REQUEST"

lemma guest_serve_one:
  assumes "guest_frameable request"
  shows "guest_serve_frame lib v (frame request @ rest) g c =
    obind (guest_answer_line lib request g c) (\<lambda>(response, go_on, g, c).
      oret \<lparr>gt_verdict = (if go_on then Continue else Stop), gt_rest = rest,
            gt_sent = guest_send_response lib response, gt_state = g, gt_world = c\<rparr>)"
proof -
  have l: "length (be32_bytes n) = 4" for n by (simp add: be32_bytes_def)
  have b: "length request < 2 ^ 32" using assms by (simp add: guest_frameable_def MAX_GUEST_REQUEST_def)
  have "read_exact 4 (frame request @ rest) = Some (be32_bytes (length request), request @ rest)"
    by (simp add: read_exact_def frame_def l)
  then show ?thesis
    using assms be32_of_bytes [OF b]
    by (simp add: guest_serve_frame_def guest_frameable_def read_exact_def Let_def)
qed

lemma guest_serve_end: "guest_serve_frame lib v [] g c = oret (guest_ends v [] g c)"
  by (simp add: guest_serve_frame_def read_exact_def)

text \<open>C36: The guest answers a connection request by request. For every sequence of requests of at most 10 MiB each,
  sent back to back and then closed, what the loop sends is the framed responses of the handlers, in order,
  up to and including the answer to the first \<open>shutdown\<close>, and statics and outside world end as the handlers
  leave them; the loop itself adds neither a panic nor a way not to return.\<close>
theorem guest_answers_in_order:
  assumes "list_all guest_frameable requests"
  shows "guest_serve lib (concat (map frame requests)) n g c =
    obind (guest_answers lib requests g c) (\<lambda>(rs, stopped, g', c').
      oret (concat (map (guest_send_response lib) rs), n + length rs - (if stopped then 1 else 0), g', c'))"
  using assms
proof (induction requests arbitrary: n g c)
  case Nil
  show ?case by (subst guest_serve.simps) (simp add: guest_handle_single_tls_request_def guest_serve_end guest_ends_def oret_def)
next
  case (Cons request requests)
  have f: "guest_frameable request" and fs: "list_all guest_frameable requests" using Cons.prems by simp_all
  note one = guest_handle_single_tls_request_def guest_serve_one [OF f]
  show ?case
  proof (cases "guest_answer_line lib request g c")
    case None
    then show ?thesis by (subst guest_serve.simps) (simp add: one)
  next
    case (Some e)
    then show ?thesis
    proof (cases e)
      case Panic
      with Some show ?thesis by (subst guest_serve.simps) (simp add: one)
    next
      case (Done x)
      obtain response go_on g1 c1 where x: "x = (response, go_on, g1, c1)" by (cases x)
      show ?thesis
      proof (cases go_on)
        case True
        then show ?thesis
          using Some Done x Cons.IH [OF fs, of "n + 1" g1 c1]
          by (subst guest_serve.simps)
            (cases "guest_answers lib requests g1 c1"; auto simp: one oret_def obind_def split: exec.splits prod.splits)
      next
        case False
        then show ?thesis
          using Some Done x by (subst guest_serve.simps) (simp add: one oret_def)
      qed
    qed
  qed
qed

text \<open>An instance: the operations are sent bare and the responses are their texts.\<close>

definition demo_guest_server :: "tiny GuestServerLib" where
  "demo_guest_server =
     \<lparr>sl_lib = demo_guest, sl_operation = Ok, sl_boot_req = (\<lambda>_. Err []), sl_chain_req = (\<lambda>_. Err []),
      sl_insert_req = (\<lambda>_. Err []), sl_rng = (\<lambda>_. Ok zero_hash), sl_pk_verify = (\<lambda>_ _ _. Ok ()),
      sl_https = (\<lambda>_ _ _. Err NoTcp), sl_response_json = gr_message\<rparr>"

lemma guest_answers_in_order_witness:
  "guest_serve demo_guest_server
     (concat (map frame [str ''compute_process_energy'', str ''shutdown'', str ''x''])) 0 guest_start ([], 0) =
   oret (guest_send_response demo_guest_server handle_compute_process_energy
     @ guest_send_response demo_guest_server (answer 0 (str ''Shutting down'')), 1, guest_start, ([], 0))"
proof -
  have u: "utf8_valid (str ''compute_process_energy'')" "utf8_valid (str ''shutdown'')" by code_simp+
  have d: "str ''compute_process_energy'' \<noteq> str ''shutdown''" "str ''compute_process_energy'' \<noteq> str ''get_nonce''"
    "str ''compute_process_energy'' \<noteq> str ''verify_boot''" "str ''compute_process_energy'' \<noteq> str ''verify_chain''"
    by code_simp+
  have a: "guest_answer_line demo_guest_server (str ''compute_process_energy'') g c = oret (handle_compute_process_energy, True, g, c)"
    "guest_answer_line demo_guest_server (str ''shutdown'') g c = oret (answer 0 (str ''Shutting down''), False, g, c)" for g c
    by (simp_all add: guest_answer_line_def u demo_guest_server_def guest_dispatch_def d)
  have "list_all guest_frameable [str ''compute_process_energy'', str ''shutdown'', str ''x'']"
    by (simp add: guest_frameable_def MAX_GUEST_REQUEST_def str_Cons)
  from guest_answers_in_order [OF this, of demo_guest_server 0 guest_start "([], 0)"] show ?thesis
    by (simp add: a)
qed

end
