(* ===== verification/GuestInvariants.thy ===== *)
theory GuestInvariants
  imports GuestServer
begin

text \<open>
  What the requests do to the statics of the guest enclave: how each of them may move the chain table, the
  batch of records and the nonce (two inductive relations), and from that the invariants of every run of
  the server.
\<close>

section \<open>The moves of the statics\<close>

text \<open>The chain table changes only by the verifier and the signer.\<close>

inductive chain_move :: "'c GuestLib \<Rightarrow> chain_states \<Rightarrow> chain_states \<Rightarrow> bool" for lib where
  unchanged: "chain_move lib t t"
| verified: "ecall_verify_energy_chain (gl_hmac lib) (gl_hexenc lib) (gl_master lib) vm e d n p s t = (v, t') \<Longrightarrow>
    chain_move lib t t'"
| signed: "ecall_sign_energy_chain (gl_hmac lib) (gl_hexenc lib) (gl_master lib) tenant e d out t = Done (v, sg, t') \<Longrightarrow>
    chain_move lib t t'"

definition same_head :: "GuestState \<Rightarrow> GuestState \<Rightarrow> bool" where
  "same_head g g' \<longleftrightarrow>
     gs_block_number g' = gs_block_number g \<and> gs_chained_root g' = gs_chained_root g \<and>
     gs_initialized g' = gs_initialized g \<and> gs_resume_refused g' = gs_resume_refused g"

text \<open>
  The batch: records are added without counting (a refused GPU export), added and counted, stored when the
  count reaches the size of a batch, or kept at that count when the stored chain is refused.
\<close>

inductive batch_move :: "GuestState \<Rightarrow> GuestState \<Rightarrow> bool" where
  uncounted: "gs_iteration_count g' = gs_iteration_count g \<Longrightarrow> gs_records g' = gs_records g @ new \<Longrightarrow>
    same_head g g' \<Longrightarrow> batch_move g g'"
| counted: "checked_add (gs_iteration_count g) 1 = Done (gs_iteration_count g') \<Longrightarrow> gs_iteration_count g' \<noteq> 100 \<Longrightarrow>
    gs_records g' = gs_records g @ new \<Longrightarrow> same_head g g' \<Longrightarrow> batch_move g g'"
| stored: "checked_add (gs_iteration_count g) 1 = Done 100 \<Longrightarrow> gs_iteration_count g' = 0 \<Longrightarrow> gs_records g' = [] \<Longrightarrow>
    gs_resume_refused g' = gs_resume_refused g \<Longrightarrow>
    (length (gs_chained_root g) = 32 \<Longrightarrow> length (gs_chained_root g') = 32) \<Longrightarrow> batch_move g g'"
| refused: "checked_add (gs_iteration_count g) 1 = Done 100 \<Longrightarrow> gs_iteration_count g' = 100 \<Longrightarrow>
    gs_records g' = gs_records g @ new \<Longrightarrow> gs_resume_refused g' \<Longrightarrow>
    gs_chained_root g' = gs_chained_root g \<Longrightarrow> gs_block_number g' = gs_block_number g \<Longrightarrow> batch_move g g'"

lemma prod_branch: "(case p of (a, b) \<Rightarrow> f a b) = y \<longleftrightarrow> (\<exists>a b. p = (a, b) \<and> f a b = y)"
  by (cases p) simp

lemma same_head_refl [simp]: "same_head g g"
  by (simp add: same_head_def)

lemma batch_move_refl [simp]: "batch_move g g"
  by (rule batch_move.uncounted [where new = "[]"]) simp_all

text \<open>The parts of the statics that a move of the batch looks at.\<close>

definition batch_of :: "GuestState \<Rightarrow> u64 \<times> EnergyRecord list \<times> u64 \<times> bytes \<times> bool \<times> bool" where
  "batch_of g = (gs_iteration_count g, gs_records g, gs_block_number g, gs_chained_root g, gs_initialized g,
     gs_resume_refused g)"

lemma batch_move_same: "batch_of g' = batch_of g \<Longrightarrow> batch_move g g'"
  by (rule batch_move.uncounted [where new = "[]"]) (simp_all add: batch_of_def same_head_def)

lemma batch_of_updates [simp]:
  "batch_of (g\<lparr>gs_chains := a\<rparr>) = batch_of g" "batch_of (g\<lparr>gs_events := n\<rparr>) = batch_of g"
  "batch_of (g\<lparr>gs_nonce := b\<rparr>) = batch_of g" "batch_of (g\<lparr>gs_gpu_energy := e\<rparr>) = batch_of g"
  "batch_of (g\<lparr>gs_bindings := f\<rparr>) = batch_of g" "batch_of (g\<lparr>gs_prev_cycle_at := p\<rparr>) = batch_of g"
  by (simp_all add: batch_of_def)

lemma batch_move_cong:
  assumes "batch_move a b" "batch_of a = batch_of g" "batch_of b = batch_of g'"
  shows "batch_move g g'"
  using assms(1)
proof cases
  case (uncounted new)
  then show ?thesis
    using assms(2,3) by (intro batch_move.uncounted [where new = new]) (auto simp: batch_of_def same_head_def)
next
  case (counted new)
  then show ?thesis
    using assms(2,3) by (intro batch_move.counted [where new = new]) (auto simp: batch_of_def same_head_def)
next
  case stored
  then show ?thesis using assms(2,3) by (intro batch_move.stored) (auto simp: batch_of_def)
next
  case (refused new)
  then show ?thesis
    using assms(2,3) by (intro batch_move.refused [where new = new]) (auto simp: batch_of_def)
qed

section \<open>Storing a batch\<close>

text \<open>The library's hashes and nonces have their types' lengths.\<close>

definition lib_typed :: "'c GuestServerLib \<Rightarrow> bool" where
  "lib_typed lib \<longleftrightarrow>
     (\<forall>m. length (gl_sha (sl_lib lib) m) = 32) \<and> (\<forall>k m. length (gl_hmac (sl_lib lib) k m) = 32) \<and>
     (\<forall>n b. sl_rng lib n = Ok b \<longrightarrow> length b = 32)"

lemma root_of_text_length: "length (root_of_text hexdec text) = 32"
  by (simp add: root_of_text_def zero_hash_def split: option.split result.split)

lemma latest_root_length:
  "get_latest_block_state ops hexdec vm c = Some (Done (Ok (Some (n, r)), c')) \<Longrightarrow> length r = 32"
  by (auto simp: get_latest_block_state_def rbind_returns rret_def root_of_text_length split: if_splits option.splits prod.splits)

lemma init_from_redis_batch:
  assumes "init_from_redis lib vm g c = Some (Done (g', c'))"
  shows "gs_iteration_count g' = gs_iteration_count g \<and> gs_records g' = gs_records g \<and>
    gs_resume_refused g' = gs_resume_refused g \<and> gs_nonce g' = gs_nonce g \<and>
    (length (gs_chained_root g) = 32 \<longrightarrow> length (gs_chained_root g') = 32)"
  using assms
  by (auto simp: init_from_redis_def obind_eq_Done oret_def branches dest: latest_root_length split: prod.splits)

lemma next_block_root: "\<forall>m. length (gl_sha lib m) = 32 \<Longrightarrow> length (bk_chained_root (next_block lib t ts g)) = 32"
  by (simp add: next_block_def new_block_def compute_chained_root_def Let_def)

lemma insert_next_batch:
  assumes "insert_next lib host (next_block lib t ts h) g c = Some (Done (i, g', c'))" "\<forall>m. length (gl_sha lib m) = 32"
  shows "gs_iteration_count g' = gs_iteration_count g \<and> gs_records g' = gs_records g \<and>
    gs_resume_refused g' = gs_resume_refused g \<and> gs_nonce g' = gs_nonce g \<and>
    (length (gs_chained_root g) = 32 \<longrightarrow> length (gs_chained_root g') = 32)"
  using assms(1) next_block_root [OF assms(2)]
  by (auto simp: insert_next_def obind_eq_Done oret_def extend_head_def and_then_eq_Done branches)

lemma store_batch_batch:
  assumes "store_batch lib vm ts g c = Some (Done (g', c'))" "\<forall>m. length (gl_sha lib m) = 32"
  shows "gs_iteration_count g' = 0 \<and> gs_records g' = [] \<and> gs_resume_refused g' = gs_resume_refused g \<and>
    gs_nonce g' = gs_nonce g \<and> (length (gs_chained_root g) = 32 \<longrightarrow> length (gs_chained_root g') = 32)"
proof -
  obtain g1 c1 i g2 where 1: "(if gs_initialized g then oret (g, c) else init_from_redis lib vm g c) = Some (Done (g1, c1))"
    and 2: "insert_next lib db_host (next_block lib vm ts g1) g1 c1 = Some (Done (i, g2, c'))"
    and 3: "g' = reset_batch g2"
    using assms(1) by (auto simp: store_batch_def obind_eq_Done oret_def)
  from 1 have "gs_resume_refused g1 = gs_resume_refused g \<and> gs_nonce g1 = gs_nonce g \<and>
      (length (gs_chained_root g) = 32 \<longrightarrow> length (gs_chained_root g1) = 32)"
    using init_from_redis_batch [of lib vm g c g1 c1] by (auto simp: oret_def split: if_splits)
  then show ?thesis using insert_next_batch [OF 2 assms(2)] by (auto simp: 3 reset_batch_def)
qed

lemma resume_chain_batch:
  assumes "resume_chain lib t g c = Some (Done (refused, g', c'))" "\<forall>k m. length (gl_hmac lib k m) = 32"
  shows "gs_iteration_count g' = gs_iteration_count g \<and> gs_records g' = gs_records g \<and> gs_nonce g' = gs_nonce g \<and>
    (refused \<longrightarrow> gs_resume_refused g' \<and> gs_chained_root g' = gs_chained_root g \<and> gs_block_number g' = gs_block_number g) \<and>
    (\<not> refused \<longrightarrow> gs_resume_refused g' = gs_resume_refused g) \<and>
    (length (gs_chained_root g) = 32 \<longrightarrow> length (gs_chained_root g') = 32)"
proof -
  have "refused = False \<and> g' = g \<or> (if refused then g' = g\<lparr>gs_resume_refused := True\<rparr>
    else g' = g \<or> g' = g\<lparr>gs_initialized := True\<rparr> \<or>
      (\<exists>line n top. verify_checkpoint_line (gl_hmac lib) (gl_master lib) t line = Some (n, top) \<and>
         g' = g\<lparr>gs_block_number := n + 1, gs_chained_root := top, gs_initialized := True\<rparr>))"
    using resume_chain_Done [OF assms(1)] by (auto split: if_splits)
  moreover have "length top = 32" if "verify_checkpoint_line (gl_hmac lib) (gl_master lib) t line = Some (n, top)" for line n top
    using verify_line_Some [OF assms(2) that] hex_decode_32_length by blast
  ultimately show ?thesis by (auto split: if_splits)
qed

lemma flush_batch:
  assumes "flush_gpu_block_to_redis lib t ts g c = Some (Done (g', c'))"
    and "\<forall>m. length (gl_sha lib m) = 32" "\<forall>k m. length (gl_hmac lib k m) = 32"
  shows "gs_nonce g' = gs_nonce g \<and>
    (gs_iteration_count g' = 0 \<and> gs_records g' = [] \<and> gs_resume_refused g' = gs_resume_refused g \<and>
       (length (gs_chained_root g) = 32 \<longrightarrow> length (gs_chained_root g') = 32) \<or>
     gs_iteration_count g' = gs_iteration_count g \<and> gs_records g' = gs_records g \<and> gs_resume_refused g' \<and>
       gs_chained_root g' = gs_chained_root g \<and> gs_block_number g' = gs_block_number g)"
proof (cases "gs_resume_refused g")
  case True
  then show ?thesis using assms(1) by (simp add: flush_gpu_block_to_redis_def oret_def)
next
  case False
  then obtain r g1 c1 where 1: "(if gs_initialized g then oret (False, g, c) else resume_chain lib t g c) = Some (Done (r, g1, c1))"
    and 2: "(if r then oret (g1, c1) else
       (let b = next_block lib t ts g1
        in obind (insert_next lib gpu_host b g1 c1) (\<lambda>(inserted, g, c).
             obind (if inserted then store_anchors lib t b c else oret c) (\<lambda>c. oret (reset_batch g, c))))) = Some (Done (g', c'))"
    using assms(1) by (auto simp: flush_gpu_block_to_redis_def obind_eq_Done)
  have r: "gs_iteration_count g1 = gs_iteration_count g \<and> gs_records g1 = gs_records g \<and> gs_nonce g1 = gs_nonce g \<and>
    (r \<longrightarrow> gs_resume_refused g1 \<and> gs_chained_root g1 = gs_chained_root g \<and> gs_block_number g1 = gs_block_number g) \<and>
    (\<not> r \<longrightarrow> gs_resume_refused g1 = gs_resume_refused g) \<and>
    (length (gs_chained_root g) = 32 \<longrightarrow> length (gs_chained_root g1) = 32)"
    using 1 resume_chain_batch [OF _ assms(3), of t g c r g1 c1] by (auto simp: oret_def split: if_splits)
  show ?thesis
  proof (cases r)
    case True
    then show ?thesis using 2 r by (simp add: oret_def)
  next
    case False
    with 2 obtain i g2 c2 where 3: "insert_next lib gpu_host (next_block lib t ts g1) g1 c1 = Some (Done (i, g2, c2))"
      and 4: "g' = reset_batch g2"
      by (auto simp: obind_eq_Done oret_def Let_def)
    from insert_next_batch [OF 3 assms(2)] r False show ?thesis by (auto simp: 4 reset_batch_def)
  qed
qed

section \<open>The exports\<close>

lemma record_export_batch:
  assumes "record_export lib request rows g c = Some (Done (r, g', c'))" "\<forall>m. length (gl_sha lib m) = 32"
  shows "batch_move g g' \<and> gs_nonce g' = gs_nonce g"
proof -
  obtain now g1 where 1: "take_now lib g = (now, g1)" by fastforce
  obtain ts g2 where 2: "take_timestamp lib (g1\<lparr>gs_prev_cycle_at := Some now\<rparr>) = (ts, g2)" by fastforce
  obtain results new where 3: "process_rows (dq_vm_name request) ts (cycle_interval (gs_prev_cycle_at g1) now) rows = (results, new)"
    by fastforce
  define h where "h n = g2\<lparr>gs_records := gs_records g2 @ new, gs_iteration_count := n\<rparr>" for n
  have g2: "gs_iteration_count g2 = gs_iteration_count g" "gs_records g2 = gs_records g" "same_head g g2" "gs_nonce g2 = gs_nonce g"
    using 1 2 by (auto simp: take_now_def take_timestamp_def same_head_def)
  obtain n where n: "checked_add (gs_iteration_count g) 1 = Done n"
    and s: "(if n = 100 then store_batch lib (dq_vm_name request) ts (h n) c else oret (h n, c)) = Some (Done (g', c'))"
    using assms(1) by (auto simp: record_export_def 1 2 3 h_def g2(1) obind_eq_Done BATCH_SIZE_def oret_def Let_def cong: if_cong)
  have h: "gs_iteration_count (h n) = n" "gs_records (h n) = gs_records g @ new" "same_head g (h n)" "gs_nonce (h n) = gs_nonce g"
    using g2 by (simp_all add: h_def same_head_def)
  show ?thesis
  proof (cases "n = 100")
    case True
    with s have "store_batch lib (dq_vm_name request) ts (h n) c = Some (Done (g', c'))" by simp
    from store_batch_batch [OF this assms(2)] True n h show ?thesis
      by (auto simp: same_head_def intro!: batch_move.stored)
  next
    case False
    with s n h show ?thesis by (auto simp: oret_def intro!: batch_move.counted [where new = new])
  qed
qed

lemma export_verified_batch:
  assumes "export_verified lib request g c = Some (Done (r, g', c'))" "\<forall>m. length (gl_sha lib m) = 32"
  shows "batch_move g g' \<and> gs_nonce g' = gs_nonce g"
  using assms(1) record_export_batch [OF _ assms(2)]
  by (auto simp: export_verified_def obind_eq_Done oret_def Let_def branches split: if_splits)

lemma export_verified_chains:
  "export_verified lib request g c = Some (Done (r, g', c')) \<Longrightarrow> gs_chains g' = gs_chains g"
  by (auto simp: export_verified_def obind_eq_Done oret_def Let_def branches dest: record_export_chains split: if_splits)

lemma db_export_moves:
  assumes "handle_db_export lib json g c = Some (Done (r, g', c'))" "\<forall>m. length (gl_sha lib m) = 32"
  shows "chain_move lib (gs_chains g) (gs_chains g') \<and> batch_move g g' \<and> gs_nonce g' = gs_nonce g"
proof -
  have "g' = g \<or> (\<exists>v t vm e d n p s. ecall_verify_energy_chain (gl_hmac lib) (gl_hexenc lib) (gl_master lib) vm e d n p s
      (gs_chains g) = (v, t) \<and> (g' = g\<lparr>gs_chains := t\<rparr> \<or>
        (\<exists>request. export_verified lib request (g\<lparr>gs_chains := t\<rparr>) c = Some (Done (r, g', c')))))"
    using assms(1)
    by (auto simp: handle_db_export_def obind_eq_Done oret_def Let_def branches prod_branch split: if_splits) blast+
  then show ?thesis
  proof (elim disjE exE conjE)
    fix v t vm e d n p s
    assume m: "ecall_verify_energy_chain (gl_hmac lib) (gl_hexenc lib) (gl_master lib) vm e d n p s (gs_chains g) = (v, t)"
    { assume "g' = g\<lparr>gs_chains := t\<rparr>"
      then show ?thesis using chain_move.verified [OF m] batch_move_same [of g' g] by simp }
    fix request
    assume "export_verified lib request (g\<lparr>gs_chains := t\<rparr>) c = Some (Done (r, g', c'))"
    from export_verified_batch [OF this assms(2)] export_verified_chains [OF this] show ?thesis
      using chain_move.verified [OF m] batch_move_cong [of "g\<lparr>gs_chains := t\<rparr>" g' g g'] by simp
  qed (simp add: chain_move.unchanged)
qed

text \<open>The checks of a GPU export touch only the cache of the bindings.\<close>

definition fixed_part :: "GuestState \<Rightarrow> chain_states \<times> bytes option \<times> (u64 \<times> EnergyRecord list \<times> u64 \<times> bytes \<times> bool \<times> bool)" where
  "fixed_part g = (gs_chains g, gs_nonce g, batch_of g)"

lemma fixed_part_updates [simp]:
  "fixed_part (g\<lparr>gs_events := n\<rparr>) = fixed_part g" "fixed_part (g\<lparr>gs_bindings := f\<rparr>) = fixed_part g"
  "fixed_part (g\<lparr>gs_gpu_energy := e\<rparr>) = fixed_part g"
  by (simp_all add: fixed_part_def)

lemma cached_or_fixed: "fixed_part (snd (cached_or lib request key g)) = fixed_part g"
  by (auto simp: cached_or_def binding_lookup_def Let_def split: option.split prod.split result.split)

lemma binding_loop_fixed: "fixed_part (snd (binding_loop lib request e gpus g)) = fixed_part g"
  by (induction gpus arbitrary: g) (simp_all add: cached_or_fixed Let_def case_prod_unfold)

lemma check_bindings_fixed: "fixed_part (snd (check_bindings lib request g)) = fixed_part g"
proof -
  have "fixed_part (snd (binding_loop lib request e gpus (snd (cached_or lib request k2 (snd (cached_or lib request k1 g)))))) = fixed_part g"
    for e gpus k1 k2
    by (simp only: binding_loop_fixed cached_or_fixed)
  then show ?thesis
    by (auto simp: check_bindings_def Let_def case_prod_unfold split: option.split)
qed

text \<open>Attribution adds records.\<close>

definition records_added :: "GuestState \<Rightarrow> GuestState \<Rightarrow> bool" where
  "records_added g g' \<longleftrightarrow>
     gs_chains g' = gs_chains g \<and> gs_nonce g' = gs_nonce g \<and> gs_iteration_count g' = gs_iteration_count g \<and>
     same_head g g' \<and> (\<exists>new. gs_records g' = gs_records g @ new)"

lemma records_added_refl [simp]: "records_added g g"
  by (simp add: records_added_def)

lemma records_added_trans: "records_added a b \<Longrightarrow> records_added b c \<Longrightarrow> records_added a c"
  by (auto simp: records_added_def same_head_def)

lemma records_added_fixed: "fixed_part a = fixed_part g \<Longrightarrow> records_added a g' \<Longrightarrow> records_added g g'"
  by (auto simp: fixed_part_def batch_of_def records_added_def same_head_def)

lemma attribute_gpu_records:
  "attribute_gpu request ts gpu acc = Done acc' \<Longrightarrow> records_added (ga_state acc) (ga_state acc')"
  by (auto simp: attribute_gpu_def and_then_eq_Done records_added_def same_head_def Let_def branches prod_branch split: if_splits)

lemma gpu_groups_records:
  "gpu_groups request ts e gpus acc = Done (refusal, acc') \<Longrightarrow> records_added (ga_state acc) (ga_state acc')"
  by (induction gpus arbitrary: acc)
    (auto simp: and_then_eq_Done branches dest: attribute_gpu_records intro: records_added_trans)

lemma sign_and_store_moves:
  assumes "sign_and_store lib request ts acc c = Some (Done (r, g', c'))"
    and "\<forall>m. length (gl_sha lib m) = 32" "\<forall>k m. length (gl_hmac lib k m) = 32"
    and "records_added g (ga_state acc)"
  shows "chain_move lib (gs_chains g) (gs_chains g') \<and> batch_move g g' \<and> gs_nonce g' = gs_nonce g"
proof -
  let ?g = "ga_state acc"
  obtain new where a: "gs_chains ?g = gs_chains g" "gs_nonce ?g = gs_nonce g" "gs_iteration_count ?g = gs_iteration_count g"
      "same_head g ?g" "gs_records ?g = gs_records g @ new"
    using assms(4) by (auto simp: records_added_def)
  obtain v sg t where s: "ecall_sign_energy_chain (gl_hmac lib) (gl_hexenc lib) (gl_master lib)
      (Some (str ''gpu:'' @ nq_node_id request)) (ga_energy_uj acc) (ga_delta acc) True (gs_chains g) = Done (v, sg, t)"
    using assms(1) by (auto simp: sign_and_store_def obind_eq_Done a(1) Let_def)
  have m: "chain_move lib (gs_chains g) t" by (rule chain_move.signed [OF s])
  show ?thesis
  proof (cases "v < 0")
    case True
    then have "g' = ?g\<lparr>gs_chains := t\<rparr>" using assms(1) s by (simp add: sign_and_store_def a(1) oret_def)
    then show ?thesis
      using m a by (auto simp: same_head_def intro!: batch_move.uncounted [where new = new])
  next
    case False
    then obtain n where n: "checked_add (gs_iteration_count g) 1 = Done n"
      and f: "(if n = 100 then flush_gpu_block_to_redis lib (nq_node_id request) ts (?g\<lparr>gs_chains := t, gs_iteration_count := n\<rparr>) c
        else oret (?g\<lparr>gs_chains := t, gs_iteration_count := n\<rparr>, c)) = Some (Done (g', c'))"
      using assms(1) s
      by (auto simp: sign_and_store_def a(1,3) obind_eq_Done GPU_BATCH_SIZE_def oret_def Let_def cong: if_cong)
    show ?thesis
    proof (cases "n = 100")
      case True
      with f have fl: "flush_gpu_block_to_redis lib (nq_node_id request) ts (?g\<lparr>gs_chains := t, gs_iteration_count := n\<rparr>) c
          = Some (Done (g', c'))" by simp
      show ?thesis
        using flush_batch [OF fl assms(2,3)] flush_chains [OF fl] True n m a
        by (auto simp: same_head_def intro: batch_move.stored batch_move.refused [where new = new])
    next
      case False
      with f have "g' = ?g\<lparr>gs_chains := t, gs_iteration_count := n\<rparr>" by (simp add: oret_def)
      then show ?thesis
        using False n m a by (auto simp: same_head_def intro!: batch_move.counted [where new = new])
    qed
  qed
qed

lemma gpu_export_moves:
  assumes "handle_gpu_db_export lib json g c = Some (Done (r, g', c'))"
    and "\<forall>m. length (gl_sha lib m) = 32" "\<forall>k m. length (gl_hmac lib k m) = 32"
  shows "chain_move lib (gs_chains g) (gs_chains g') \<and> batch_move g g' \<and> gs_nonce g' = gs_nonce g"
proof -
  have added: "chain_move lib (gs_chains g) (gs_chains g') \<and> batch_move g g' \<and> gs_nonce g' = gs_nonce g"
    if "records_added g g'"
    using that by (auto simp: records_added_def intro: batch_move.uncounted chain_move.unchanged)
  have fixed: "fixed_part (snd (take_timestamp lib g)) = fixed_part g" by (simp add: take_timestamp_def)
  show ?thesis
  proof (cases "gl_gpu_req lib json")
    case (Err e)
    then show ?thesis using assms(1) added by (simp add: handle_gpu_db_export_def oret_def)
  next
    case (Ok request)
    define g1 where "g1 = snd (take_timestamp lib g)"
    define g2 where "g2 = snd (check_bindings lib request g1)"
    have f: "fixed_part g1 = fixed_part g" "fixed_part g2 = fixed_part g"
      by (simp_all add: g1_def g2_def fixed check_bindings_fixed)
    have "g' = g \<or> g' = g1 \<or> g' = g2 \<or>
      (\<exists>ts e refusal acc'. gpu_groups request ts e (nq_gpus request)
           \<lparr>ga_results = [], ga_energy_uj = 0, ga_delta = 0, ga_state = g2\<rparr> = Done (refusal, acc') \<and>
         (g' = ga_state acc' \<or> sign_and_store lib request ts acc' c = Some (Done (r, g', c'))))"
      using assms(1)
      by (auto simp: handle_gpu_db_export_def Ok obind_eq_Done oret_def branches prod_branch g1_def g2_def Let_def split: if_splits)
        blast+
    then show ?thesis
    proof (elim disjE exE conjE)
      assume "g' = g1" then show ?thesis using added records_added_fixed [OF f(1)] by simp
    next
      assume "g' = g2" then show ?thesis using added records_added_fixed [OF f(2)] by simp
    next
      fix ts e refusal acc'
      assume a: "gpu_groups request ts e (nq_gpus request)
           \<lparr>ga_results = [], ga_energy_uj = 0, ga_delta = 0, ga_state = g2\<rparr> = Done (refusal, acc')"
      have r: "records_added g (ga_state acc')"
        using records_added_fixed [OF f(2)] gpu_groups_records [OF a] by simp
      { assume "g' = ga_state acc'" then show ?thesis using added r by simp }
      assume "sign_and_store lib request ts acc' c = Some (Done (r, g', c'))"
      from sign_and_store_moves [OF this assms(2,3) r] show ?thesis .
    qed (use added in simp)
  qed
qed

section \<open>Every request\<close>

text \<open>The nonce is kept, issued or consumed.\<close>

definition nonce_move :: "'c GuestServerLib \<Rightarrow> bytes option \<Rightarrow> bytes option \<Rightarrow> bool" where
  "nonce_move lib n n' \<longleftrightarrow> n' = n \<or> n' = None \<or> (\<exists>k b. sl_rng lib k = Ok b \<and> n' = Some b)"

definition guest_move :: "'c GuestServerLib \<Rightarrow> GuestState \<Rightarrow> GuestState \<Rightarrow> bool" where
  "guest_move lib g g' \<longleftrightarrow>
     chain_move (sl_lib lib) (gs_chains g) (gs_chains g') \<and> batch_move g g' \<and> nonce_move lib (gs_nonce g) (gs_nonce g')"

lemma guest_move_fixed: "fixed_part g' = fixed_part g \<Longrightarrow> guest_move lib g g'"
  using batch_move_same [of g' g] by (auto simp: fixed_part_def guest_move_def nonce_move_def intro: chain_move.unchanged)

lemma rng_branch:
  "(case e of NoRng a \<Rightarrow> f a | RngFailed b \<Rightarrow> h b) = y \<longleftrightarrow> (\<exists>a. e = NoRng a \<and> f a = y) \<or> (\<exists>b. e = RngFailed b \<and> h b = y)"
  by (cases e) auto

lemma get_nonce_move: "guest_get_nonce lib g = (r, g') \<Longrightarrow> guest_move lib g g'"
  using batch_move_same [of g' g]
  by (auto simp: guest_get_nonce_def guest_move_def nonce_move_def Let_def branches rng_branch intro: chain_move.unchanged)

lemma guest_lookup_fixed: "guest_lookup lib key h d a g = (reply, g') \<Longrightarrow> fixed_part g' = fixed_part g"
  by (auto simp: guest_lookup_def split: prod.splits)

text \<open>A boot request changes nothing but the nonce, which it can only consume.\<close>

lemma check_quote_nonce:
  "guest_check_quote lib request pcrs ak g = Done (r, g') \<Longrightarrow> g' = g \<or> g' = g\<lparr>gs_nonce := None\<rparr>"
  by (auto simp: guest_check_quote_def and_then_eq_Done branches Let_def split: if_splits)

lemma authenticate_fixed:
  assumes "guest_authenticate lib request pcrs g = Done (r, g')"
  shows "fixed_part g' = fixed_part g \<or> fixed_part g' = fixed_part (g\<lparr>gs_nonce := None\<rparr>)"
proof -
  obtain reply g1 where l: "guest_lookup lib (str ''ak_pub'') (bq_hostname request) (bq_deployment_type request)
      (bq_immudb_addr request) g = (reply, g1)" by fastforce
  then have "g' = g1 \<or> g' = g1\<lparr>gs_nonce := None\<rparr>"
    using assms by (auto simp: guest_authenticate_def branches prod_branch dest: check_quote_nonce split: if_splits)
  then show ?thesis using guest_lookup_fixed [OF l] by (auto simp: fixed_part_def batch_of_def)
qed

lemma parent_host_fixed: "check_parent_host lib request g = (r, g') \<Longrightarrow> fixed_part g' = fixed_part g"
  by (auto simp: check_parent_host_def branches prod_branch dest!: guest_lookup_fixed split: if_splits)

lemma verify_boot_fixed:
  assumes "handle_verify_boot lib json g = Done (r, g')"
  shows "fixed_part g' = fixed_part g \<or> fixed_part g' = fixed_part (g\<lparr>gs_nonce := None\<rparr>)"
proof -
  have "g' = g \<or> (\<exists>request pcrs x g1. guest_authenticate lib request pcrs g = Done (x, g1) \<and>
      (g' = g1 \<or> (\<exists>y g2. check_parent_host lib request g1 = (y, g2) \<and>
         (g' = g2 \<or> g' = snd (verify_binary lib request pcrs g2)))))"
    using assms
    by (auto simp: handle_verify_boot_def and_then_eq_Done branches prod_branch Let_def split: if_splits) fastforce+
  then show ?thesis
    by (auto simp: verify_binary_def dest!: authenticate_fixed parent_host_fixed)
qed

lemma verify_boot_move:
  assumes "handle_verify_boot lib json g = Done (r, g')"
  shows "guest_move lib g g'"
  using verify_boot_fixed [OF assms] batch_move_same [of g' g]
  by (auto simp: guest_move_def nonce_move_def fixed_part_def intro: chain_move.unchanged)

lemma verify_chain_move:
  assumes "handle_verify_chain lib json g = (r, g')"
  shows "guest_move lib g g'"
proof -
  have "g' = g \<or> (\<exists>v t vm e d n p s. ecall_verify_energy_chain (gl_hmac (sl_lib lib)) (gl_hexenc (sl_lib lib))
      (gl_master (sl_lib lib)) vm e d n p s (gs_chains g) = (v, t) \<and> g' = g\<lparr>gs_chains := t\<rparr>)"
    using assms by (auto simp: handle_verify_chain_def branches prod_branch Let_def) blast
  then show ?thesis
    using batch_move_same [of g' g]
    by (auto simp: guest_move_def nonce_move_def intro: chain_move.intros)
qed

lemma https_fixed: "https_exchange lib x code cap request g = (r, g') \<Longrightarrow> fixed_part g' = fixed_part g"
  by (auto simp: https_exchange_def Let_def branches split: if_splits)

lemma immudb_login_fixed: "handle_immudb_login lib g = Done (r, g') \<Longrightarrow> fixed_part g' = fixed_part g"
  by (auto simp: handle_immudb_login_def ecall_immudb_login_def and_then_eq_Done branches prod_branch Let_def
      dest: https_fixed)

lemma immudb_insert_fixed: "handle_immudb_insert lib json g = (r, g') \<Longrightarrow> fixed_part g' = fixed_part g"
  by (auto simp: handle_immudb_insert_def ecall_immudb_insert_def branches prod_branch dest: https_fixed split: if_splits)

lemma guest_move_refl: "guest_move lib g g"
  by (rule guest_move_fixed) simp

lemma dispatch_move:
  assumes "guest_dispatch lib operation line g c = Some (Done (r, g', c'))" "lib_typed lib"
  shows "guest_move lib g g'"
proof -
  have typed: "\<forall>m. length (gl_sha (sl_lib lib) m) = 32" "\<forall>k m. length (gl_hmac (sl_lib lib) k m) = 32"
    using assms(2) by (simp_all add: lib_typed_def)
  have export: "guest_move lib g g'" if "chain_move (sl_lib lib) (gs_chains g) (gs_chains g') \<and> batch_move g g' \<and> gs_nonce g' = gs_nonce g"
    using that by (simp add: guest_move_def nonce_move_def)
  show ?thesis
    using assms(1) export [OF db_export_moves [OF _ typed(1)]] export [OF gpu_export_moves [OF _ typed]]
    by (auto simp: guest_dispatch_def oret_def Let_def prod_branch obind_eq_Done split: if_splits
        intro: get_nonce_move verify_boot_move verify_chain_move guest_move_refl guest_move_fixed
        dest: immudb_login_fixed immudb_insert_fixed)
qed

lemma answer_move:
  assumes "guest_answer_line lib request g c = Some (Done (r, go_on, g', c'))" "lib_typed lib"
  shows "guest_move lib g g'"
  using assms(1) dispatch_move [OF _ assms(2)]
  by (auto simp: guest_answer_line_def oret_def obind_eq_Done branches guest_move_refl split: if_splits)

section \<open>The statics keep their form\<close>

definition guest_step :: "'c GuestServerLib \<Rightarrow> GuestState \<times> 'c \<Rightarrow> bytes \<Rightarrow> GuestState \<times> 'c" where
  "guest_step lib gc request =
     (case guest_answer_line lib request (fst gc) (snd gc) of
        Some (Done (r, go_on, g', c')) \<Rightarrow> (g', c')
      | _ \<Rightarrow> gc)"

lemma guest_step_move: "lib_typed lib \<Longrightarrow> guest_move lib (fst gc) (fst (guest_step lib gc request))"
  using answer_move by (auto simp: guest_step_def guest_move_refl split: option.splits exec.splits)

text \<open>The sizes that the types of the code promise, and the batch that is still to be stored.\<close>

definition chain_typed :: "VmChainState \<Rightarrow> bool" where
  "chain_typed s \<longleftrightarrow> length (vs_last_signature s) = 32"

definition guest_typed :: "GuestState \<Rightarrow> bool" where
  "guest_typed g \<longleftrightarrow>
     length (gs_chained_root g) = 32 \<and>
     pred_option (\<lambda>n. length n = 32) (gs_nonce g) \<and>
     (\<forall>vm. pred_option chain_typed (gs_chains g vm)) \<and>
     (gs_resume_refused g \<or> gs_iteration_count g < 100)"

lemma entry_typed: "pred_option chain_typed (t vm) \<Longrightarrow> chain_typed (entry_or_new t vm)"
  by (auto simp: entry_or_new_def vm_chain_new_def chain_typed_def zero_hash_def split: option.splits)

lemma chain_move_typed:
  assumes "chain_move lib t t'" "\<forall>k m. length (gl_hmac lib k m) = 32" "\<forall>vm. pred_option chain_typed (t vm)"
  shows "\<forall>vm. pred_option chain_typed (t' vm)"
  using assms(1)
proof cases
  case (verified vm e d n p s v)
  have entry: "chain_typed (entry_or_new t x)" for x using entry_typed assms(3) by blast
  have mac: "length (chain_mac (gl_hmac lib) h m vm n e d p) = 32" for h m vm n e d p
    using assms(2) by (simp add: chain_mac_def)
  from verified show ?thesis
    using assms(3) entry mac
    by (auto simp: ecall_verify_energy_chain_def Let_def chain_typed_def split: option.splits if_splits ChainVerdict.splits)
next
  case (signed tenant e d out v sg)
  have mac: "length (chain_mac (gl_hmac lib) h m vm n e d p) = 32" for h m vm n e d p
    using assms(2) by (simp add: chain_mac_def)
  from signed show ?thesis
    using assms(3) mac
    by (auto simp: ecall_sign_energy_chain_def Let_def chain_typed_def split: option.splits if_splits exec.splits)
qed (use assms(3) in simp)

lemma batch_move_typed:
  assumes "batch_move g g'" "length (gs_chained_root g) = 32" "gs_resume_refused g \<or> gs_iteration_count g < 100"
  shows "length (gs_chained_root g') = 32 \<and> (gs_resume_refused g' \<or> gs_iteration_count g' < 100)"
  using assms(1)
proof cases
  case (counted new)
  show ?thesis
  proof (cases "gs_resume_refused g")
    case True
    then show ?thesis using counted assms(2) by (simp add: same_head_def)
  next
    case False
    then have "unat (gs_iteration_count g) < 100" using assms(3) by (simp add: u64_less_iff)
    moreover have "unat (gs_iteration_count g') = unat (gs_iteration_count g) + 1"
      using counted(1) by (auto simp: checked_add_Done unat_word_ariths)
    moreover have "unat (gs_iteration_count g') \<noteq> 100"
      using counted(2) u64_eq_iff [of "gs_iteration_count g'" 100] by simp
    ultimately have "gs_iteration_count g' < 100" by (simp add: u64_less_iff)
    then show ?thesis using counted assms(2) by (simp add: same_head_def)
  qed
qed (use assms in \<open>auto simp: same_head_def\<close>)

lemma guest_move_typed: "guest_move lib g g' \<Longrightarrow> lib_typed lib \<Longrightarrow> guest_typed g \<Longrightarrow> guest_typed g'"
  using batch_move_typed [of g g'] chain_move_typed [of "sl_lib lib" "gs_chains g" "gs_chains g'"]
  by (auto simp: guest_move_def guest_typed_def lib_typed_def nonce_move_def)

interpretation guest: stepper "guest_step lib" "\<lambda>gc. lib_typed lib \<and> guest_typed (fst gc)" for lib
  by unfold_locales (use guest_move_typed guest_step_move in blast)

lemma start_typed: "guest_typed guest_start"
  by (simp add: guest_typed_def guest_start_def zero_hash_def)

text \<open>C37: The statics of the guest enclave keep their types in every run. Whatever requests arrive, the chain head and
  every chain's last signature have 32 bytes, an outstanding nonce has 32 bytes, and fewer than a batch of
  exports is counted, unless taking up the stored GPU chain was refused.\<close>
theorem guest_statics_typed:
  assumes "lib_typed lib"
  shows "guest_typed (fst (foldl (guest_step lib) (guest_start, c) requests))"
  using guest.inv_run [of lib "(guest_start, c)" requests] assms start_typed by simp

lemma demo_typed: "lib_typed demo_guest_server"
  using length_toy_sha length_toy_hmac by (simp add: lib_typed_def demo_guest_server_def zero_hash_def)

lemma guest_statics_typed_witness:
  "guest_typed (fst (foldl (guest_step demo_guest_server) (guest_start, ([], 0)) [str ''get_nonce'', str ''db_export'']))"
  by (rule guest_statics_typed [OF demo_typed])

section \<open>Chains of the guest only move forward\<close>

definition chain_forward :: "VmChainState \<Rightarrow> VmChainState \<Rightarrow> bool" where
  "chain_forward s s' \<longleftrightarrow>
     vs_initialized s' \<and> vs_counter s \<le> vs_counter s' \<and> (vs_counter s' = vs_counter s \<longrightarrow> s' = s)"

definition chain_grown :: "chain_states \<Rightarrow> chain_states \<Rightarrow> bool" where
  "chain_grown t t' \<longleftrightarrow>
     (\<forall>vm s. t vm = Some s \<and> vs_initialized s \<longrightarrow> (\<exists>s'. t' vm = Some s' \<and> chain_forward s s'))"

lemma chain_forward_trans: "chain_forward a b \<Longrightarrow> chain_forward b c \<Longrightarrow> chain_forward a c"
  unfolding chain_forward_def by (metis order_antisym order_trans)

lemma chain_grown_refl: "chain_grown t t"
  by (simp add: chain_grown_def chain_forward_def)

lemma chain_grown_trans: "chain_grown a b \<Longrightarrow> chain_grown b c \<Longrightarrow> chain_grown a c"
  unfolding chain_grown_def using chain_forward_trans chain_forward_def by meson

lemma next_counter_less: "checked_add n 1 = Done m \<Longrightarrow> n < m"
  by (auto simp: checked_add_Done u64_less_iff unat_word_ariths)

lemma chain_move_grown:
  assumes "chain_move lib t t'"
  shows "chain_grown t t'"
  using assms
proof cases
  case (verified vmp e d n p s v)
  show ?thesis
  proof (cases "\<exists>vm ph sg. vmp = Some vm \<and> p = Some ph \<and> s = Some sg \<and> utf8_valid vm")
    case False
    then have "t' = t" using verified by (auto simp: ecall_verify_energy_chain_def split: option.splits if_splits)
    then show ?thesis by (simp add: chain_grown_refl)
  next
    case True
    then obtain vm ph sg where a: "vmp = Some vm" "p = Some ph" "s = Some sg" and u: "utf8_valid vm" by blast
    let ?s = "entry_or_new t vm"
    let ?m = "chain_mac (gl_hmac lib) (gl_hexenc lib) (gl_master lib) vm n e d ph"
    let ?v = "admit_chain_step (?m = sg) (\<not> vs_initialized ?s \<or> ph = vs_last_signature ?s)
      (vs_initialized ?s) (vs_counter ?s) (vs_last_energy_uj ?s) n e d"
    have keep: "chain_grown t (t(vm \<mapsto> ?s))" by (auto simp: chain_grown_def chain_forward_def entry_or_new_def)
    have acc: "in_sequence ?s n e d ph" if "?v = Accept"
      using verdict_in_sequence that by blast
    have less: "vs_counter s0 < n" if "?v = Accept" "t vm = Some s0" "vs_initialized s0" for s0
      using acc [OF that(1)] that(2,3) by (simp add: in_sequence_def entry_or_new_def u64_less_iff)
    have "t' = (if ?v = Accept then t(vm \<mapsto> \<lparr>vs_counter = n, vs_last_signature = ?m, vs_initialized = True, vs_last_energy_uj = e\<rparr>)
        else t(vm \<mapsto> ?s))"
      using verified verify_energy_chain_step [OF u, of "gl_hmac lib" "gl_hexenc lib" "gl_master lib" e d n ph sg t]
      by (simp add: a split: ChainVerdict.splits)
    then show ?thesis using keep less by (auto simp: chain_grown_def chain_forward_def dest: order_less_imp_le)
  qed
next
  case (signed tenant e d out v sg)
  then show ?thesis
    by (auto simp: ecall_sign_energy_chain_def Let_def chain_grown_def chain_forward_def entry_or_new_def
        dest!: next_counter_less dest: order_less_imp_le split: option.splits if_splits exec.splits)
qed (simp add: chain_grown_refl)

text \<open>C7: No request can roll back a chain the guest has verified or signed. From any state, whatever requests
  follow, every initialised chain stays initialised, its counter never decreases, and while the counter
  stays the chain does not change at all.\<close>
theorem guest_chains_move_forward:
  assumes "lib_typed lib" "guest_typed g"
  shows "chain_grown (gs_chains g) (gs_chains (fst (foldl (guest_step lib) (g, c) requests)))"
proof -
  have "chain_grown (gs_chains (fst gc)) (gs_chains (fst (guest_step lib gc e)))" for gc e
    using guest_step_move [OF assms(1), of gc e] by (auto simp: guest_move_def intro: chain_move_grown)
  then show ?thesis
    using guest.rel_run [of lib "\<lambda>a b. chain_grown (gs_chains (fst a)) (gs_chains (fst b))" "(g, c)" requests] assms
    by (auto intro: chain_grown_refl chain_grown_trans)
qed

lemma guest_chains_move_forward_witness:
  "\<exists>s. gs_chains (fst (foldl (guest_step demo_guest_server)
      (guest_start\<lparr>gs_chains := [str ''vm1'' \<mapsto> \<lparr>vs_counter = 7, vs_last_signature = zero_hash, vs_initialized = True,
         vs_last_energy_uj = 3\<rparr>]\<rparr>, ([], 0)) [str ''db_export'', str ''db_export''])) (str ''vm1'') = Some s \<and> 7 \<le> vs_counter s"
proof -
  define g where "g = guest_start\<lparr>gs_chains := [str ''vm1'' \<mapsto> \<lparr>vs_counter = 7, vs_last_signature = zero_hash,
    vs_initialized = True, vs_last_energy_uj = 3\<rparr>]\<rparr>"
  have "guest_typed g"
    using start_typed by (auto simp: guest_typed_def g_def chain_typed_def zero_hash_def)
  from guest_chains_move_forward [OF demo_typed this, of "([], 0)" "[str ''db_export'', str ''db_export'']"]
  have "chain_grown (gs_chains g) (gs_chains (fst (foldl (guest_step demo_guest_server) (g, ([], 0))
    [str ''db_export'', str ''db_export''])))" .
  moreover have "gs_chains g (str ''vm1'') = Some \<lparr>vs_counter = 7, vs_last_signature = zero_hash,
    vs_initialized = True, vs_last_energy_uj = 3\<rparr>"
    by (simp add: g_def)
  ultimately show ?thesis
    unfolding g_def [symmetric] chain_grown_def chain_forward_def by fastforce
qed

section \<open>A refused chain\<close>

text \<open>C38: A refusal to take up the stored chain is final and its records are never stored. Once the stored GPU chain
  was refused with a full batch (which is when it is refused), every later run of requests keeps the
  refusal, never reaches the size of a batch again, leaves the chain head as it is, and keeps every record:
  the list in memory only grows.\<close>
theorem refused_records_grow:
  assumes "lib_typed lib" "gs_resume_refused g" "100 \<le> gs_iteration_count g"
  shows "\<exists>new. let g' = fst (foldl (guest_step lib) (g, c) requests) in
    gs_resume_refused g' \<and> 100 \<le> gs_iteration_count g' \<and> gs_records g' = gs_records g @ new \<and>
    gs_block_number g' = gs_block_number g \<and> gs_chained_root g' = gs_chained_root g"
  using assms(2,3)
proof (induction requests arbitrary: g c)
  case Nil
  then show ?case by simp
next
  case (Cons request requests)
  obtain g1 c1 where s: "guest_step lib (g, c) request = (g1, c1)" by fastforce
  from guest_step_move [OF assms(1), of "(g, c)" request] have "batch_move g g1" by (simp add: s guest_move_def)
  then have 1: "gs_resume_refused g1 \<and> 100 \<le> gs_iteration_count g1 \<and> (\<exists>new. gs_records g1 = gs_records g @ new) \<and>
    gs_block_number g1 = gs_block_number g \<and> gs_chained_root g1 = gs_chained_root g"
    using Cons.prems
  proof cases
    case counted
    then show ?thesis
      using Cons.prems next_counter_less [of "gs_iteration_count g" "gs_iteration_count g1"]
      by (auto simp: same_head_def)
  next
    case stored
    then show ?thesis using Cons.prems next_counter_less by fastforce
  next
    case refused
    then show ?thesis using Cons.prems next_counter_less by fastforce
  qed (auto simp: same_head_def)
  then obtain new where n: "gs_records g1 = gs_records g @ new" by blast
  from Cons.IH [of g1 c1] 1 obtain more where
    "gs_records (fst (foldl (guest_step lib) (g1, c1) requests)) = gs_records g1 @ more"
    "gs_resume_refused (fst (foldl (guest_step lib) (g1, c1) requests))"
    "100 \<le> gs_iteration_count (fst (foldl (guest_step lib) (g1, c1) requests))"
    "gs_block_number (fst (foldl (guest_step lib) (g1, c1) requests)) = gs_block_number g1"
    "gs_chained_root (fst (foldl (guest_step lib) (g1, c1) requests)) = gs_chained_root g1"
    by (auto simp: Let_def)
  then show ?case using 1 n by (intro exI [of _ "new @ more"]) (simp add: s Let_def)
qed

lemma refused_records_grow_witness:
  "gs_resume_refused (fst (foldl (guest_step demo_guest_server)
     (guest_start\<lparr>gs_resume_refused := True, gs_iteration_count := 100\<rparr>, ([], 0)) [str ''db_export'', str ''gpu_db_export'']))"
proof -
  define g where "g = guest_start\<lparr>gs_resume_refused := True, gs_iteration_count := 100\<rparr>"
  have "gs_resume_refused g" "100 \<le> gs_iteration_count g" by (simp_all add: g_def)
  from refused_records_grow [OF demo_typed this, of "([], 0)" "[str ''db_export'', str ''gpu_db_export'']"]
  show ?thesis unfolding g_def [symmetric] by (auto simp: Let_def)
qed

end
