(* ===== verification/Exchange.thy ===== *)
theory Exchange
  imports HostServer
begin

text \<open>
  The framed exchange of a client with an enclave: \<open>send_tls_request\<close>, which both runners of the node have
  (\<open>src/src/sgx_vm_runner.rs\<close>, \<open>src/src/sgx_runner.rs\<close>), over a stream that is a parameter; and a stream with a
  framed server at its other end. The locale \<open>framed_server\<close> states what such a server promises and
  derives what a session over the stream yields; both enclaves' servers interpret it.
\<close>

section \<open>The exchange\<close>

text \<open>\<open>write_all\<close>, \<open>flush\<close> and \<open>read_exact\<close> of a stream; a failure is \<open>False\<close> or \<open>None\<close>.\<close>

record 'w StreamOps =
  so_write :: "'w \<Rightarrow> bytes \<Rightarrow> bool \<times> 'w"
  so_flush :: "'w \<Rightarrow> bool \<times> 'w"
  so_read :: "'w \<Rightarrow> nat \<Rightarrow> bytes option \<times> 'w"

text \<open>The length travels as 32 bits, whatever it is; the answer's buffer is as large as the peer announces.\<close>

definition send_tls_request ::
  "'w StreamOps \<Rightarrow> (bytes \<Rightarrow> 'r option) \<Rightarrow> bytes \<Rightarrow> 'w \<Rightarrow> (int, 'r) result \<times> 'w" where
  "send_tls_request ops parse request_json w =
     (case so_write ops w (be32_bytes (length request_json)) of
        (False, w) \<Rightarrow> (Err (-220), w)
      | (True, w) \<Rightarrow>
          (case so_write ops w request_json of
             (False, w) \<Rightarrow> (Err (-221), w)
           | (True, w) \<Rightarrow>
               (case so_flush ops w of
                  (False, w) \<Rightarrow> (Err (-222), w)
                | (True, w) \<Rightarrow>
                    (case so_read ops w 4 of
                       (None, w) \<Rightarrow> (Err (-223), w)
                     | (Some len_buf, w) \<Rightarrow>
                         (case so_read ops w (unat (be32 (len_buf ! 0) (len_buf ! 1) (len_buf ! 2) (len_buf ! 3))) of
                            (None, w) \<Rightarrow> (Err (-224), w)
                          | (Some response_data, w) \<Rightarrow>
                              (if \<not> utf8_valid response_data then (Err (-225), w)
                               else (case parse response_data of
                                       Some r \<Rightarrow> (Ok r, w)
                                     | None \<Rightarrow> (Err (-226), w))))))))"

section \<open>A server at the other end\<close>

text \<open>
  What the client has sent and the server not yet read, what the server has answered and the client not yet
  read, and the server's state. The server works when the client flushes: \<open>turn\<close> is what it makes of its
  input, namely the rest, the bytes it sends, whether it goes on, and its new state. When it panics or does not
  return (\<open>None\<close>) the connection takes nothing and gives nothing any more.
\<close>

record 's Link =
  lk_sent :: bytes
  lk_answered :: bytes
  lk_open :: bool
  lk_state :: 's

definition link_serve :: "(bytes \<Rightarrow> 's \<Rightarrow> (bytes \<times> bytes \<times> bool \<times> 's) option) \<Rightarrow> 's Link \<Rightarrow> 's Link" where
  "link_serve turn w =
     (case turn (lk_sent w) (lk_state w) of
        Some (rest, sent, go_on, s) \<Rightarrow>
          \<lparr>lk_sent = rest, lk_answered = lk_answered w @ sent, lk_open = go_on, lk_state = s\<rparr>
      | None \<Rightarrow> w\<lparr>lk_sent := [], lk_open := False\<rparr>)"

definition link_ops :: "(bytes \<Rightarrow> 's \<Rightarrow> (bytes \<times> bytes \<times> bool \<times> 's) option) \<Rightarrow> 's Link StreamOps" where
  "link_ops turn =
     \<lparr>so_write = (\<lambda>w b. if lk_open w then (True, w\<lparr>lk_sent := lk_sent w @ b\<rparr>) else (False, w)),
      so_flush = (\<lambda>w. (True, if lk_open w then link_serve turn w else w)),
      so_read = (\<lambda>w n. if n \<le> length (lk_answered w)
        then (Some (take n (lk_answered w)), w\<lparr>lk_answered := drop n (lk_answered w)\<rparr>) else (None, w))\<rparr>"

definition idle_link :: "bool \<Rightarrow> 's \<Rightarrow> 's Link" where
  "idle_link up s = \<lparr>lk_sent = [], lk_answered = [], lk_open = up, lk_state = s\<rparr>"

lemma link_simps:
  "so_write (link_ops turn) w b = (if lk_open w then (True, w\<lparr>lk_sent := lk_sent w @ b\<rparr>) else (False, w))"
  "so_flush (link_ops turn) w = (True, if lk_open w then link_serve turn w else w)"
  "so_read (link_ops turn) w n = (if n \<le> length (lk_answered w)
     then (Some (take n (lk_answered w)), w\<lparr>lk_answered := drop n (lk_answered w)\<rparr>) else (None, w))"
  by (simp_all add: link_ops_def)

lemma idle_simps [simp]:
  "lk_open (idle_link up s) = up" "lk_sent (idle_link up s) = []" "lk_answered (idle_link up s) = []"
  "lk_state (idle_link up s) = s" "idle_link up s\<lparr>lk_answered := []\<rparr> = idle_link up s"
  by (simp_all add: idle_link_def)

lemma sent_frame:
  "idle_link up s\<lparr>lk_sent := be32_bytes (length json), lk_sent := be32_bytes (length json) @ json\<rparr> =
   idle_link up s\<lparr>lk_sent := frame json\<rparr>"
  by (simp add: idle_link_def frame_def)

section \<open>A session\<close>

fun exchange_all ::
  "'w StreamOps \<Rightarrow> (bytes \<Rightarrow> 'r option) \<Rightarrow> bytes list \<Rightarrow> 'w \<Rightarrow> (int, 'r) result list \<times> 'w" where
  "exchange_all ops parse [] w = ([], w)"
| "exchange_all ops parse (request # requests) w =
     (let (r, w) = send_tls_request ops parse request w; (rs, w) = exchange_all ops parse requests w
      in (r # rs, w))"

text \<open>
  What a client is promised: the server's answers while it is up; after a shutdown or a failure of the
  server nothing but errors.
\<close>

fun session_replies ::
  "(bytes \<Rightarrow> 's \<Rightarrow> ('r \<times> bool \<times> 's) option) \<Rightarrow> ('r \<Rightarrow> 'q) \<Rightarrow> bytes list \<Rightarrow> bool \<Rightarrow> 's \<Rightarrow>
   (int, 'q) result list \<times> bool \<times> 's" where
  "session_replies answer reply [] up s = ([], up, s)"
| "session_replies answer reply (request # requests) up s =
     (let (r, up, s) =
            (if up then
               (case answer request s of
                  Some (r, go_on, s) \<Rightarrow> (Ok (reply r), go_on, s)
                | None \<Rightarrow> (Err (-223), False, s))
             else (Err (-220), False, s));
          (rs, up, s) = session_replies answer reply requests up s
      in (r # rs, up, s))"

text \<open>The responses that the server prints in a session.\<close>

fun session_responses :: "(bytes \<Rightarrow> 's \<Rightarrow> ('r \<times> bool \<times> 's) option) \<Rightarrow> bytes list \<Rightarrow> 's \<Rightarrow> 'r list" where
  "session_responses answer [] s = []"
| "session_responses answer (request # requests) s =
     (case answer request s of
        Some (r, go_on, s) \<Rightarrow> r # (if go_on then session_responses answer requests s else [])
      | None \<Rightarrow> [])"

lemma session_down:
  "session_replies answer reply requests False s = (replicate (length requests) (Err (-220)), False, s)"
  by (induction requests) simp_all

text \<open>serde on both sides: the client reads from the response's text what \<open>reply\<close> says.\<close>

definition printed :: "('r \<Rightarrow> bytes) \<Rightarrow> ('r \<Rightarrow> 'q) \<Rightarrow> (bytes \<Rightarrow> 'q option) \<Rightarrow> 'r \<Rightarrow> bool" where
  "printed text_of reply parse r \<longleftrightarrow>
     utf8_valid (text_of r) \<and> length (text_of r) < 2 ^ 32 \<and> parse (text_of r) = Some (reply r)"

text \<open>The promise of a framed server: one frame, one framed answer, nothing left over.\<close>

locale framed_server =
  fixes turn :: "bytes \<Rightarrow> 's \<Rightarrow> (bytes \<times> bytes \<times> bool \<times> 's) option"
    and answer :: "bytes \<Rightarrow> 's \<Rightarrow> ('r \<times> bool \<times> 's) option"
    and text_of :: "'r \<Rightarrow> bytes"
    and accepts :: "bytes \<Rightarrow> bool"
  assumes turn_frame: "accepts json \<Longrightarrow> turn (frame json) s =
    map_option (\<lambda>(r, go_on, s'). ([], be32_bytes (length (text_of r)) @ text_of r, go_on, s')) (answer json s)"
begin

lemma closed: "send_tls_request (link_ops turn) parse json (idle_link False s) = (Err (-220), idle_link False s)"
  by (simp add: send_tls_request_def link_simps)

lemma answered:
  assumes "accepts json" "printed text_of reply parse r" "answer json s = Some (r, go_on, s')"
  shows "send_tls_request (link_ops turn) parse json (idle_link True s) = (Ok (reply r), idle_link go_on s')"
proof -
  let ?b = "text_of r"
  let ?n = "be32_bytes (length ?b)"
  have l: "length (be32_bytes m) = 4" for m by (simp add: be32_bytes_def)
  have doc: "utf8_valid ?b" "length ?b < 2 ^ 32" "parse ?b = Some (reply r)"
    using assms(2) by (simp_all add: printed_def)
  have serve: "link_serve turn (idle_link True s\<lparr>lk_sent := frame json\<rparr>) = idle_link go_on s'\<lparr>lk_answered := ?n @ ?b\<rparr>"
    by (simp add: link_serve_def turn_frame [OF assms(1)] assms(3) idle_link_def)
  have k: "unat (be32 (?n ! 0) (?n ! Suc 0) (?n ! 2) (?n ! 3)) = length ?b"
    using be32_of_bytes [OF doc(2)] unfolding One_nat_def .
  show ?thesis
    unfolding send_tls_request_def link_simps by (simp add: sent_frame serve l k doc del: be32_bytes_four)
qed

lemma lost:
  assumes "accepts json" "answer json s = None"
  shows "send_tls_request (link_ops turn) parse json (idle_link True s) = (Err (-223), idle_link False s)"
proof -
  have serve: "link_serve turn (idle_link True s\<lparr>lk_sent := frame json\<rparr>) = idle_link False s"
    by (simp add: link_serve_def turn_frame [OF assms(1)] assms(2) idle_link_def)
  show ?thesis
    unfolding send_tls_request_def link_simps by (simp add: sent_frame serve)
qed

lemma session:
  assumes "list_all accepts requests"
    and "up \<longrightarrow> list_all (printed text_of reply parse) (session_responses answer requests s)"
  shows "exchange_all (link_ops turn) parse requests (idle_link up s) =
    (case session_replies answer reply requests up s of (rs, up, s) \<Rightarrow> (rs, idle_link up s))"
  using assms
proof (induction requests arbitrary: up s)
  case Nil
  show ?case by simp
next
  case (Cons request requests)
  have f: "accepts request" and fs: "list_all accepts requests" using Cons.prems by simp_all
  have down: "False \<longrightarrow> list_all (printed text_of reply parse) (session_responses answer requests s)" for s by simp
  consider "\<not> up" | "up" "answer request s = None" | r go_on s1 where "up" "answer request s = Some (r, go_on, s1)"
    by (metis option.exhaust prod_cases3)
  then show ?case
  proof cases
    case 1
    then show ?thesis by (simp add: closed Cons.IH [OF fs down] split: prod.splits)
  next
    case 2
    then show ?thesis by (simp add: lost [OF f 2(2)] Cons.IH [OF fs down] split: prod.splits)
  next
    case 3
    have d: "printed text_of reply parse r"
      and ds: "go_on \<longrightarrow> list_all (printed text_of reply parse) (session_responses answer requests s1)"
      using Cons.prems(2) 3 by (simp_all split: if_splits)
    show ?thesis
      by (simp add: 3 answered [OF f d 3(2)] Cons.IH [OF fs ds] split: prod.splits)
  qed
qed

end

end
