(* ===== verification/NodeAttest.thy ===== *)
theory NodeAttest
  imports Ima Numbers
begin

text \<open>
  What a measured node collects for its attestation (\<open>src/src/exporters/utils.rs\<close> and
  \<open>src/src/tpm_attestation.rs\<close>): the platform registers, a measurement log that goes with PCR 10, the TPM
  quote, and the key sealed to the TPM. The operating system and tpm2-tools are parameters that answer as
  a function of everything the program has done to them so far; the model returns the program's steps.
  Messages printed for the operator and waiting times are left out.
\<close>

section \<open>The operating system\<close>

datatype os_step =
    ReadFile bytes
  | WriteFile bytes bytes
  | RemoveFile bytes
  | MakeDir bytes
  | LookUp bytes
  | Draw
  | Run "bytes list"

type_synonym history = "os_step list"

datatype error_kind = NotFound | PermissionDenied | InvalidData | OtherKind | OsKind

text \<open>An \<open>io::Error\<close>: its kind and text.\<close>

datatype node_error = NodeError error_kind bytes

record Node =
  nd_ima_path :: "bytes option"
  nd_platform_pcrs :: "bytes option"
  nd_tpm_path :: "bytes option"
  nd_canonicalize :: "bytes \<Rightarrow> bytes option"
  nd_exists :: "history \<Rightarrow> bytes \<Rightarrow> bool"
  nd_file :: "history \<Rightarrow> bytes \<Rightarrow> (bytes, bytes) result"
  nd_write :: "history \<Rightarrow> bytes \<Rightarrow> bytes \<Rightarrow> (bytes, unit) result"
  nd_remove :: "history \<Rightarrow> bytes \<Rightarrow> (bytes, unit) result"
  nd_mkdir :: "history \<Rightarrow> bytes \<Rightarrow> (bytes, unit) result"
  nd_random :: "history \<Rightarrow> bytes"
  nd_run :: "history \<Rightarrow> bytes list \<Rightarrow> (bytes, bool \<times> bytes \<times> bytes) result"
  nd_hexdec :: "bytes \<Rightarrow> (bytes, bytes) result"
  nd_sha :: "bytes \<Rightarrow> bytes"
  nd_pid :: nat

type_synonym 'a node_action = "history \<Rightarrow> (node_error, 'a) result \<times> history"

definition nreturn :: "'a \<Rightarrow> 'a node_action" where
  "nreturn x h = (Ok x, h)"

definition nfail :: "error_kind \<Rightarrow> bytes \<Rightarrow> 'a node_action" where
  "nfail k e h = (Err (NodeError k e), h)"

fun nthen :: "(node_error, 'a) result \<times> history \<Rightarrow> ('a \<Rightarrow> 'b node_action) \<Rightarrow> (node_error, 'b) result \<times> history" where
  "nthen (Err e, h) f = (Err e, h)"
| "nthen (Ok x, h) f = f x h"

lemma nthen_eq_Ok: "nthen r f = (Ok y, h') \<longleftrightarrow> (\<exists>x h. r = (Ok x, h) \<and> f x h = (Ok y, h'))"
  by (cases "(r, f)" rule: nthen.cases) auto

definition os_result :: "(bytes, 'a) result \<Rightarrow> (node_error, 'a) result" where
  "os_result r = (case r of Err e \<Rightarrow> Err (NodeError OsKind e) | Ok x \<Rightarrow> Ok x)"

text \<open>\<open>fs::read\<close> and \<open>fs::read_to_string\<close>.\<close>

definition read_bytes :: "Node \<Rightarrow> bytes \<Rightarrow> bytes node_action" where
  "read_bytes node path h = (os_result (nd_file node h path), h @ [ReadFile path])"

definition read_to_string :: "Node \<Rightarrow> bytes \<Rightarrow> bytes node_action" where
  "read_to_string node path h =
     (case nd_file node h path of
        Err e \<Rightarrow> Err (NodeError OsKind e)
      | Ok content \<Rightarrow>
          (if utf8_valid content then Ok content
           else Err (NodeError InvalidData (str ''stream did not contain valid UTF-8''))),
      h @ [ReadFile path])"

definition write_file :: "Node \<Rightarrow> bytes \<Rightarrow> bytes \<Rightarrow> unit node_action" where
  "write_file node path content h = (os_result (nd_write node h path content), h @ [WriteFile path content])"

definition remove_file :: "Node \<Rightarrow> bytes \<Rightarrow> unit node_action" where
  "remove_file node path h = (os_result (nd_remove node h path), h @ [RemoveFile path])"

definition create_dir_all :: "Node \<Rightarrow> bytes \<Rightarrow> unit node_action" where
  "create_dir_all node path h = (os_result (nd_mkdir node h path), h @ [MakeDir path])"

section \<open>Paths and registers\<close>

definition trim_slashes :: "bytes \<Rightarrow> bytes" where
  "trim_slashes s = rev (dropWhile (\<lambda>c. c = 47) (rev s))"

definition SECURITYFS :: bytes where
  "SECURITYFS = str ''/sys/kernel/security''"

text \<open>A canonical path starts with the directory component by component; another path is compared as text.\<close>

definition is_live_securityfs :: "Node \<Rightarrow> bytes \<Rightarrow> bool" where
  "is_live_securityfs node dir =
     (case nd_canonicalize node dir of
        Some p \<Rightarrow> p = SECURITYFS \<or> starts_with (SECURITYFS @ [47]) p
      | None \<Rightarrow> starts_with SECURITYFS (trim_slashes dir))"

definition parse_u8 :: "bytes \<Rightarrow> u8 option" where
  "parse_u8 s = (case parse_u64 s of Some v \<Rightarrow> (if v < 256 then Some (ucast v) else None) | None \<Rightarrow> None)"

definition platform_pcr_pair :: "Node \<Rightarrow> u8 \<times> u8" where
  "platform_pcr_pair node =
     (case nd_platform_pcrs node of
        None \<Rightarrow> (0, 7)
      | Some spec \<Rightarrow>
          (case map trim (split_on 44 spec) of
             [p, q] \<Rightarrow>
               (case (parse_u8 p, parse_u8 q) of
                  (Some a, Some b) \<Rightarrow> if a < 24 \<and> b < 24 then (a, b) else (0, 7)
                | _ \<Rightarrow> (0, 7))
           | _ \<Rightarrow> (0, 7)))"

definition strip_0x :: "bytes \<Rightarrow> bytes" where
  "strip_0x raw = (case strip_prefix (str ''0x'') (trim raw) of Some t \<Rightarrow> t | None \<Rightarrow> trim raw)"

definition pcr_path :: "u8 \<Rightarrow> bytes" where
  "pcr_path pcr = str ''/sys/class/tpm/tpm0/pcr-sha256/'' @ dec (unat pcr)"

section \<open>A snapshot of PCR 10\<close>

definition snapshot_pcr10 :: "Node \<Rightarrow> history \<Rightarrow> (bytes, bytes option) result \<times> history" where
  "snapshot_pcr10 node h =
     (case nd_ima_path node of
        None \<Rightarrow> (Ok None, h)
      | Some base \<Rightarrow>
          (let dir = trim_slashes base in
           if is_live_securityfs node dir then (Ok None, h)
           else
             (let pcr10_file = dir @ str ''/pcr10'' in
              case read_to_string node pcr10_file h of
                (Err (NodeError k e), h) \<Rightarrow>
                  (Err (str ''IMA_PATH='' @ base @ str '' is a snapshot directory but has no paired PCR10 at ''
                     @ pcr10_file @ str '' ('' @ e
                     @ str ''). A live PCR10 read is always newer than a snapshot, so the enclave could not reconcile them. Refresh the pair with: sudo scripts/ima_snapshot.sh ''
                     @ base), h)
              | (Ok raw, h) \<Rightarrow>
                  (case nd_hexdec node (strip_0x raw) of
                     Err e \<Rightarrow> (Err (pcr10_file @ str '' is not valid hex: '' @ e), h)
                   | Ok pcr10 \<Rightarrow>
                       (if length pcr10 \<noteq> 32 then
                          (Err (pcr10_file @ str '' holds '' @ dec (length pcr10)
                             @ str '' bytes; expected a 32-byte sha256 PCR10''), h)
                        else (Ok (Some pcr10), h))))))"

text \<open>The register's bytes are replaced in place; a slice of another length panics.\<close>

definition splice_pcr10 :: "bytes \<Rightarrow> bytes option \<Rightarrow> (bytes, bool \<times> bytes) result exec" where
  "splice_pcr10 pcr_values pcr10 =
     (case pcr10 of
        None \<Rightarrow> Done (Ok (False, pcr_values))
      | Some b \<Rightarrow>
          (if length pcr_values < 96 then
             Done (Err (str ''PCR blob is '' @ dec (length pcr_values)
               @ str '' bytes; expected at least 96 ([PCR0|PCR7|PCR10])''))
           else if length b \<noteq> 32 then Panic
           else Done (Ok (True, take 64 pcr_values @ b @ drop 96 pcr_values))))"

section \<open>A consistent snapshot of register and log\<close>

definition read_pcr :: "Node \<Rightarrow> u8 \<Rightarrow> history \<Rightarrow> bytes option \<times> history" where
  "read_pcr node pcr h =
     (case read_to_string node (pcr_path pcr) h of
        (Ok c, h) \<Rightarrow> (Some (strip_0x c), h)
      | (Err e, h) \<Rightarrow> (None, h))"

text \<open>The registers in order, concatenated, when all of them are hexadecimal.\<close>

fun decode_pcrs :: "Node \<Rightarrow> bytes list \<Rightarrow> bytes option" where
  "decode_pcrs node [] = Some []"
| "decode_pcrs node (t # ts) =
     (case nd_hexdec node t of
        Err e \<Rightarrow> None
      | Ok v \<Rightarrow> map_option (\<lambda>vs. v @ vs) (decode_pcrs node ts))"

definition collect_pcrs :: "Node \<Rightarrow> bytes \<Rightarrow> history \<Rightarrow> bytes option \<times> history" where
  "collect_pcrs node pcr10 h =
     (case read_pcr node (fst (platform_pcr_pair node)) h of
        (None, h) \<Rightarrow> (None, h)
      | (Some a, h) \<Rightarrow>
          (case read_pcr node (snd (platform_pcr_pair node)) h of
             (None, h) \<Rightarrow> (None, h)
           | (Some b, h) \<Rightarrow> (decode_pcrs node [a, b, pcr10], h)))"

definition ima_log_path :: "Node \<Rightarrow> bytes" where
  "ima_log_path node =
     (case nd_ima_path node of
        Some p \<Rightarrow> trim_slashes p @ str ''/ascii_runtime_measurements''
      | None \<Rightarrow> str ''/sys/kernel/security/ima/ascii_runtime_measurements'')"

definition with_log :: "(bytes option \<times> history) \<Rightarrow> bytes \<Rightarrow> (bytes \<times> bytes) option \<times> history" where
  "with_log r ima_log = (map_option (\<lambda>pcrs. (pcrs, ima_log)) (fst r), snd r)"

text \<open>The attempts on a live system: the log must lie between two equal readings of PCR 10.\<close>

fun snapshot_loop :: "Node \<Rightarrow> nat \<Rightarrow> history \<Rightarrow> (bytes \<times> bytes) option \<times> history" where
  "snapshot_loop node 0 h = (None, h)"
| "snapshot_loop node (Suc n) h =
     (case read_pcr node 10 h of
        (None, h) \<Rightarrow> (None, h)
      | (Some pcr10_before, h) \<Rightarrow>
          (case read_to_string node (ima_log_path node) h of
             (Err e, h) \<Rightarrow> (None, h)
           | (Ok ima_log, h) \<Rightarrow>
               (case read_pcr node 10 h of
                  (None, h) \<Rightarrow> (None, h)
                | (Some pcr10_after, h) \<Rightarrow>
                    (if pcr10_before \<noteq> pcr10_after then snapshot_loop node n h
                     else with_log (collect_pcrs node pcr10_after h) ima_log))))"

definition SNAPSHOT_ATTEMPTS :: nat where
  "SNAPSHOT_ATTEMPTS = 5"

definition read_consistent_ima_snapshot :: "Node \<Rightarrow> history \<Rightarrow> (bytes \<times> bytes) option \<times> history" where
  "read_consistent_ima_snapshot node h =
     (case nd_ima_path node of
        None \<Rightarrow> snapshot_loop node SNAPSHOT_ATTEMPTS h
      | Some dir \<Rightarrow>
          (case read_to_string node (trim_slashes dir @ str ''/pcr10'') h of
             (Err e, h) \<Rightarrow> snapshot_loop node SNAPSHOT_ATTEMPTS h
           | (Ok raw, h) \<Rightarrow>
               (case read_to_string node (ima_log_path node) h of
                  (Err e, h) \<Rightarrow> (None, h)
                | (Ok ima_log, h) \<Rightarrow> with_log (collect_pcrs node (strip_0x raw) h) ima_log)))"

definition exporter_read_ima_log :: "Node \<Rightarrow> history \<Rightarrow> bytes option \<times> history" where
  "exporter_read_ima_log node h =
     (case read_to_string node (ima_log_path node) h of
        (Ok c, h) \<Rightarrow> (Some c, h)
      | (Err e, h) \<Rightarrow> (None, h))"

section \<open>The TPM quote\<close>

definition tpm_dir :: "Node \<Rightarrow> bytes" where
  "tpm_dir node = (case nd_tpm_path node of Some d \<Rightarrow> d | None \<Rightarrow> str ''/var/lib/scaphandre/tpm'')"

definition quoted_pcrs :: "Node \<Rightarrow> u8 list" where
  "quoted_pcrs node = (let (a, b) = platform_pcr_pair node in [a, b, 10])"

text \<open>A run of a tool: it cannot be started, fails with a message, or prints its output.\<close>

definition run_tool :: "Node \<Rightarrow> bytes list \<Rightarrow> bytes \<Rightarrow> bytes \<Rightarrow> bytes node_action" where
  "run_tool node args not_run failed h =
     (case nd_run node h args of
        Err e \<Rightarrow> Err (NodeError OtherKind (not_run @ e))
      | Ok (success, stdout, stderr) \<Rightarrow>
          (if success then Ok stdout else Err (NodeError OtherKind (failed @ utf8_lossy stderr))),
      h @ [Run args])"

fun join_commas :: "bytes list \<Rightarrow> bytes" where
  "join_commas [] = []"
| "join_commas [x] = x"
| "join_commas (x # y # xs) = x @ [44] @ join_commas (y # xs)"

definition quote_pcr_digest_matches :: "Node \<Rightarrow> bytes \<Rightarrow> bytes \<Rightarrow> bool" where
  "quote_pcr_digest_matches node attest pcr_values =
     (if length attest < 34 \<or> pcr_values = [] then False
      else drop (length attest - 32) attest = nd_sha node pcr_values)"

text \<open>The registers as the kernel shows them, each of 32 bytes.\<close>

fun read_quoted_pcrs :: "Node \<Rightarrow> u8 list \<Rightarrow> bytes \<Rightarrow> history \<Rightarrow> bytes option \<times> history" where
  "read_quoted_pcrs node [] pcr_values h = (Some pcr_values, h)"
| "read_quoted_pcrs node (p # ps) pcr_values h =
     (case read_to_string node (pcr_path p) h of
        (Err e, h) \<Rightarrow> (None, h)
      | (Ok s, h) \<Rightarrow>
          (case nd_hexdec node (trim s) of
             Ok b \<Rightarrow> (if length b = 32 then read_quoted_pcrs node ps (pcr_values @ b) h else (None, h))
           | Err e \<Rightarrow> (None, h)))"

definition quote_args :: "Node \<Rightarrow> bytes \<Rightarrow> bytes list" where
  "quote_args node nonce_hex =
     [str ''tpm2_quote'', str ''-c'', tpm_dir node @ str ''/ak.ctx'', str ''-l'',
      str ''sha256:'' @ join_commas (map (\<lambda>p. dec (unat p)) (quoted_pcrs node)), str ''-q'', nonce_hex,
      str ''-m'', tpm_dir node @ str ''/quote.msg'', str ''-s'', tpm_dir node @ str ''/quote.sig'',
      str ''-g'', str ''sha256'']"

text \<open>One attempt: nothing when PCR 10 moved between the reading and the quote.\<close>

definition quote_attempt :: "Node \<Rightarrow> bytes \<Rightarrow> (bytes \<times> bytes \<times> bytes) option node_action" where
  "quote_attempt node nonce_hex h =
     (case read_quoted_pcrs node (quoted_pcrs node) [] h of
        (None, h) \<Rightarrow> nfail OtherKind (str ''could not read PCR sysfs values'') h
      | (Some pcr_values, h) \<Rightarrow>
          nthen (run_tool node (quote_args node nonce_hex) (str ''tpm2_quote failed to run: '')
                   (str ''tpm2_quote failed: '') h) (\<lambda>_ h.
          nthen (read_bytes node (tpm_dir node @ str ''/quote.msg'') h) (\<lambda>attest h.
          nthen (read_bytes node (tpm_dir node @ str ''/quote.sig'') h) (\<lambda>signature h.
            nreturn (if quote_pcr_digest_matches node attest pcr_values
                     then Some (pcr_values, attest, signature) else None) h))))"

fun quote_loop :: "Node \<Rightarrow> bytes \<Rightarrow> nat \<Rightarrow> (bytes \<times> bytes \<times> bytes) node_action" where
  "quote_loop node nonce_hex 0 h =
     nfail OtherKind (str ''PCR values kept changing while quoting (40 attempts). The node is measuring files continuously; retry when it is quieter.'') h"
| "quote_loop node nonce_hex (Suc n) h =
     nthen (quote_attempt node nonce_hex h) (\<lambda>q h.
       case q of Some r \<Rightarrow> nreturn r h | None \<Rightarrow> quote_loop node nonce_hex n h)"

definition QUOTE_ATTEMPTS :: nat where
  "QUOTE_ATTEMPTS = 40"

definition no_ak_text :: "bytes \<Rightarrow> bytes" where
  "no_ak_text dir =
     (let ak_ctx = dir @ str ''/ak.ctx'' in
      str ''no Attestation Key at '' @ ak_ctx @ str ''. Create one once per machine:'' @ [10]
      @ str '' tpm2_createek -c '' @ dir @ str ''/ek.ctx -G rsa -u '' @ dir @ str ''/ek.pub'' @ [10]
      @ str '' tpm2_createak -C '' @ dir @ str ''/ek.ctx -c '' @ ak_ctx
      @ str '' -G rsa -g sha256 -s rsassa -u '' @ dir @ str ''/ak.pub -f pem'' @ [10]
      @ str ''then register its public key so the enclave will trust it (scripts/register_ak.sh).'')"

definition generate_signed_quote :: "Node \<Rightarrow> bytes \<Rightarrow> (bytes \<times> bytes \<times> bytes) node_action" where
  "generate_signed_quote node nonce_hex h =
     (let ak_ctx = tpm_dir node @ str ''/ak.ctx''; h1 = h @ [LookUp ak_ctx]
      in if \<not> nd_exists node h ak_ctx then nfail NotFound (no_ak_text (tpm_dir node)) h1
         else quote_loop node nonce_hex QUOTE_ATTEMPTS h1)"

section \<open>The boot evidence of a host\<close>

record AttestationQuote =
  aq_pcr_values :: bytes
  aq_quote_signature :: bytes
  aq_attestation_data :: bytes
  aq_ima_log :: bytes

definition read_ima_log :: "Node \<Rightarrow> bytes node_action" where
  "read_ima_log node h =
     (let base = (case nd_ima_path node of Some p \<Rightarrow> p | None \<Rightarrow> str ''/sys/kernel/security/ima'');
          path = base @ str ''/ascii_runtime_measurements''
      in case read_to_string node path h of
           (Err (NodeError k e), h) \<Rightarrow>
             nfail PermissionDenied (str ''Failed to read IMA log from '' @ path @ str '': '' @ e) h
         | (Ok content, h) \<Rightarrow> nreturn content h)"

definition pcrs_file :: "Node \<Rightarrow> bytes" where
  "pcrs_file node = tpm_dir node @ str ''/pcrs-'' @ dec (nd_pid node) @ str ''.bin''"

definition pcrread_args :: "Node \<Rightarrow> bytes list" where
  "pcrread_args node =
     (let (a, b) = platform_pcr_pair node in
      [str ''tpm2_pcrread'', str ''-o'', pcrs_file node,
       str ''sha256:'' @ dec (unat a) @ [44] @ dec (unat b) @ str '',10''])"

text \<open>A failing reading removes the file before it returns; a file that cannot be read stays.\<close>

definition read_pcr_file :: "Node \<Rightarrow> bytes node_action" where
  "read_pcr_file node h =
     (let h = snd (create_dir_all node (tpm_dir node) h) in
      case nd_run node h (pcrread_args node) of
        Err e \<Rightarrow> nfail OtherKind (str ''Failed to read PCRs: '' @ e) (h @ [Run (pcrread_args node)])
      | Ok (success, stdout, stderr) \<Rightarrow>
          (let h = h @ [Run (pcrread_args node)] in
           if \<not> success then
             nfail OtherKind (str ''tpm2_pcrread failed: '' @ utf8_lossy stderr)
               (snd (remove_file node (pcrs_file node) h))
           else
             (case read_bytes node (pcrs_file node) h of
                (Err (NodeError k e), h) \<Rightarrow> nfail OtherKind (str ''Failed to read PCR file: '' @ e) h
              | (Ok v, h) \<Rightarrow> nreturn v (snd (remove_file node (pcrs_file node) h)))))"

definition generate_tpm_quote :: "Node \<Rightarrow> history \<Rightarrow> ((node_error, AttestationQuote) result \<times> history) exec" where
  "generate_tpm_quote node h =
     (case read_pcr_file node h of
        (Err e, h) \<Rightarrow> Done (Err e, h)
      | (Ok pcr_values, h) \<Rightarrow>
          (case snapshot_pcr10 node h of
             (Err e, h) \<Rightarrow> Done (nfail InvalidData e h)
           | (Ok snapshot, h) \<Rightarrow>
               (case read_ima_log node h of
                  (Err e, h) \<Rightarrow> Done (Err e, h)
                | (Ok ima_log, h) \<Rightarrow>
                    and_then (splice_pcr10 pcr_values snapshot) (\<lambda>r.
                      case r of
                        Err e \<Rightarrow> Done (nfail InvalidData e h)
                      | Ok (spliced, pcr_values) \<Rightarrow>
                          Done (nreturn \<lparr>aq_pcr_values = pcr_values, aq_quote_signature = [],
                            aq_attestation_data = [], aq_ima_log = ima_log\<rparr> h)))))"

section \<open>The sealed key\<close>

definition UNSEAL_ATTEMPTS :: nat where
  "UNSEAL_ATTEMPTS = 12"

text \<open>
  A message that the registers moved is worth another attempt. The letters of the text searched for are the
  lower case of their ASCII capitals only, so \<open>to_lowercase\<close> is that of ASCII here.
\<close>

definition moved_under_policy :: "bytes \<Rightarrow> bool" where
  "moved_under_policy message \<longleftrightarrow>
     contains (str ''0x00000128'') message \<or> contains (str ''pcr have changed'') (to_lower message)"

definition unseal_args :: "bytes \<Rightarrow> bytes \<Rightarrow> bytes list" where
  "unseal_args sealed_ctx pcr_spec = [str ''tpm2_unseal'', str ''-c'', sealed_ctx, str ''-p'', pcr_spec]"

fun unseal_loop :: "Node \<Rightarrow> bytes \<Rightarrow> bytes \<Rightarrow> bytes \<Rightarrow> nat \<Rightarrow> bytes \<Rightarrow> bytes node_action" where
  "unseal_loop node sealed_ctx pcr_spec tag 0 last_error h =
     nfail OtherKind (tag @ str '' unseal lost the TPM pcrUpdateCounter race 12 times in a row. This is NOT a boot-state mismatch: the policy digest matched, but IMA extended a PCR between the policy check and the unseal each time. The node is measuring files unusually fast.''
       @ [10] @ last_error) h"
| "unseal_loop node sealed_ctx pcr_spec tag (Suc n) last_error h =
     (case nd_run node h (unseal_args sealed_ctx pcr_spec) of
        Err e \<Rightarrow> nfail OtherKind (str ''Failed to run tpm2_unseal: '' @ e) (h @ [Run (unseal_args sealed_ctx pcr_spec)])
      | Ok (success, stdout, stderr) \<Rightarrow>
          (let h = h @ [Run (unseal_args sealed_ctx pcr_spec)]; message = utf8_lossy stderr in
           if success then nreturn stdout h
           else if \<not> moved_under_policy message then
             nfail PermissionDenied (tag @ str '' unseal FAILED - PCR values do not match the sealed policy, i.e. the boot state genuinely differs from when the key was sealed.''
               @ [10] @ message) h
           else unseal_loop node sealed_ctx pcr_spec tag n message h))"

definition unseal_with_pcr_policy :: "Node \<Rightarrow> bytes \<Rightarrow> bytes \<Rightarrow> bytes \<Rightarrow> bytes node_action" where
  "unseal_with_pcr_policy node sealed_ctx pcr_spec tag h =
     unseal_loop node sealed_ctx pcr_spec tag UNSEAL_ATTEMPTS [] h"

definition in_tpm_dir :: "Node \<Rightarrow> string \<Rightarrow> bytes" where
  "in_tpm_dir node file = tpm_dir node @ [47] @ str file"

definition createprimary_args :: "Node \<Rightarrow> bytes list" where
  "createprimary_args node =
     [str ''tpm2_createprimary'', str ''-C'', str ''o'', str ''-g'', str ''sha256'', str ''-G'', str ''rsa'',
      str ''-c'', in_tpm_dir node ''primary.ctx'']"

definition createpolicy_args :: "Node \<Rightarrow> bytes list" where
  "createpolicy_args node =
     [str ''tpm2_createpolicy'', str ''--policy-pcr'', str ''-l'', str ''sha256:0,7'', str ''-L'',
      in_tpm_dir node ''pcr.policy'']"

definition create_args :: "Node \<Rightarrow> bytes list" where
  "create_args node =
     [str ''tpm2_create'', str ''-C'', in_tpm_dir node ''primary.ctx'', str ''-g'', str ''sha256'',
      str ''-i'', in_tpm_dir node ''hmac_key_temp.bin'', str ''-r'', in_tpm_dir node ''hmac_key_sealed.bin'',
      str ''-u'', in_tpm_dir node ''hmac_key.pub'', str ''-L'', in_tpm_dir node ''pcr.policy'',
      str ''-a'', str ''fixedtpm|fixedparent'']"

definition load_args :: "Node \<Rightarrow> bytes list" where
  "load_args node =
     [str ''tpm2_load'', str ''-C'', in_tpm_dir node ''primary.ctx'', str ''-r'',
      in_tpm_dir node ''hmac_key_sealed.bin'', str ''-u'', in_tpm_dir node ''hmac_key.pub'',
      str ''-c'', in_tpm_dir node ''sealed_key.ctx'']"

definition create_and_seal_key_via_tpm2tools :: "Node \<Rightarrow> bytes node_action" where
  "create_and_seal_key_via_tpm2tools node h =
     (let key = nd_random node h; temp = in_tpm_dir node ''hmac_key_temp.bin'' in
      nthen (create_dir_all node (tpm_dir node) (h @ [Draw])) (\<lambda>_ h.
      nthen (write_file node temp key h) (\<lambda>_ h.
      nthen (run_tool node (createprimary_args node) (str ''Failed to run tpm2_createprimary: '')
               (str ''tpm2_createprimary failed: '') h) (\<lambda>_ h.
      nthen (run_tool node (createpolicy_args node) (str ''Failed to run tpm2_createpolicy: '')
               (str ''tpm2_createpolicy failed: '') h) (\<lambda>_ h.
      nthen (run_tool node (create_args node) (str ''Failed to run tpm2_create: '')
               (str ''tpm2_create failed: '') h) (\<lambda>_ h.
      nthen (remove_file node temp h) (\<lambda>_ h. nreturn key h)))))))"

text \<open>Host and guest load and unseal alike; only the texts differ: \<open>v\<close> stands before a tool's name, \<open>tag\<close> in the messages.\<close>

definition load_and_unseal :: "Node \<Rightarrow> string \<Rightarrow> string \<Rightarrow> bytes node_action" where
  "load_and_unseal node v tag h =
     nthen (run_tool node (createprimary_args node) (str ''Failed to run tpm2_createprimary: '')
              (str v @ str ''tpm2_createprimary failed: '') h) (\<lambda>_ h.
     nthen (run_tool node (load_args node) (str ''Failed to run tpm2_load: '')
              (str v @ str ''tpm2_load failed: '') h) (\<lambda>_ h.
     nthen (unseal_with_pcr_policy node (in_tpm_dir node ''sealed_key.ctx'') (str ''pcr:sha256:0,7'') (str tag) h) (\<lambda>key h.
       if length key \<noteq> 32 then
         nfail InvalidData (str ''Unsealed key has wrong length: '' @ dec (length key) @ str '' bytes (expected 32)'') h
       else nreturn key h)))"

definition unseal_hmac_key_via_tpm2tools :: "Node \<Rightarrow> bytes node_action" where
  "unseal_hmac_key_via_tpm2tools node h = load_and_unseal node '''' ''TPM'' h"

definition unseal_hmac_key_vm_with_policy_session :: "Node \<Rightarrow> bytes node_action" where
  "unseal_hmac_key_vm_with_policy_session node h = load_and_unseal node ''v'' ''vTPM'' h"

section \<open>Starting in a virtual machine\<close>

fun detect_paths :: "Node \<Rightarrow> bytes list \<Rightarrow> history \<Rightarrow> bool \<times> history" where
  "detect_paths node [] h = (False, h)"
| "detect_paths node (p # ps) h =
     (let h1 = h @ [LookUp p] in
      if nd_exists node h p then
        (let h2 = h1 @ [Run [str ''dmesg'', str ''|'', str ''grep'', str ''-i'', str ''tpm'']] in
         (True,
          case nd_run node h1 [str ''dmesg'', str ''|'', str ''grep'', str ''-i'', str ''tpm''] of
            Ok (success, stdout, stderr) \<Rightarrow>
              (if contains (str ''vtpm'') (utf8_lossy stdout) \<or> contains (str ''virtual'') (utf8_lossy stdout) then h2
               else snd (read_to_string node (str ''/sys/class/tpm/tpm0/device/manufacturer'') h2))
          | Err e \<Rightarrow> snd (read_to_string node (str ''/sys/class/tpm/tpm0/device/manufacturer'') h2)))
      else detect_paths node ps h1)"

definition detect_vtpm :: "Node \<Rightarrow> history \<Rightarrow> bool \<times> history" where
  "detect_vtpm node h =
     detect_paths node [str ''/dev/tpm0'', str ''/dev/tpmrm0'', str ''/sys/class/tpm/tpm0''] h"

definition read_and_display_pcrs :: "Node \<Rightarrow> unit node_action" where
  "read_and_display_pcrs node h =
     nthen (run_tool node [str ''tpm2_pcrread'', str ''sha256:0,7,10''] (str ''Failed to run tpm2_pcrread: '')
              (str ''tpm2_pcrread failed: '') h) (\<lambda>_ h. nreturn () h)"

text \<open>The key of a host or guest: the sealed one when there is one, otherwise a new one.\<close>

definition obtain_key :: "Node \<Rightarrow> bytes node_action \<Rightarrow> bytes node_action" where
  "obtain_key node unseal h =
     (let path = in_tpm_dir node ''hmac_key_sealed.bin''; h1 = h @ [LookUp path]
      in if nd_exists node h path then unseal h1 else create_and_seal_key_via_tpm2tools node h1)"

text \<open>In a guest every failure only costs the key.\<close>

definition new_vm_mode :: "Node \<Rightarrow> history \<Rightarrow> (bytes option \<times> history) exec" where
  "new_vm_mode node h =
     (case detect_vtpm node h of
        (False, h) \<Rightarrow> Done (None, h)
      | (True, h) \<Rightarrow>
          (case read_and_display_pcrs node h of
             (Err e, h) \<Rightarrow> Done (None, h)
           | (Ok _, h) \<Rightarrow>
               and_then (generate_tpm_quote node h) (\<lambda>q.
                 case q of
                   (Err e, h) \<Rightarrow> Done (None, h)
                 | (Ok _, h) \<Rightarrow>
                     (case obtain_key node (unseal_hmac_key_vm_with_policy_session node) h of
                        (Ok key, h) \<Rightarrow> Done (Some key, h)
                      | (Err e, h) \<Rightarrow> Done (None, h)))))"

section \<open>The snapshot goes with its log\<close>

text \<open>
  A node with a live measurement list: at every moment the log is a sequence of whole lines that only grows,
  PCR 10 is the replay of the log's entries, and the kernel shows registers as lower-case hexadecimal lines.
\<close>

definition live_node :: "Node \<Rightarrow> (history \<Rightarrow> bytes) \<Rightarrow> bool" where
  "live_node node L \<longleftrightarrow>
     (\<forall>t. nd_hexdec node t = (case hex_pairs t of Some b \<Rightarrow> Ok b | None \<Rightarrow> Err [])) \<and>
     (\<forall>x. length (nd_sha node x) = 32) \<and>
     (\<forall>h. nd_file node h (ima_log_path node) = Ok (L h) \<and> utf8_valid (L h) \<and> L h \<noteq> [] \<and> last (L h) = 10) \<and>
     (\<forall>h s. \<exists>more. L (h @ s) = L h @ more) \<and>
     (\<forall>h. \<exists>records. parse_ima_log (nd_sha node) (L h) = Ok records \<and>
        (let pcr10 = spec_replay (nd_sha node) (map ir_extend_digest records) (length records)
         in pcr10 \<noteq> spec_zero32 \<and> nd_file node h (pcr_path 10) = Ok (hex_lower pcr10 @ [10]))) \<and>
     (\<forall>h p. p \<noteq> 10 \<longrightarrow> (\<exists>v. length v = 32 \<and> nd_file node h (pcr_path p) = Ok (hex_lower v @ [10])))"

lemma hex_line_valid: "utf8_valid (hex_lower v @ [10])"
  using hex_lower_range by (intro ascii_valid) (auto simp: list_all_iff)

lemma trim_line: "s \<noteq> [] \<Longrightarrow> graphic (hd s) \<Longrightarrow> graphic (last s) \<Longrightarrow> trim (s @ [10]) = s"
proof -
  assume s: "s \<noteq> []" "graphic (hd s)" "graphic (last s)"
  have nl: "ws_head (map rev ws_codes) (10 # r) = 1" for r by (simp add: ws_codes_def starts_with_def)
  have "trim_start (s @ [10]) = s @ [10]" using s by (cases s) (simp_all add: trim_start_def strip_ws.simps)
  moreover have "trim_end (s @ [10]) = s"
    using s by (cases s rule: rev_cases) (simp_all add: trim_end_def strip_ws.simps nl ws_head_rev_graphic)
  ultimately show ?thesis by (simp add: trim_def)
qed

lemma hex_line:
  assumes "v \<noteq> []"
  shows "trim (hex_lower v @ [10]) = hex_lower v" "strip_0x (hex_lower v @ [10]) = hex_lower v"
proof -
  obtain b bs where v: "v = b # bs" using assms by (cases v) auto
  show t: "trim (hex_lower v @ [10]) = hex_lower v"
    using hex_lower_range [of _ v] by (intro trim_line) (auto simp: v)
  have "\<not> starts_with (str ''0x'') (hex_lower v)"
    using hex_digit_range [of "b mod 16"] byte_div_mod_16 [of b] by (auto simp: v starts_with_def str_def)
  then show "strip_0x (hex_lower v @ [10]) = hex_lower v" by (simp add: strip_0x_def t strip_prefix_def)
qed

lemma trim_hex_lower: "v \<noteq> [] \<Longrightarrow> trim (hex_lower v) = hex_lower v"
  using hex_lower_range [of _ v] by (intro trim_graphic) (cases v; auto)+

lemma read_pcr_line:
  assumes "nd_file node h (pcr_path p) = Ok (hex_lower v @ [10])" "v \<noteq> []"
  shows "read_pcr node p h = (Some (hex_lower v), h @ [ReadFile (pcr_path p)])"
  using assms by (simp add: read_pcr_def read_to_string_def hex_line_valid hex_line)

lemma split_inclusive_Nil: "split_inclusive c xs = [] \<longleftrightarrow> xs = []"
  by (cases xs) (auto split: list.splits)

lemma split_inclusive_append:
  "xs = [] \<or> last xs = c \<Longrightarrow> split_inclusive c (xs @ ys) = split_inclusive c xs @ split_inclusive c ys"
  by (induction xs) (auto simp: split_inclusive_Nil split: list.splits if_splits)

lemma parse_longer_log:
  assumes "parse_ima_log sha a = Ok records" "parse_ima_log sha (a @ b) = Ok records'" "last a = 10"
  shows "\<exists>added. records' = records @ added"
proof -
  have "parse_segments sha (split_inclusive 10 a) 0 [] = Ok records" using assms(1) by (simp add: parse_ima_log_def)
  moreover have "split_inclusive 10 (a @ b) = split_inclusive 10 a @ split_inclusive 10 b"
    using assms(3) by (simp add: split_inclusive_append)
  ultimately have "parse_segments sha (split_inclusive 10 b) (length a) records = Ok records'"
    using assms(2) by (simp add: parse_ima_log_def parse_segments_append)
  from parse_segments_points [OF this] show ?thesis by blast
qed

lemma spec_replay_take: "n \<le> length ds \<Longrightarrow> spec_replay sha (ds @ es) n = spec_replay sha ds n"
  by (simp add: spec_replay_fold)

lemma reconcile_growing:
  assumes "\<forall>x. length (sha x) = 32" "parse_ima_log sha ima_log = Ok (records @ added)"
    and pcr10: "pcr10 = spec_replay sha (map ir_extend_digest records) (length records)" "pcr10 \<noteq> spec_zero32"
  shows "\<exists>att. guest_verify_ima_log sha hex_pairs ima_log (hex_lower pcr10) = Ok att \<and>
    host_verify_ima_log sha ima_log (hex_lower pcr10) = Ok att \<and> ia_entries_total att = length (records @ added)"
proof -
  have l: "length pcr10 = 32" using assms(1) length_spec_replay by (simp add: pcr10(1))
  then have ne: "pcr10 \<noteq> []" by auto
  let ?ds = "map ir_extend_digest (records @ added)"
  have "spec_replay sha ?ds (length records) = pcr10"
    using spec_replay_take [of "length records" "map ir_extend_digest records"] by (simp add: pcr10(1))
  then have "\<exists>n \<le> length ?ds. spec_replay sha ?ds n = pcr10" by (intro exI [of _ "length records"]) simp
  then obtain n where n: "replay_find_prefix sha ?ds pcr10 = Some n"
    unfolding replay_find_prefix_least [OF assms(1) l, of ?ds] by simp
  have "n \<noteq> 0" using replay_find_prefix_Some [OF assms(1) l n] pcr10(2) by (cases n) auto
  moreover have "records \<noteq> []" using pcr10 by auto
  ultimately have h: "\<exists>att. host_verify_ima_log sha ima_log (hex_lower pcr10) = Ok att \<and>
      ia_entries_total att = length (records @ added)"
    using n l assms(2) trim_hex_lower [OF ne]
    by (simp add: host_verify_ima_log_def reconcile_ima_against_pcr10_def refines hex_pairs_lower Let_def)
  moreover have "\<exists>t. hex_pairs (trim (hex_lower pcr10)) = Some t \<and> length t = 32"
    using l trim_hex_lower [OF ne] by (simp add: hex_pairs_lower)
  ultimately show ?thesis by (simp add: guest_verify_host)
qed

lemma live_facts:
  assumes "live_node node L"
  shows "\<exists>pcr.
    (\<forall>h p. length (pcr h p) = 32 \<and>
       read_pcr node p h = (Some (hex_lower (pcr h p)), h @ [ReadFile (pcr_path p)])) \<and>
    (\<forall>h. read_to_string node (ima_log_path node) h = (Ok (L h), h @ [ReadFile (ima_log_path node)]) \<and>
       (\<exists>records. parse_ima_log (nd_sha node) (L h) = Ok records \<and> pcr h 10 \<noteq> spec_zero32 \<and>
          pcr h 10 = spec_replay (nd_sha node) (map ir_extend_digest records) (length records)))"
proof -
  define pcr where "pcr h p = (SOME v. length v = 32 \<and> nd_file node h (pcr_path p) = Ok (hex_lower v @ [10]))" for h p
  have ex: "\<exists>v. length v = 32 \<and> nd_file node h (pcr_path p) = Ok (hex_lower v @ [10])" for h p
    using assms length_spec_replay [of "nd_sha node"] unfolding live_node_def Let_def by (cases "p = 10") blast+
  have pcr: "length (pcr h p) = 32 \<and> nd_file node h (pcr_path p) = Ok (hex_lower (pcr h p) @ [10])" for h p
    unfolding pcr_def by (rule someI_ex [OF ex])
  have ne: "pcr h p \<noteq> []" for h p using pcr [of h p] by auto
  have inj: "v = w" if "hex_lower v @ [10] = hex_lower w @ [10]" for v w
  proof -
    have "hex_lower v = hex_lower w" using that by simp
    then show ?thesis by (metis hex_pairs_lower option.inject)
  qed
  have "read_pcr node p h = (Some (hex_lower (pcr h p)), h @ [ReadFile (pcr_path p)])" for h p
    using read_pcr_line [of node h p "pcr h p"] pcr ne by blast
  moreover have "read_to_string node (ima_log_path node) h = (Ok (L h), h @ [ReadFile (ima_log_path node)])" for h
    using assms by (simp add: live_node_def read_to_string_def)
  moreover have "\<exists>records. parse_ima_log (nd_sha node) (L h) = Ok records \<and> pcr h 10 \<noteq> spec_zero32 \<and>
      pcr h 10 = spec_replay (nd_sha node) (map ir_extend_digest records) (length records)" for h
  proof -
    from assms obtain records where r: "parse_ima_log (nd_sha node) (L h) = Ok records"
      "spec_replay (nd_sha node) (map ir_extend_digest records) (length records) \<noteq> spec_zero32"
      "nd_file node h (pcr_path 10) =
         Ok (hex_lower (spec_replay (nd_sha node) (map ir_extend_digest records) (length records)) @ [10])"
      unfolding live_node_def Let_def by meson
    have "pcr h 10 = spec_replay (nd_sha node) (map ir_extend_digest records) (length records)"
    proof (rule inj)
      show "hex_lower (pcr h 10) @ [10] =
          hex_lower (spec_replay (nd_sha node) (map ir_extend_digest records) (length records)) @ [10]"
        using conjunct2 [OF pcr [of h 10]] r(3) by (metis result.inject(2))
    qed
    with r(1,2) show ?thesis by (intro exI [of _ records]) simp
  qed
  ultimately show ?thesis using pcr by (intro exI [of _ pcr]) blast
qed

definition reconciles :: "Node \<Rightarrow> bytes \<Rightarrow> bytes \<Rightarrow> bool" where
  "reconciles node pcrs ima_log \<longleftrightarrow> length pcrs = 96 \<and>
     (\<exists>att. guest_verify_ima_log (nd_sha node) hex_pairs ima_log (hex_lower (drop 64 pcrs)) = Ok att \<and>
        host_verify_ima_log (nd_sha node) ima_log (hex_lower (drop 64 pcrs)) = Ok att)"

lemma snapshot_loop_live:
  assumes "live_node node L"
  shows "case snapshot_loop node n h of
      (Some (pcrs, ima_log), h') \<Rightarrow> reconciles node pcrs ima_log
    | (None, h') \<Rightarrow> n = 0 \<or> (\<exists>h1 h2. L h1 \<noteq> L h2)"
proof -
  obtain pcr where facts: "\<forall>h p. length (pcr h p) = 32 \<and>
       read_pcr node p h = (Some (hex_lower (pcr h p)), h @ [ReadFile (pcr_path p)])"
    "\<forall>h. read_to_string node (ima_log_path node) h = (Ok (L h), h @ [ReadFile (ima_log_path node)]) \<and>
       (\<exists>records. parse_ima_log (nd_sha node) (L h) = Ok records \<and> pcr h 10 \<noteq> spec_zero32 \<and>
          pcr h 10 = spec_replay (nd_sha node) (map ir_extend_digest records) (length records))"
    using live_facts [OF assms] by blast
  then have pcr: "\<And>h p. length (pcr h p) = 32"
    "\<And>h p. read_pcr node p h = (Some (hex_lower (pcr h p)), h @ [ReadFile (pcr_path p)])"
    "\<And>h. read_to_string node (ima_log_path node) h = (Ok (L h), h @ [ReadFile (ima_log_path node)])"
    "\<And>h. \<exists>records. parse_ima_log (nd_sha node) (L h) = Ok records \<and> pcr h 10 \<noteq> spec_zero32 \<and>
      pcr h 10 = spec_replay (nd_sha node) (map ir_extend_digest records) (length records)"
    by blast+
  have live: "\<And>h s. \<exists>more. L (h @ s) = L h @ more" "\<And>h. last (L h) = 10" "\<forall>x. length (nd_sha node x) = 32"
    "\<And>v. nd_hexdec node (hex_lower v) = Ok v"
    using assms by (auto simp: live_node_def hex_pairs_lower)
  have "case snapshot_loop node n h of
      (Some (pcrs, ima_log), h') \<Rightarrow> reconciles node pcrs ima_log
    | (None, h') \<Rightarrow> n = 0 \<or> (\<exists>h1 h2. pcr h1 10 \<noteq> pcr h2 10)"
  proof (induction n arbitrary: h)
    case (Suc n)
    let ?h1 = "h @ [ReadFile (pcr_path 10)]"
    let ?h2 = "?h1 @ [ReadFile (ima_log_path node)]"
    show ?case
    proof (cases "pcr h 10 = pcr ?h2 10")
      case False
      then have "hex_lower (pcr h 10) \<noteq> hex_lower (pcr ?h2 10)" by (metis hex_pairs_lower option.inject)
      then have loop: "snapshot_loop node (Suc n) h = snapshot_loop node n (?h2 @ [ReadFile (pcr_path 10)])"
        by (simp add: pcr(2,3))
      show ?thesis using Suc.IH [of "?h2 @ [ReadFile (pcr_path 10)]"] False
        unfolding loop by (auto split: prod.splits option.splits)
    next
      case True
      obtain a b where p: "platform_pcr_pair node = (a, b)" by fastforce
      let ?h3 = "?h2 @ [ReadFile (pcr_path 10)]"
      let ?v = "pcr ?h3 a @ pcr (?h3 @ [ReadFile (pcr_path a)]) b @ pcr h 10"
      have loop: "fst (snapshot_loop node (Suc n) h) = Some (?v, L ?h1)"
        using True by (simp add: pcr(2,3) with_log_def collect_pcrs_def p live(4))
      obtain records where r: "parse_ima_log (nd_sha node) (L h) = Ok records" "pcr h 10 \<noteq> spec_zero32"
        "pcr h 10 = spec_replay (nd_sha node) (map ir_extend_digest records) (length records)"
        using pcr(4) [of h] by blast
      obtain records' where r': "parse_ima_log (nd_sha node) (L ?h1) = Ok records'" using pcr(4) [of ?h1] by blast
      obtain more_log where m: "L ?h1 = L h @ more_log" using live(1) by blast
      from parse_longer_log [OF r(1) _ live(2)] r' obtain added where "records' = records @ added"
        unfolding m by blast
      with reconcile_growing [OF live(3) _ r(3,2), of "L ?h1" added] r' have
        "\<exists>att. guest_verify_ima_log (nd_sha node) hex_pairs (L ?h1) (hex_lower (pcr h 10)) = Ok att \<and>
           host_verify_ima_log (nd_sha node) (L ?h1) (hex_lower (pcr h 10)) = Ok att" by blast
      then have "reconciles node ?v (L ?h1)" by (simp add: reconciles_def pcr(1))
      then show ?thesis using loop by (auto split: prod.splits option.splits)
    qed
  qed simp
  moreover have "\<exists>h1 h2. L h1 \<noteq> L h2" if "pcr h1 10 \<noteq> pcr h2 10" for h1 h2
    using that pcr(4) [of h1] pcr(4) [of h2] by (intro exI [of _ h1] exI [of _ h2]) auto
  ultimately show ?thesis by (auto split: prod.splits option.splits)
qed


text \<open>A quiet node.\<close>

definition demo_evidence :: Node where
  "demo_evidence =
     \<lparr>nd_ima_path = None, nd_platform_pcrs = None, nd_tpm_path = None, nd_canonicalize = Some,
      nd_exists = (\<lambda>h p. True),
      nd_file = (\<lambda>h p. if p = str ''/sys/kernel/security/ima/ascii_runtime_measurements'' then Ok (demo_log @ [10])
        else if p = pcr_path 10 then Ok (hex_lower (demo_sha (spec_zero32 @ demo_digest)) @ [10])
        else Ok (hex_lower spec_zero32 @ [10])),
      nd_write = (\<lambda>h p c. Ok ()), nd_remove = (\<lambda>h p. Ok ()), nd_mkdir = (\<lambda>h p. Ok ()),
      nd_random = (\<lambda>h. spec_zero32), nd_run = (\<lambda>h args. Ok (True, [], [])),
      nd_hexdec = (\<lambda>t. case hex_pairs t of Some b \<Rightarrow> Ok b | None \<Rightarrow> Err []), nd_sha = demo_sha, nd_pid = 1\<rparr>"

lemma pcr_path_inj: "pcr_path p = pcr_path q \<longleftrightarrow> p = q"
  using dec_inj [of "unat p" "unat q"] by (auto simp: pcr_path_def word_unat_eq_iff)

lemma pcr_path_not_log: "pcr_path p \<noteq> str ''/sys/kernel/security/ima/ascii_runtime_measurements''"
  by (simp add: pcr_path_def str_Cons)

lemma demo_evidence_live: "live_node demo_evidence (\<lambda>h. demo_log @ [10])"
proof -
  have log_path: "ima_log_path demo_evidence = str ''/sys/kernel/security/ima/ascii_runtime_measurements''"
    by (simp add: ima_log_path_def demo_evidence_def)
  have parse: "parse_ima_log demo_sha (demo_log @ [10]) = Ok (demo_records (str ''AB''))"
    and nz: "extend_pcr demo_sha spec_zero32 demo_digest \<noteq> spec_zero32" and u: "utf8_valid (demo_log @ [10])"
    and e: "extend_pcr demo_sha spec_zero32 demo_digest = demo_sha (spec_zero32 @ demo_digest)"
    by code_simp+
  have r: "spec_replay demo_sha (map ir_extend_digest (demo_records (str ''AB''))) (length (demo_records (str ''AB''))) =
      extend_pcr demo_sha spec_zero32 demo_digest"
    by (simp add: demo_records_def)
  have sels: "nd_sha demo_evidence = demo_sha" "nd_hexdec demo_evidence = (\<lambda>t. case hex_pairs t of Some b \<Rightarrow> Ok b | None \<Rightarrow> Err [])"
    "nd_file demo_evidence h (pcr_path 10) = Ok (hex_lower (extend_pcr demo_sha spec_zero32 demo_digest) @ [10])"
    "p \<noteq> 10 \<Longrightarrow> nd_file demo_evidence h (pcr_path p) = Ok (hex_lower spec_zero32 @ [10])"
    for h p
    by (simp_all add: demo_evidence_def pcr_path_not_log pcr_path_inj e)
  have log_file: "nd_file demo_evidence h (ima_log_path demo_evidence) = Ok (demo_log @ [10])" for h
    unfolding log_path by (simp add: demo_evidence_def)
  have l: "\<exists>v. length v = 32 \<and> hex_lower spec_zero32 = hex_lower v" by (intro exI [of _ spec_zero32]) simp
  show ?thesis
    unfolding live_node_def sels Let_def using parse nz u r l length_demo_sha sels(4) by (auto simp: sels(3) log_file)
qed


section \<open>The quote goes with its registers\<close>

lemma nthen_Ok: "nthen (Ok x, h) f = f x h"
  by simp

lemma read_quoted_grows:
  "\<exists>new. snd (read_quoted_pcrs node ps acc h) = h @ new \<and> (\<forall>args. Run args \<notin> set new) \<and>
     (\<forall>v. fst (read_quoted_pcrs node ps acc h) = Some v \<longrightarrow> length v = length acc + 32 * length ps)"
proof (induction ps arbitrary: acc h)
  case (Cons p ps)
  obtain c where c: "read_to_string node (pcr_path p) h = (c, h @ [ReadFile (pcr_path p)])"
    by (simp add: read_to_string_def)
  show ?case
  proof (cases "\<exists>s b. c = Ok s \<and> nd_hexdec node (trim s) = Ok b \<and> length b = 32")
    case True
    then obtain s b where b: "c = Ok s" "nd_hexdec node (trim s) = Ok b" "length b = 32" by blast
    from Cons.IH [of "acc @ b" "h @ [ReadFile (pcr_path p)]"] show ?thesis
      by (auto simp: c b)
  next
    case False
    then show ?thesis by (auto simp: c split: result.splits)
  qed
qed simp

definition quotes_in :: "Node \<Rightarrow> bytes \<Rightarrow> history \<Rightarrow> nat" where
  "quotes_in node nonce_hex steps = length (filter (\<lambda>s. s = Run (quote_args node nonce_hex)) steps)"

definition quote_ok :: "Node \<Rightarrow> bytes \<times> bytes \<times> bytes \<Rightarrow> bool" where
  "quote_ok node q \<longleftrightarrow>
     (case q of (pcrs, attest, signature) \<Rightarrow>
        length pcrs = 96 \<and> 34 \<le> length attest \<and> drop (length attest - 32) attest = nd_sha node pcrs)"

lemma quotes_in_simps [simp]:
  "quotes_in node nonce [] = 0"
  "quotes_in node nonce (a @ b) = quotes_in node nonce a + quotes_in node nonce b"
  "quotes_in node nonce (ReadFile p # s) = quotes_in node nonce s"
  "quotes_in node nonce (Run args # s) = (if args = quote_args node nonce then 1 else 0) + quotes_in node nonce s"
  "quotes_in node nonce (LookUp p # s) = quotes_in node nonce s"
  by (simp_all add: quotes_in_def)

lemma no_runs: "\<forall>args. Run args \<notin> set new \<Longrightarrow> quotes_in node nonce new = 0"
  by (auto simp: quotes_in_def filter_empty_conv)

lemma quote_attempt_result:
  "\<exists>r new. quote_attempt node nonce h = (r, h @ new) \<and> quotes_in node nonce new \<le> 1 \<and>
     (\<forall>q. r = Ok (Some q) \<longrightarrow> quote_ok node q)"
proof -
  obtain v h1 where v: "read_quoted_pcrs node (quoted_pcrs node) [] h = (v, h1)" by fastforce
  have three: "length (quoted_pcrs node) = 3" by (simp add: quoted_pcrs_def split: prod.split)
  obtain new where n: "h1 = h @ new" "\<forall>args. Run args \<notin> set new" and l: "\<forall>w. v = Some w \<longrightarrow> length w = 96"
    using read_quoted_grows [of node "quoted_pcrs node" "[]" h] by (auto simp: v three)
  note q0 = no_runs [OF n(2), of node nonce]
  show ?thesis
  proof (cases v)
    case None
    then show ?thesis using n(1) q0 by (auto simp: quote_attempt_def v nfail_def)
  next
    case (Some w)
    then show ?thesis
      using n(1) q0 l
      by (auto simp: quote_attempt_def v run_tool_def read_bytes_def os_result_def nreturn_def quote_ok_def
          quote_pcr_digest_matches_def not_less split: result.splits)
  qed
qed

lemma quote_loop_result:
  "\<exists>r new. quote_loop node nonce n h = (r, h @ new) \<and> quotes_in node nonce new \<le> n \<and>
     (\<forall>q. r = Ok q \<longrightarrow> quote_ok node q)"
proof (induction n arbitrary: h)
  case (Suc n)
  obtain r new where a: "quote_attempt node nonce h = (r, h @ new)" "quotes_in node nonce new \<le> 1"
    "\<forall>q. r = Ok (Some q) \<longrightarrow> quote_ok node q"
    using quote_attempt_result by blast
  obtain r' new' where b: "quote_loop node nonce n (h @ new) = (r', (h @ new) @ new')" "quotes_in node nonce new' \<le> n"
    "\<forall>q. r' = Ok q \<longrightarrow> quote_ok node q"
    using Suc.IH by blast
  consider e where "r = Err e" | q where "r = Ok (Some q)" | "r = Ok None"
    by (metis option.exhaust result.exhaust)
  then show ?case
  proof cases
    case 1
    then show ?thesis using a by auto
  next
    case 2
    then show ?thesis using a by (auto simp: nreturn_def)
  next
    case 3
    then show ?thesis using a b by (intro exI [of _ r'] exI [of _ "new @ new'"]) auto
  qed
qed (simp add: nfail_def)

text \<open>C40: A quote the node sends goes with its registers: the last 32 bytes of the attestation are the digest of the
  96 bytes returned, so registers that moved between the reading and the quote are never sent; and the TPM
  is asked for at most 40 quotes.\<close>
theorem signed_quote_consistent:
  assumes "generate_signed_quote node nonce_hex h = (r, h')"
  shows "(\<forall>q. r = Ok q \<longrightarrow> quote_ok node q) \<and> (\<exists>new. h' = h @ new \<and> quotes_in node nonce_hex new \<le> 40)"
proof -
  let ?h = "h @ [LookUp (tpm_dir node @ str ''/ak.ctx'')]"
  obtain r' new where "quote_loop node nonce_hex 40 ?h = (r', ?h @ new)" "quotes_in node nonce_hex new \<le> 40"
    "\<forall>q. r' = Ok q \<longrightarrow> quote_ok node q"
    using quote_loop_result by blast
  then show ?thesis
    using assms by (auto simp: generate_signed_quote_def QUOTE_ATTEMPTS_def Let_def nfail_def split: if_splits)
qed

text \<open>A node whose registers are all zero and whose TPM signs them.\<close>

definition demo_quoter :: Node where
  "demo_quoter = demo_evidence\<lparr>nd_file := (\<lambda>h p.
     if p = str ''/var/lib/scaphandre/tpm/quote.msg'' then Ok ([0, 0] @ spec_zero32)
     else Ok (hex_lower spec_zero32 @ [10]))\<rparr>"

lemma demo_quoter_simps:
  "nd_file demo_quoter h (pcr_path p) = Ok (hex_lower spec_zero32 @ [10])"
  "nd_file demo_quoter h (str ''/var/lib/scaphandre/tpm/quote.msg'') = Ok ([0, 0] @ spec_zero32)"
  "\<exists>s. nd_file demo_quoter h f = Ok s"
  "nd_hexdec demo_quoter (hex_lower v) = Ok v" "nd_sha demo_quoter = demo_sha" "nd_exists demo_quoter h f"
  "nd_run demo_quoter h args = Ok (True, [], [])" "tpm_dir demo_quoter = str ''/var/lib/scaphandre/tpm''"
  by (simp_all add: demo_quoter_def demo_evidence_def tpm_dir_def hex_pairs_lower) (simp add: pcr_path_def str_Cons)

lemma demo_quoter_reads:
  "read_quoted_pcrs demo_quoter ps acc h =
     (Some (acc @ concat (map (\<lambda>_. spec_zero32) ps)), h @ map (\<lambda>p. ReadFile (pcr_path p)) ps)"
proof (induction ps arbitrary: acc h)
  case (Cons p ps)
  have "spec_zero32 \<noteq> []" by (simp add: spec_zero32_def)
  with Cons.IH show ?case
    by (simp add: read_to_string_def demo_quoter_simps hex_line_valid hex_line)
qed simp

lemma signed_quote_consistent_witness:
  "\<exists>q. fst (generate_signed_quote demo_quoter (str ''00'') []) = Ok q \<and> quote_ok demo_quoter q"
proof -
  have path: "str ''/var/lib/scaphandre/tpm'' @ str ''/quote.msg'' = str ''/var/lib/scaphandre/tpm/quote.msg''"
    by (simp add: str_Cons)
  have sha: "demo_sha (concat (map (\<lambda>_. spec_zero32) (quoted_pcrs demo_quoter))) = spec_zero32" by code_simp
  have ne: "concat (map (\<lambda>_. spec_zero32) (quoted_pcrs demo_quoter)) \<noteq> []"
    by (cases "platform_pcr_pair demo_quoter") (simp add: quoted_pcrs_def spec_zero32_def)
  obtain sig where sig: "\<And>h. nd_file demo_quoter h (str ''/var/lib/scaphandre/tpm'' @ str ''/quote.sig'') = Ok sig"
    by (simp add: demo_quoter_def demo_evidence_def str_Cons)
  have "\<exists>q. fst (quote_attempt demo_quoter (str ''00'') h) = Ok (Some q)" for h
    using sha ne
    by (simp add: quote_attempt_def demo_quoter_reads run_tool_def read_bytes_def nreturn_def path sig demo_quoter_simps
        os_result_def quote_pcr_digest_matches_def spec_zero32_def)
  then obtain q h1 where a: "quote_attempt demo_quoter (str ''00'')
      [LookUp (str ''/var/lib/scaphandre/tpm'' @ str ''/ak.ctx'')] = (Ok (Some q), h1)"
    by (metis prod.collapse)
  have "fst (quote_loop demo_quoter (str ''00'') (Suc n) [LookUp (str ''/var/lib/scaphandre/tpm'' @ str ''/ak.ctx'')]) = Ok q" for n
    by (simp add: a nreturn_def)
  from this [of 39] have q: "fst (generate_signed_quote demo_quoter (str ''00'') []) = Ok q"
    by (simp add: generate_signed_quote_def QUOTE_ATTEMPTS_def Let_def demo_quoter_simps)
  obtain r h' where g: "generate_signed_quote demo_quoter (str ''00'') [] = (r, h')" by fastforce
  with signed_quote_consistent [OF g] q show ?thesis by (cases q) auto
qed

text \<open>The plaintext copy of a new key is deleted only when the whole call succeeds: whenever it is written and a
  tool of the TPM fails, the key stays in the directory.\<close>
theorem sealing_leaves_plaintext:
  "is_ok (fst (create_and_seal_key_via_tpm2tools node h)) \<longleftrightarrow>
   (\<exists>before. snd (create_and_seal_key_via_tpm2tools node h) = before @ [RemoveFile (in_tpm_dir node ''hmac_key_temp.bin'')] \<and>
      nd_remove node before (in_tpm_dir node ''hmac_key_temp.bin'') = Ok ())"
  by (auto simp: create_and_seal_key_via_tpm2tools_def Let_def create_dir_all_def write_file_def run_tool_def
      remove_file_def os_result_def nreturn_def split: result.splits)

end
