(* ===== verification/EnclaveClient.thy ===== *)
theory EnclaveClient
  imports Exchange GuestServer NodeAttest
begin

text \<open>
  The client side of the guest enclave (\<open>src/src/sgx_vm_runner.rs\<close>, in the build with \<open>use_sgx_vm\<close> and
  \<open>tpm_attestation_vm\<close>): the framed exchange over a stream, the connection that is kept for the life of the
  process, starting or reaching the enclave, and the calls that the exporters use. Streams, processes, TLS
  and serde are parameters. The last part runs the client against the server of \<open>GuestServer\<close>.
\<close>

section \<open>Starting the enclave\<close>

text \<open>
  The environment of the runner. What may differ from one attempt to the next takes the number of the
  attempt. A new stream is \<open>'w\<close>; \<open>re_first_line\<close> is what the enclave's process prints first: \<open>None\<close> when the
  reading fails, and the empty text at the end of its output.
\<close>

record 'w RunnerEnv =
  re_ops :: "'w StreamOps"
  re_remote_host :: "bytes option"
  re_enclave_path :: "bytes option"
  re_home :: bytes
  re_exists :: "bytes \<Rightarrow> bool"
  re_runnable :: "bytes \<Rightarrow> bool"
  re_spawn :: "nat \<Rightarrow> bytes \<Rightarrow> bytes \<Rightarrow> bool"
  re_first_line :: "nat \<Rightarrow> bytes option"
  re_connect :: "nat \<Rightarrow> bytes \<Rightarrow> 'w option"
  re_ca_certs :: "bytes list"
  re_add_root :: "bytes \<Rightarrow> bool"
  re_server_name :: bool
  re_tls :: "nat \<Rightarrow> 'w \<Rightarrow> 'w option"

record 'w VmEnclaveConnection =
  vc_stream :: 'w
  vc_child :: bool
  vc_is_remote :: bool

record 'w RunnerState =
  rn_connection :: "'w VmEnclaveConnection option"
  rn_attempts :: nat

definition vm_check_sgx_hardware :: "'w RunnerEnv \<Rightarrow> bool" where
  "vm_check_sgx_hardware env \<longleftrightarrow>
     re_remote_host env \<noteq> None \<or> re_exists env (str ''/dev/isgx'') \<or> re_exists env (str ''/dev/sgx_enclave'')"

definition get_vm_enclave_path :: "'w RunnerEnv \<Rightarrow> bytes option" where
  "get_vm_enclave_path env =
     (case re_enclave_path env of
        Some path \<Rightarrow> (if re_exists env path then Some path else None)
      | None \<Rightarrow>
          List.find (re_exists env)
            [str ''target/x86_64-fortanix-unknown-sgx/release/sgx_vm.sgxs'',
             str ''../target/x86_64-fortanix-unknown-sgx/release/sgx_vm.sgxs'',
             str ''/home/user/Desktop/scaphandre/target/x86_64-fortanix-unknown-sgx/release/sgx_vm.sgxs'',
             str ''/usr/lib/scaphandre/sgx_vm.sgxs''])"

definition which_ftxsgx_runner :: "'w RunnerEnv \<Rightarrow> bytes" where
  "which_ftxsgx_runner env =
     (case List.find (re_runnable env)
             [str ''ftxsgx-runner'', str ''/usr/bin/ftxsgx-runner'', str ''/usr/local/bin/ftxsgx-runner'',
              re_home env @ str ''/.cargo/bin/ftxsgx-runner''] of
        Some path \<Rightarrow> path
      | None \<Rightarrow> str ''ftxsgx-runner'')"

definition parse_u16 :: "bytes \<Rightarrow> u16 option" where
  "parse_u16 s = (case parse_u64 s of Some v \<Rightarrow> (if v < 65536 then Some (ucast v) else None) | None \<Rightarrow> None)"

definition enclave_port :: "bytes option \<Rightarrow> (int, u16) result" where
  "enclave_port first_line =
     (case first_line of
        None \<Rightarrow> Err (-211)
      | Some port_line \<Rightarrow>
          (if port_line = [] then Err (-210)
           else
             (case strip_prefix (str ''PORT:'') (trim port_line) of
                Some p \<Rightarrow> (case parse_u16 p of Some n \<Rightarrow> Ok n | None \<Rightarrow> Err (-212))
              | None \<Rightarrow> Err (-213))))"

definition spawn_vm_enclave_with_tcp :: "'w RunnerEnv \<Rightarrow> nat \<Rightarrow> bytes \<Rightarrow> (int, 'w) result" where
  "spawn_vm_enclave_with_tcp env n enclave_path =
     (if \<not> re_spawn env n (which_ftxsgx_runner env) enclave_path then Err (-202)
      else
        (case enclave_port (re_first_line env n) of
           Err e \<Rightarrow> Err e
         | Ok port \<Rightarrow>
             (case re_connect env n (str ''127.0.0.1:'' @ dec (unat port)) of
                Some w \<Rightarrow> Ok w
              | None \<Rightarrow> Err (-214))))"

definition create_tls_config :: "'w RunnerEnv \<Rightarrow> (int, unit) result" where
  "create_tls_config env =
     (if re_ca_certs env = [] then Err (-240)
      else if \<not> list_all (re_add_root env) (re_ca_certs env) then Err (-241)
      else Ok ())"

definition connect_to_remote_enclave :: "'w RunnerEnv \<Rightarrow> nat \<Rightarrow> bytes \<Rightarrow> (int, 'w) result" where
  "connect_to_remote_enclave env n host_addr =
     (case create_tls_config env of
        Err e \<Rightarrow> Err e
      | Ok _ \<Rightarrow>
          (if \<not> re_server_name env then Err (-242)
           else
             (case re_connect env n host_addr of
                None \<Rightarrow> Err (-230)
              | Some tcp_stream \<Rightarrow>
                  (case re_tls env n tcp_stream of Some w \<Rightarrow> Ok w | None \<Rightarrow> Err (-243)))))"

definition connect_to_local_enclave :: "'w RunnerEnv \<Rightarrow> nat \<Rightarrow> (int, 'w) result" where
  "connect_to_local_enclave env n =
     (case get_vm_enclave_path env of
        None \<Rightarrow> Err (-201)
      | Some enclave_path \<Rightarrow>
          (case spawn_vm_enclave_with_tcp env n enclave_path of
             Err e \<Rightarrow> Err e
           | Ok tcp_stream \<Rightarrow>
               (case create_tls_config env of
                  Err e \<Rightarrow> Err e
                | Ok _ \<Rightarrow>
                    (if \<not> re_server_name env then Err (-242)
                     else (case re_tls env n tcp_stream of Some w \<Rightarrow> Ok w | None \<Rightarrow> Err (-243))))))"

text \<open>The connection is made once and kept, also when it turns out broken.\<close>

definition get_vm_enclave_connection ::
  "'w RunnerEnv \<Rightarrow> 'w RunnerState \<Rightarrow> (int, 'w VmEnclaveConnection) result \<times> 'w RunnerState" where
  "get_vm_enclave_connection env s =
     (case rn_connection s of
        Some conn \<Rightarrow> (Ok conn, s)
      | None \<Rightarrow>
          (let s1 = s\<lparr>rn_attempts := rn_attempts s + 1\<rparr>;
               (r, child, is_remote) =
                 (case re_remote_host env of
                    Some host \<Rightarrow> (connect_to_remote_enclave env (rn_attempts s) host, False, True)
                  | None \<Rightarrow> (connect_to_local_enclave env (rn_attempts s), True, False))
           in case r of
                Err e \<Rightarrow> (Err e, s1)
              | Ok w \<Rightarrow>
                  (let conn = \<lparr>vc_stream = w, vc_child = child, vc_is_remote = is_remote\<rparr>
                   in (Ok conn, s1\<lparr>rn_connection := Some conn\<rparr>))))"

definition send_request_to_vm_enclave ::
  "'w RunnerEnv \<Rightarrow> (bytes \<Rightarrow> 'r option) \<Rightarrow> bytes \<Rightarrow> 'w RunnerState \<Rightarrow> (int, 'r) result \<times> 'w RunnerState" where
  "send_request_to_vm_enclave env parse request_json s =
     (case get_vm_enclave_connection env s of
        (Err e, s) \<Rightarrow> (Err e, s)
      | (Ok conn, s) \<Rightarrow>
          (let (r, w) = send_tls_request (re_ops env) parse request_json (vc_stream conn)
           in (r, s\<lparr>rn_connection := Some (conn\<lparr>vc_stream := w\<rparr>)\<rparr>)))"

text \<open>A local enclave gets an empty request, which makes it stop; a remote connection is dropped.\<close>

definition shutdown_vm_enclave :: "'w RunnerEnv \<Rightarrow> 'w RunnerState \<Rightarrow> 'w option \<times> 'w RunnerState" where
  "shutdown_vm_enclave env s =
     (case rn_connection s of
        None \<Rightarrow> (None, s)
      | Some conn \<Rightarrow>
          (if vc_is_remote conn then Some (vc_stream conn)
           else
             (let w = snd (so_write (re_ops env) (vc_stream conn) [0, 0, 0, 0])
              in Some (snd (so_flush (re_ops env) w))),
           s\<lparr>rn_connection := None\<rparr>))"

section \<open>The calls\<close>

record VmEnclaveResponse =
  ve_status :: int
  ve_message :: bytes
  ve_output_data :: "bytes option"

record GpuSample =
  gx_index :: u32
  gx_uuid :: bytes
  gx_energy_uj :: u64
  gx_procs :: "(u32 \<times> u64 \<times> bytes) list"
  gx_tag :: "(u64 \<times> u64 \<times> u64) option"

text \<open>The objects that serde prints, with the fields of the request structures in order.\<close>

datatype VmRequest =
    NonceReq
  | VerifyChainRequest bytes u64 u64 bytes bytes
  | ComputeEnergyRequest u64 f64
  | DbExportRequest bytes u64 u64 bytes bytes u64 "(u32 \<times> u64) list" "bytes option"
  | GpuDbExportRequest bytes "GpuSample list" bytes bytes "(u64 \<times> u64) option" u32
  | ImmudbLoginRequest
  | ImmudbInsertRequest bytes bytes
  | VerifyBootRequest bytes bytes bytes bytes bytes bytes bytes bytes

record CallLib =
  ca_json :: "VmRequest \<Rightarrow> bytes"
  ca_parse :: "bytes \<Rightarrow> VmEnclaveResponse option"
  ca_pairs :: "bytes \<Rightarrow> (u32 \<times> u64) list option"
  ca_labels :: "bytes \<Rightarrow> (bytes \<times> u64) list option"
  ca_hexenc :: "bytes \<Rightarrow> bytes"
  ca_immudb_addr :: "bytes option"
  ca_host_build :: bool
  ca_tag_key :: "(u64 \<times> u64) option"
  ca_tag_epoch :: u32
  ca_node :: Node

text \<open>A call: refused without SGX hardware, otherwise the exchange.\<close>

definition vm_call ::
  "'w RunnerEnv \<Rightarrow> CallLib \<Rightarrow> VmRequest \<Rightarrow> 'w RunnerState \<Rightarrow> (int, VmEnclaveResponse) result \<times> 'w RunnerState" where
  "vm_call env lib request s =
     (if \<not> vm_check_sgx_hardware env then (Err (-200), s)
      else send_request_to_vm_enclave env (ca_parse lib) (ca_json lib request) s)"

definition request_nonce_from_enclave ::
  "'w RunnerEnv \<Rightarrow> CallLib \<Rightarrow> 'w RunnerState \<Rightarrow> bytes option \<times> 'w RunnerState" where
  "request_nonce_from_enclave env lib s =
     (case send_request_to_vm_enclave env (ca_parse lib) (ca_json lib NonceReq) s of
        (Ok r, s) \<Rightarrow> (if ve_status r = 0 then ve_output_data r else None, s)
      | (Err e, s) \<Rightarrow> (None, s))"

definition verify_chain_in_sgx ::
  "'w RunnerEnv \<Rightarrow> CallLib \<Rightarrow> bytes \<Rightarrow> u64 \<Rightarrow> u64 \<Rightarrow> bytes \<Rightarrow> bytes \<Rightarrow> 'w RunnerState \<Rightarrow>
   (int, int) result \<times> 'w RunnerState" where
  "verify_chain_in_sgx env lib vm_name energy_value counter previous_hash signature s =
     (case vm_call env lib (VerifyChainRequest vm_name energy_value counter (ca_hexenc lib previous_hash)
             (ca_hexenc lib signature)) s of
        (Err e, s) \<Rightarrow> (Err e, s)
      | (Ok r, s) \<Rightarrow> (Ok (ve_status r), s))"

definition compute_process_energy_in_sgx ::
  "'w RunnerEnv \<Rightarrow> CallLib \<Rightarrow> u64 \<Rightarrow> f64 \<Rightarrow> 'w RunnerState \<Rightarrow> (int, u64) result \<times> 'w RunnerState" where
  "compute_process_energy_in_sgx env lib vm_total_energy_uj cpu_percentage s =
     (case vm_call env lib (ComputeEnergyRequest vm_total_energy_uj cpu_percentage) s of
        (Err e, s) \<Rightarrow> (Err e, s)
      | (Ok r, s) \<Rightarrow>
          (if ve_status r \<noteq> 0 then (Err (ve_status r), s)
           else
             (case ve_output_data r of
                None \<Rightarrow> (Err (-300), s)
              | Some t \<Rightarrow> (case parse_u64 t of Some e \<Rightarrow> (Ok e, s) | None \<Rightarrow> (Err (-300), s)))))"

text \<open>Rows that cannot be parsed count as no rows.\<close>

definition db_export_in_sgx ::
  "'w RunnerEnv \<Rightarrow> CallLib \<Rightarrow> bytes \<Rightarrow> u64 \<Rightarrow> u64 \<Rightarrow> bytes \<Rightarrow> bytes \<Rightarrow> u64 \<Rightarrow> (u32 \<times> u64) list \<Rightarrow> bytes option \<Rightarrow>
   'w RunnerState \<Rightarrow> (int, (u32 \<times> u64) list) result \<times> 'w RunnerState" where
  "db_export_in_sgx env lib vm_name energy_uj counter previous_hash signature energy_delta processes session_id s =
     (case vm_call env lib (DbExportRequest vm_name energy_uj counter (ca_hexenc lib previous_hash)
             (ca_hexenc lib signature) energy_delta processes session_id) s of
        (Err e, s) \<Rightarrow> (Err e, s)
      | (Ok r, s) \<Rightarrow>
          (if ve_status r \<noteq> 0 then (Err (ve_status r), s)
           else
             (Ok (case ve_output_data r of
                    None \<Rightarrow> []
                  | Some t \<Rightarrow> (case ca_pairs lib t of Some rows \<Rightarrow> rows | None \<Rightarrow> [])), s)))"

definition gpu_db_export_in_sgx ::
  "'w RunnerEnv \<Rightarrow> CallLib \<Rightarrow> bytes \<Rightarrow> GpuSample list \<Rightarrow> 'w RunnerState \<Rightarrow>
   (int, (bytes \<times> u64) list) result \<times> 'w RunnerState" where
  "gpu_db_export_in_sgx env lib node_id gpus s =
     (let address = (case ca_immudb_addr lib of
            Some a \<Rightarrow> a
          | None \<Rightarrow> (if re_remote_host env \<noteq> None then str ''127.0.0.1:8443'' else str ''192.168.122.1:8443''));
          deployment_type = (if ca_host_build lib \<and> re_remote_host env = None then str ''host'' else str ''vm'')
      in case vm_call env lib (GpuDbExportRequest node_id gpus address deployment_type (ca_tag_key lib)
                (ca_tag_epoch lib)) s of
           (Err e, s) \<Rightarrow> (Err e, s)
         | (Ok r, s) \<Rightarrow>
             (if ve_status r \<noteq> 0 then (Err (ve_status r), s)
              else
                (Ok (case ve_output_data r of
                       None \<Rightarrow> []
                     | Some t \<Rightarrow> (case ca_labels lib t of Some rows \<Rightarrow> rows | None \<Rightarrow> [])), s)))"

definition immudb_login_in_sgx ::
  "'w RunnerEnv \<Rightarrow> CallLib \<Rightarrow> 'w RunnerState \<Rightarrow> (int, bytes) result \<times> 'w RunnerState" where
  "immudb_login_in_sgx env lib s =
     (case vm_call env lib ImmudbLoginRequest s of
        (Err e, s) \<Rightarrow> (Err e, s)
      | (Ok r, s) \<Rightarrow>
          (if ve_status r \<noteq> 0 then (Err (ve_status r), s)
           else (case ve_output_data r of Some t \<Rightarrow> (Ok t, s) | None \<Rightarrow> (Err (-301), s))))"

definition immudb_insert_in_sgx ::
  "'w RunnerEnv \<Rightarrow> CallLib \<Rightarrow> bytes \<Rightarrow> bytes \<Rightarrow> 'w RunnerState \<Rightarrow> (int, bytes) result \<times> 'w RunnerState" where
  "immudb_insert_in_sgx env lib session_id body s =
     (case vm_call env lib (ImmudbInsertRequest session_id body) s of
        (Err e, s) \<Rightarrow> (Err e, s)
      | (Ok r, s) \<Rightarrow>
          (if ve_status r \<noteq> 0 then (Err (ve_status r), s)
           else (Ok (case ve_output_data r of Some t \<Rightarrow> t | None \<Rightarrow> []), s)))"

text \<open>
  With a snapshot of the log no quote is sent: it would sign a register the snapshot does not reach. The
  directory is compared with the live one without cutting its slashes, unlike \<open>is_live_securityfs\<close>.
\<close>

definition snapshot_mode :: "Node \<Rightarrow> bool" where
  "snapshot_mode node \<longleftrightarrow>
     (case nd_ima_path node of
        None \<Rightarrow> False
      | Some d \<Rightarrow>
          \<not> (case nd_canonicalize node d of
               Some p \<Rightarrow> p = SECURITYFS \<or> starts_with (SECURITYFS @ [47]) p
             | None \<Rightarrow> starts_with SECURITYFS d))"

text \<open>The evidence that is sent: the caller's, or a quote with its registers and a log read after it.\<close>

definition boot_evidence ::
  "'w RunnerEnv \<Rightarrow> CallLib \<Rightarrow> bytes \<Rightarrow> bytes \<Rightarrow> bytes \<Rightarrow> bytes \<Rightarrow> 'w RunnerState \<Rightarrow> history \<Rightarrow>
   (bytes \<times> bytes \<times> bytes \<times> bytes) \<times> 'w RunnerState \<times> history" where
  "boot_evidence env lib pcr_values ima_log attest_hex signature_hex s h =
     (if attest_hex \<noteq> [] \<or> snapshot_mode (ca_node lib) then
        ((pcr_values, ima_log, attest_hex, signature_hex), s, h)
      else
        (case request_nonce_from_enclave env lib s of
           (None, s) \<Rightarrow> ((pcr_values, ima_log, attest_hex, signature_hex), s, h)
         | (Some nonce, s) \<Rightarrow>
             (case generate_signed_quote (ca_node lib) nonce h of
                (Err e, h) \<Rightarrow> ((pcr_values, ima_log, attest_hex, signature_hex), s, h)
              | (Ok (pcrs, attest, sig), h) \<Rightarrow>
                  (case read_to_string (ca_node lib) (str ''/sys/kernel/security/ima/ascii_runtime_measurements'') h of
                     (r, h) \<Rightarrow>
                       ((pcrs, (case r of Ok l \<Rightarrow> l | Err e \<Rightarrow> ima_log), ca_hexenc lib attest,
                         ca_hexenc lib sig), s, h)))))"

definition verify_boot_in_sgx ::
  "'w RunnerEnv \<Rightarrow> CallLib \<Rightarrow> bytes \<Rightarrow> bytes \<Rightarrow> bytes \<Rightarrow> bytes \<Rightarrow> bytes \<Rightarrow> bytes \<Rightarrow> bytes \<Rightarrow> bytes \<Rightarrow>
   'w RunnerState \<Rightarrow> history \<Rightarrow> (int, int) result \<times> 'w RunnerState \<times> history" where
  "verify_boot_in_sgx env lib pcr_values ima_log hostname deployment_type address ca_pem attest_hex
       signature_hex s h =
     (if \<not> vm_check_sgx_hardware env then (Err (-200), s, h)
      else
        (let ((pcrs, l, attest, sig), s, h) =
               boot_evidence env lib pcr_values ima_log attest_hex signature_hex s h
         in case send_request_to_vm_enclave env (ca_parse lib)
                   (ca_json lib (VerifyBootRequest (ca_hexenc lib pcrs) l hostname deployment_type address ca_pem
                      attest sig)) s of
              (Err e, s) \<Rightarrow> (Err e, s, h)
            | (Ok r, s) \<Rightarrow> (Ok (ve_status r), s, h)))"

section \<open>The client against the server\<close>

text \<open>The guest's server as a framed server; its state is the statics and the outside world.\<close>

definition guest_turn ::
  "'c GuestServerLib \<Rightarrow> bytes \<Rightarrow> GuestState \<times> 'c \<Rightarrow> (bytes \<times> bytes \<times> bool \<times> GuestState \<times> 'c) option" where
  "guest_turn lib input s =
     (case guest_handle_single_tls_request lib input (fst s) (snd s) of
        Some (Done t) \<Rightarrow> Some (gt_rest t, gt_sent t, gt_verdict t = Continue, gt_state t, gt_world t)
      | _ \<Rightarrow> None)"

definition guest_reply ::
  "'c GuestServerLib \<Rightarrow> bytes \<Rightarrow> GuestState \<times> 'c \<Rightarrow> (GuestResponse \<times> bool \<times> GuestState \<times> 'c) option" where
  "guest_reply lib request s =
     (case guest_answer_line lib request (fst s) (snd s) of Some (Done a) \<Rightarrow> Some a | _ \<Rightarrow> None)"

lemma guest_turn_frame:
  assumes "guest_frameable json"
  shows "guest_turn lib (frame json) s =
    map_option (\<lambda>(r, go_on, s'). ([], be32_bytes (length (sl_response_json lib r)) @ sl_response_json lib r, go_on, s'))
      (guest_reply lib json s)"
proof -
  have "guest_handle_single_tls_request lib (frame json) g c = guest_serve_frame lib Broken (frame json @ []) g c" for g c
    by (simp add: guest_handle_single_tls_request_def)
  then show ?thesis
    unfolding guest_turn_def guest_reply_def guest_serve_one [OF assms]
    by (auto simp: obind_def oret_def guest_send_response_def Let_def split: option.splits exec.splits)
qed

interpretation guest_link: framed_server "guest_turn lib" "guest_reply lib" "sl_response_json lib" guest_frameable
  for lib :: "'c GuestServerLib"
  by unfold_locales (rule guest_turn_frame)

text \<open>serde on both sides: the client reads the response the enclave prints.\<close>

definition reply_of :: "GuestResponse \<Rightarrow> VmEnclaveResponse" where
  "reply_of r = \<lparr>ve_status = gr_status r, ve_message = gr_message r, ve_output_data = gr_output r\<rparr>"

text \<open>A session: the requests of a process one after another, through the connection it keeps.\<close>

fun send_requests ::
  "'w RunnerEnv \<Rightarrow> (bytes \<Rightarrow> 'r option) \<Rightarrow> bytes list \<Rightarrow> 'w RunnerState \<Rightarrow> (int, 'r) result list \<times> 'w RunnerState" where
  "send_requests env parse [] s = ([], s)"
| "send_requests env parse (request # requests) s =
     (let (r, s) = send_request_to_vm_enclave env parse request s; (rs, s) = send_requests env parse requests s
      in (r # rs, s))"

lemma send_requests_kept:
  "rn_connection s = Some conn \<Longrightarrow>
   send_requests env parse requests s =
     (let (rs, w) = exchange_all (re_ops env) parse requests (vc_stream conn)
      in (rs, s\<lparr>rn_connection := Some (conn\<lparr>vc_stream := w\<rparr>)\<rparr>))"
proof (induction requests arbitrary: s conn)
  case Nil
  then show ?case by (cases s; cases conn) simp
next
  case (Cons request requests)
  have "send_request_to_vm_enclave env parse request s =
      (let (r, w) = send_tls_request (re_ops env) parse request (vc_stream conn)
       in (r, s\<lparr>rn_connection := Some (conn\<lparr>vc_stream := w\<rparr>)\<rparr>))"
    using Cons.prems by (simp add: send_request_to_vm_enclave_def get_vm_enclave_connection_def)
  then show ?case using Cons.IH by (simp split: prod.splits)
qed

lemma shutdown_stops_local:
  assumes "re_ops env = link_ops (guest_turn lib)" "rn_connection s = Some \<lparr>vc_stream = idle_link True x, vc_child = child, vc_is_remote = False\<rparr>"
  shows "shutdown_vm_enclave env s = (Some (idle_link False x), s\<lparr>rn_connection := None\<rparr>)"
proof -
  have "be32 (0 :: u8) 0 0 0 = 0" by (simp add: be32_def)
  then have "guest_turn lib [0, 0, 0, 0] x = Some ([], [], False, x)"
    by (simp add: guest_turn_def guest_handle_single_tls_request_def guest_serve_frame_def read_exact_def guest_ends_def oret_def)
  then show ?thesis
    by (simp add: shutdown_vm_enclave_def assms link_simps idle_link_def link_serve_def)
qed

lemma session_of_answers:
  "guest_answers lib requests g c = Some (Done (rs, stopped, g', c')) \<Longrightarrow>
   session_replies (guest_reply lib) reply requests True (g, c) =
     (map (\<lambda>r. Ok (reply r)) rs @ replicate (length requests - length rs) (Err (-220)), \<not> stopped, g', c')"
proof (induction requests arbitrary: g c rs)
  case Nil
  then show ?case by (simp add: oret_def)
next
  case (Cons request requests)
  obtain r go_on g1 c1 where a: "guest_answer_line lib request g c = Some (Done (r, go_on, g1, c1))"
    using Cons.prems by (auto simp: obind_eq_Done)
  show ?case
  proof (cases go_on)
    case True
    with Cons.prems a obtain rs' where
      "guest_answers lib requests g1 c1 = Some (Done (rs', stopped, g', c'))" "rs = r # rs'"
      by (auto simp: obind_eq_Done oret_def)
    with Cons.IH a True show ?thesis by (simp add: guest_reply_def)
  next
    case False
    with Cons.prems a show ?thesis by (auto simp: guest_reply_def oret_def session_down)
  qed
qed


text \<open>A process that reaches an enclave on another machine, which answers two requests and is shut down.\<close>

definition demo_enclave :: "tiny GuestServerLib" where
  "demo_enclave = demo_guest_server\<lparr>sl_response_json := (\<lambda>r. if gr_status r = 0 then str ''0'' else str ''1'')\<rparr>"

definition demo_client_parse :: "bytes \<Rightarrow> VmEnclaveResponse option" where
  "demo_client_parse t =
     Some (reply_of (if t = str ''0'' then answer 0 (str ''Shutting down'') else handle_compute_process_energy))"

definition demo_runner :: "(GuestState \<times> tiny) Link RunnerEnv" where
  "demo_runner =
     \<lparr>re_ops = link_ops (guest_turn demo_enclave), re_remote_host = Some (str ''vm:9443''), re_enclave_path = None, re_home = [],
      re_exists = (\<lambda>p. False), re_runnable = (\<lambda>p. False), re_spawn = (\<lambda>n r p. False), re_first_line = (\<lambda>n. None),
      re_connect = (\<lambda>n a. Some (idle_link True (guest_start, ([], 0)))), re_ca_certs = [str ''ca''],
      re_add_root = (\<lambda>c. True), re_server_name = True, re_tls = (\<lambda>n w. Some w)\<rparr>"


end
