(* ===== verification/EnergyFiles.thy ===== *)
theory EnergyFiles
  imports HostEnergy
begin

text \<open>
  How a machine's signed energy reaches the machine: the host's files
  (\<open>src/src/exporters/export_vm.rs\<close>, called back by \<open>src/src/sgx_runner.rs\<close>) and the guest exporter that reads them
  (\<open>src/src/exporters/db.rs\<close>). The file system is a parameter; so is serde, which prints and reads the chain
  metadata. The last part follows a reading from the host's signature to the guest's verifier.
\<close>

section \<open>Files\<close>

record 'f FileOps =
  fo_exists :: "'f \<Rightarrow> bytes \<Rightarrow> bool"
  fo_create_dir_all :: "'f \<Rightarrow> bytes \<Rightarrow> (bytes, unit) result \<times> 'f"
  fo_read :: "'f \<Rightarrow> bytes \<Rightarrow> (bytes, bytes) result"
  fo_write :: "'f \<Rightarrow> bytes \<Rightarrow> bytes \<Rightarrow> (bytes, unit) result \<times> 'f"

text \<open>What the exporter needs besides: hexadecimal and the printer of the metadata object.\<close>

record 'f ExportLib =
  xl_files :: "'f FileOps"
  xl_hexenc :: "bytes \<Rightarrow> bytes"
  xl_hexdec :: "bytes \<Rightarrow> (bytes, bytes) result"
  xl_chain_json :: "u64 \<Rightarrow> u64 \<Rightarrow> bytes \<Rightarrow> bytes \<Rightarrow> bytes \<Rightarrow> bytes"

definition energy_file :: "bytes \<Rightarrow> bytes" where
  "energy_file path = path @ str ''/energy_uj''"

definition chain_file :: "bytes \<Rightarrow> bytes" where
  "chain_file path = path @ str ''/chain_metadata.json''"

definition ensure_dir :: "'f ExportLib \<Rightarrow> bytes \<Rightarrow> 'f \<Rightarrow> (bytes, unit) result \<times> 'f" where
  "ensure_dir lib path f =
     (if \<not> fo_exists (xl_files lib) f path then fo_create_dir_all (xl_files lib) f path else (Ok (), f))"

text \<open>The number in the file; a text that is no number counts as 0, and so does a file that cannot be read as text.\<close>

definition current_energy :: "'f ExportLib \<Rightarrow> bytes \<Rightarrow> 'f \<Rightarrow> u64" where
  "current_energy lib path f =
     (case fo_read (xl_files lib) f (energy_file path) of
        Ok content \<Rightarrow>
          (if utf8_valid content then (case parse_u64 (trim content) of Some v \<Rightarrow> v | None \<Rightarrow> 0) else 0)
      | Err e \<Rightarrow> 0)"

definition add_or_create :: "'f ExportLib \<Rightarrow> bytes \<Rightarrow> u64 \<Rightarrow> 'f \<Rightarrow> ((bytes, unit) result \<times> 'f) exec" where
  "add_or_create lib path uj_value f =
     (case ensure_dir lib path f of
        (Err e, f) \<Rightarrow> Done (Err e, f)
      | (Ok _, f) \<Rightarrow>
          and_then (checked_add (current_energy lib path f) uj_value) (\<lambda>new_value.
            Done (fo_write (xl_files lib) f (energy_file path) (dec_u64 new_value))))"

definition write_exact :: "'f ExportLib \<Rightarrow> bytes \<Rightarrow> u64 \<Rightarrow> 'f \<Rightarrow> (bytes, unit) result \<times> 'f" where
  "write_exact lib path uj_value f =
     (case ensure_dir lib path f of
        (Err e, f) \<Rightarrow> (Err e, f)
      | (Ok _, f) \<Rightarrow> fo_write (xl_files lib) f (energy_file path) (dec_u64 uj_value))"

definition vm_path :: "bytes \<Rightarrow> bytes \<Rightarrow> bytes" where
  "vm_path base vm_name = base @ [47] @ vm_name @ str ''/intel-rapl:0''"

fun write_updates :: "'f ExportLib \<Rightarrow> bytes \<Rightarrow> VmEnergyUpdate list \<Rightarrow> 'f \<Rightarrow> ((bytes, unit) result \<times> 'f) exec" where
  "write_updates lib base [] f = Done (Ok (), f)"
| "write_updates lib base (u # us) f =
     and_then (add_or_create lib (vm_path base (vu_vm_name u)) (vu_uj_to_add u) f) (\<lambda>r.
       case r of (Err e, f) \<Rightarrow> Done (Err e, f) | (Ok _, f) \<Rightarrow> write_updates lib base us f)"

definition is_chain_restart :: "u64 \<Rightarrow> bytes \<Rightarrow> bool" where
  "is_chain_restart counter previous_hash \<longleftrightarrow> counter = 1 \<and> list_all (\<lambda>b. b = 0) previous_hash"

text \<open>One update: the energy first, the chain metadata after it.\<close>

definition write_update_with_chain ::
  "'f ExportLib \<Rightarrow> bytes \<Rightarrow> u64 \<Rightarrow> bytes \<Rightarrow> bytes \<Rightarrow> VmEnergyUpdate \<Rightarrow> 'f \<Rightarrow> ((bytes, unit) result \<times> 'f) exec" where
  "write_update_with_chain lib base counter previous_hash signature update f =
     (let path = vm_path base (vu_vm_name update) in
      and_then (if is_chain_restart counter previous_hash then Done (write_exact lib path (vu_uj_to_add update) f)
                else add_or_create lib path (vu_uj_to_add update) f) (\<lambda>r.
        case r of
          (Err e, f) \<Rightarrow> Done (Err e, f)
        | (Ok _, f) \<Rightarrow>
            Done (fo_write (xl_files lib) f (chain_file path)
              (xl_chain_json lib counter (vu_uj_to_add update) (xl_hexenc lib previous_hash)
                 (xl_hexenc lib signature) (vu_vm_name update)))))"

fun write_updates_with_chain ::
  "'f ExportLib \<Rightarrow> bytes \<Rightarrow> VmEnergyUpdate list \<Rightarrow> u64 \<Rightarrow> bytes \<Rightarrow> bytes \<Rightarrow> 'f \<Rightarrow> ((bytes, unit) result \<times> 'f) exec" where
  "write_updates_with_chain lib base [] counter previous_hash signature f = Done (Ok (), f)"
| "write_updates_with_chain lib base (u # us) counter previous_hash signature f =
     and_then (write_update_with_chain lib base counter previous_hash signature u f) (\<lambda>r.
       case r of
         (Err e, f) \<Rightarrow> Done (Err e, f)
       | (Ok _, f) \<Rightarrow> write_updates_with_chain lib base us counter previous_hash signature f)"

text \<open>The callback registered with the enclave. \<open>base\<close> is \<open>VM_EXPORT_PATH\<close>.\<close>

definition ocall_write_vm_energy_impl ::
  "'f ExportLib \<Rightarrow> bytes \<Rightarrow> bytes \<Rightarrow> u64 \<Rightarrow> u64 \<Rightarrow> bytes \<Rightarrow> bytes \<Rightarrow> 'f \<Rightarrow> (int \<times> 'f) exec" where
  "ocall_write_vm_energy_impl lib base vm_name_bytes uj_value counter previous_hash signature f =
     (if \<not> utf8_valid vm_name_bytes then Done (1, f)
      else
        and_then (write_updates_with_chain lib base [\<lparr>vu_vm_name = vm_name_bytes, vu_uj_to_add = uj_value\<rparr>]
                    counter previous_hash signature f) (\<lambda>(r, f).
          Done (if is_ok r then 0 else 2, f)))"

section \<open>The runner hands the enclave's updates to the callback\<close>

text \<open>The first 32 bytes of a hexadecimal field, or zeros when it is no such field or shorter.\<close>

definition field_32 :: "'f ExportLib \<Rightarrow> bytes \<Rightarrow> bytes" where
  "field_32 lib text =
     (let b = (case xl_hexdec lib text of Ok b \<Rightarrow> b | Err e \<Rightarrow> [])
      in if 32 \<le> length b then take 32 b else zero_hash)"

fun deliver_updates :: "'f ExportLib \<Rightarrow> bytes \<Rightarrow> SignedVmUpdate list \<Rightarrow> 'f \<Rightarrow> 'f exec" where
  "deliver_updates lib base [] f = Done f"
| "deliver_updates lib base (u # us) f =
     and_then (ocall_write_vm_energy_impl lib base (su_vm_name u) (su_uj_value u) (su_counter u)
                 (field_32 lib (su_previous_hash u)) (field_32 lib (su_signature u)) f) (\<lambda>(status, f).
       deliver_updates lib base us f)"

section \<open>The guest exporter\<close>

text \<open>What serde finds in the metadata: absent or mistyped entries are \<open>None\<close>.\<close>

record ChainMetadata =
  cm_counter :: "u64 option"
  cm_previous_hash :: "bytes option"
  cm_signature :: "bytes option"
  cm_energy_delta :: "u64 option"

record 'f GuestExporterLib =
  xg_files :: "'f FileOps"
  xg_hexdec :: "bytes \<Rightarrow> (bytes, bytes) result"
  xg_chain :: "bytes \<Rightarrow> ChainMetadata option"

definition chain_dir :: bytes where
  "chain_dir = str ''/var/scaphandre/intel-rapl:0''"

definition read_text :: "'f FileOps \<Rightarrow> 'f \<Rightarrow> bytes \<Rightarrow> bytes option" where
  "read_text ops f path =
     (case fo_read ops f path of Ok c \<Rightarrow> (if utf8_valid c then Some c else None) | Err e \<Rightarrow> None)"

text \<open>
  The fields of a chain step; the cycle is skipped when a file is missing or a field is no hexadecimal. The
  lengths are looked at after the processes were read.
\<close>

definition read_chain_step ::
  "'f GuestExporterLib \<Rightarrow> 'f \<Rightarrow> (u64 \<times> u64 \<times> bytes \<times> bytes \<times> u64) option" where
  "read_chain_step lib f =
     (case read_text (xg_files lib) f (energy_file chain_dir) of
        None \<Rightarrow> None
      | Some content \<Rightarrow>
          (let energy_uj = (case parse_u64 (trim content) of Some v \<Rightarrow> v | None \<Rightarrow> 0) in
           case read_text (xg_files lib) f (chain_file chain_dir) of
             None \<Rightarrow> None
           | Some chain_json \<Rightarrow>
               (case xg_chain lib chain_json of
                  None \<Rightarrow> None
                | Some chain \<Rightarrow>
                    (let counter = (case cm_counter chain of Some c \<Rightarrow> c | None \<Rightarrow> 0);
                         prev_hash_hex = (case cm_previous_hash chain of Some t \<Rightarrow> t | None \<Rightarrow> []);
                         signature_hex = (case cm_signature chain of Some t \<Rightarrow> t | None \<Rightarrow> []);
                         energy_delta = (case cm_energy_delta chain of Some d \<Rightarrow> d | None \<Rightarrow> 0)
                     in case xg_hexdec lib prev_hash_hex of
                          Err e \<Rightarrow> None
                        | Ok prev_hash \<Rightarrow>
                            (case xg_hexdec lib signature_hex of
                               Err e \<Rightarrow> None
                             | Ok signature \<Rightarrow>
                                 Some (energy_uj, counter, prev_hash, signature, energy_delta))))))"

text \<open>The processes: for every numbered directory, the ticks since the last cycle.\<close>

definition ticks_of :: "bytes \<Rightarrow> u64 option" where
  "ticks_of stat_content =
     (let parts = split_whitespace stat_content in
      if length parts > 14 then
        Some (saturating_add (case parse_u64 (parts ! 13) of Some t \<Rightarrow> t | None \<Rightarrow> 0)
                (case parse_u64 (parts ! 14) of Some t \<Rightarrow> t | None \<Rightarrow> 0))
      else None)"

definition parse_pid :: "bytes \<Rightarrow> u32 option" where
  "parse_pid s = (case parse_u64 s of Some v \<Rightarrow> (if v < 2 ^ 32 then Some (ucast v) else None) | None \<Rightarrow> None)"

fun collect_processes ::
  "(u32 \<rightharpoonup> u64) \<Rightarrow> (bytes \<times> bytes option) list \<Rightarrow> (u32 \<rightharpoonup> u64) \<Rightarrow> (u32 \<times> u64) list \<times> (u32 \<rightharpoonup> u64)" where
  "collect_processes prev_ticks [] current_ticks = ([], current_ticks)"
| "collect_processes prev_ticks ((file_name, stat_content) # entries) current_ticks =
     (case (parse_pid file_name, map_option ticks_of stat_content) of
        (Some pid, Some (Some ticks)) \<Rightarrow>
          (let delta = (case prev_ticks pid of Some prev \<Rightarrow> saturating_sub ticks prev | None \<Rightarrow> 0);
               (rest, final_ticks) = collect_processes prev_ticks entries (current_ticks(pid \<mapsto> ticks))
           in ((pid, delta) # rest, final_ticks))
      | _ \<Rightarrow> collect_processes prev_ticks entries current_ticks)"

text \<open>
  One iteration up to the call of the enclave: the arguments of the call when there is one, and the ticks
  that the next iteration compares with.
\<close>

definition export_iteration ::
  "'f GuestExporterLib \<Rightarrow> 'f \<Rightarrow> (bytes \<times> bytes option) list \<Rightarrow> (u32 \<rightharpoonup> u64) \<Rightarrow>
   (u64 \<times> u64 \<times> bytes \<times> bytes \<times> u64 \<times> (u32 \<times> u64) list) option \<times> (u32 \<rightharpoonup> u64)" where
  "export_iteration lib f proc_entries prev_ticks =
     (case read_chain_step lib f of
        None \<Rightarrow> (None, prev_ticks)
      | Some (energy_uj, counter, prev_hash, signature, energy_delta) \<Rightarrow>
          (let (processes, current_ticks) = collect_processes prev_ticks proc_entries (\<lambda>_. None) in
           (if length prev_hash \<noteq> 32 \<or> length signature \<noteq> 32 then None
            else Some (energy_uj, counter, prev_hash, signature, energy_delta, processes),
            current_ticks)))"

section \<open>From the host's signature to the guest's verifier\<close>

text \<open>Files that work: what is written is read back, other files keep their content, and directories hold none.\<close>

definition files_work :: "'f FileOps \<Rightarrow> bool" where
  "files_work ops \<longleftrightarrow>
     (\<forall>f p. \<exists>f'. fo_create_dir_all ops f p = (Ok (), f') \<and> fo_read ops f' = fo_read ops f) \<and>
     (\<forall>f p c. \<exists>f'. fo_write ops f p c = (Ok (), f') \<and> fo_read ops f' = (fo_read ops f)(p := Ok c))"

text \<open>serde and the hexadecimal crate as documented, and the guest's directory mounted from the host's.\<close>

definition export_documented :: "'f ExportLib \<Rightarrow> bool" where
  "export_documented lib \<longleftrightarrow> files_work (xl_files lib) \<and> xl_hexenc lib = hex_lower \<and>
     (\<forall>b. xl_hexdec lib (hex_lower b) = Ok b)"

definition mounted :: "'f ExportLib \<Rightarrow> bytes \<Rightarrow> bytes \<Rightarrow> 'f GuestExporterLib \<Rightarrow> bool" where
  "mounted lib base vm_name g \<longleftrightarrow>
     (\<forall>f. fo_read (xg_files g) f (energy_file chain_dir) = fo_read (xl_files lib) f (energy_file (vm_path base vm_name)) \<and>
        fo_read (xg_files g) f (chain_file chain_dir) = fo_read (xl_files lib) f (chain_file (vm_path base vm_name))) \<and>
     (\<forall>b. xg_hexdec g (hex_lower b) = Ok b) \<and>
     (\<forall>c d p s. utf8_valid (xl_chain_json lib c d (hex_lower p) (hex_lower s) vm_name) \<and>
        xg_chain g (xl_chain_json lib c d (hex_lower p) (hex_lower s) vm_name) =
          Some \<lparr>cm_counter = Some c, cm_previous_hash = Some (hex_lower p), cm_signature = Some (hex_lower s),
            cm_energy_delta = Some d\<rparr>)"

text \<open>The files hold every chain's cumulative energy.\<close>

definition files_hold :: "'f ExportLib \<Rightarrow> bytes \<Rightarrow> host_chains \<Rightarrow> 'f \<Rightarrow> bool" where
  "files_hold lib base cs f \<longleftrightarrow>
     (\<forall>vm h. cs vm = Some h \<longrightarrow> hc_counter h \<noteq> 0 \<and> length (hc_chain_state h) = 32 \<and>
        fo_read (xl_files lib) f (energy_file (vm_path base vm)) = Ok (dec_u64 (hc_cumulative_energy_uj h)))"

lemma vm_path_inj: "vm_path base a = vm_path base b \<longleftrightarrow> a = b"
  by (simp add: vm_path_def)

lemma energy_file_inj: "energy_file p = energy_file q \<longleftrightarrow> p = q"
  by (simp add: energy_file_def)

lemma chain_file_not_energy: "chain_file p \<noteq> energy_file q"
proof
  assume "chain_file p = energy_file q"
  then have "last (chain_file p) = last (energy_file q)" by simp
  then show False by (simp add: chain_file_def energy_file_def str_def)
qed

lemma dec_u64_valid: "utf8_valid (dec_u64 n)"
proof -
  have "c < 0x80" if "is_digit c" for c using that by (simp add: is_digit_def word_le_nat_alt word_less_nat_alt)
  then show ?thesis using dec_digits [of "unat n"] by (intro ascii_valid) (auto simp: dec_u64_def list_all_iff)
qed

lemma current_energy_dec:
  "fo_read (xl_files lib) f (energy_file p) = Ok (dec_u64 n) \<Longrightarrow> current_energy lib p f = n"
  by (simp add: current_energy_def dec_u64_valid) (simp add: dec_u64_def trim_dec parse_dec_u64 [unfolded dec_u64_def])

lemma files_write:
  assumes "files_work ops"
  obtains f' where "fo_write ops f p c = (Ok (), f')" "fo_read ops f' = (fo_read ops f)(p := Ok c)"
  using assms unfolding files_work_def by blast

lemma ensure_dir_ok:
  assumes "files_work (xl_files lib)"
  obtains f' where "ensure_dir lib p f = (Ok (), f')" "fo_read (xl_files lib) f' = fo_read (xl_files lib) f"
proof (cases "fo_exists (xl_files lib) f p")
  case True
  then show thesis by (intro that [of f]) (simp_all add: ensure_dir_def)
next
  case False
  obtain f' where "fo_create_dir_all (xl_files lib) f p = (Ok (), f')" "fo_read (xl_files lib) f' = fo_read (xl_files lib) f"
    using assms unfolding files_work_def by blast
  then show thesis using False by (intro that [of f']) (simp_all add: ensure_dir_def)
qed

text \<open>Writing one update leaves the energy it should, and the metadata.\<close>

lemma write_update_effect:
  assumes "files_work (xl_files lib)"
    and "if is_chain_restart counter prev then e = vu_uj_to_add u
      else unat (current_energy lib (vm_path base (vu_vm_name u)) f) + unat (vu_uj_to_add u) < 2 ^ 64 \<and>
        e = current_energy lib (vm_path base (vu_vm_name u)) f + vu_uj_to_add u"
  obtains f' where "write_update_with_chain lib base counter prev sig u f = Done (Ok (), f')"
    "fo_read (xl_files lib) f' = (fo_read (xl_files lib) f)
       (energy_file (vm_path base (vu_vm_name u)) := Ok (dec_u64 e),
        chain_file (vm_path base (vu_vm_name u)) :=
          Ok (xl_chain_json lib counter (vu_uj_to_add u) (xl_hexenc lib prev) (xl_hexenc lib sig) (vu_vm_name u)))"
proof -
  let ?p = "vm_path base (vu_vm_name u)"
  obtain f1 where 1: "ensure_dir lib ?p f = (Ok (), f1)" "fo_read (xl_files lib) f1 = fo_read (xl_files lib) f"
    by (rule ensure_dir_ok [OF assms(1)])
  obtain f2 where 2: "fo_write (xl_files lib) f1 (energy_file ?p) (dec_u64 e) = (Ok (), f2)"
    "fo_read (xl_files lib) f2 = (fo_read (xl_files lib) f1)(energy_file ?p := Ok (dec_u64 e))"
    by (rule files_write [OF assms(1)])
  obtain f3 where 3: "fo_write (xl_files lib) f2 (chain_file ?p)
      (xl_chain_json lib counter (vu_uj_to_add u) (xl_hexenc lib prev) (xl_hexenc lib sig) (vu_vm_name u)) = (Ok (), f3)"
    "fo_read (xl_files lib) f3 = (fo_read (xl_files lib) f2)(chain_file ?p :=
      Ok (xl_chain_json lib counter (vu_uj_to_add u) (xl_hexenc lib prev) (xl_hexenc lib sig) (vu_vm_name u)))"
    by (rule files_write [OF assms(1)])
  have c: "current_energy lib ?p f1 = current_energy lib ?p f" by (simp add: current_energy_def 1)
  show thesis
    using assms(2) 1 2 3 c
    by (intro that [of f3])
      (auto simp: write_update_with_chain_def write_exact_def add_or_create_def Let_def checked_add_def split: if_splits)
qed

text \<open>
  Cycle by cycle: the host signs an update and its runner delivers it; the machine's exporter reads its files
  and has its enclave verify what it read. The codes are the guests' verdicts, \<open>None\<close> where the exporter skips.
\<close>

definition guest_verdict ::
  "(bytes \<Rightarrow> bytes \<Rightarrow> bytes) \<Rightarrow> (bytes \<Rightarrow> bytes) \<Rightarrow> bytes \<Rightarrow> (u64 \<times> u64 \<times> bytes \<times> bytes \<times> u64) option \<Rightarrow>
   chain_states \<Rightarrow> int option \<times> chain_states" where
  "guest_verdict hmac master vm_name reading t =
     (case reading of
        None \<Rightarrow> (None, t)
      | Some (energy_uj, counter, prev_hash, signature, energy_delta) \<Rightarrow>
          (let (code, t) = ecall_verify_energy_chain hmac hex_lower master (Some vm_name) energy_uj energy_delta
                 counter (Some prev_hash) (Some signature) t
           in (Some code, t)))"

fun energy_path ::
  "'f ExportLib \<Rightarrow> bytes \<Rightarrow> (bytes \<Rightarrow> 'f GuestExporterLib) \<Rightarrow> (bytes \<Rightarrow> bytes \<Rightarrow> bytes) \<Rightarrow> (bytes \<Rightarrow> bytes) \<Rightarrow>
   VmEnergyUpdate list \<Rightarrow> host_chains \<Rightarrow> 'f \<Rightarrow> chain_states \<Rightarrow>
   (int option list \<times> host_chains \<times> 'f \<times> chain_states) exec" where
  "energy_path lib base guests hmac master [] cs f t = Done ([], cs, f, t)"
| "energy_path lib base guests hmac master (u # us) cs f t =
     and_then (sign_update hmac (xl_hexenc lib) master u cs) (\<lambda>(r, cs).
     and_then (deliver_updates lib base [signed_vm_update (xl_hexenc lib) r] f) (\<lambda>f.
       (let (code, t) = guest_verdict hmac master (vu_vm_name u) (read_chain_step (guests (vu_vm_name u)) f) t
        in and_then (energy_path lib base guests hmac master us cs f t) (\<lambda>(codes, rest).
             Done (code # codes, rest)))))"

lemma field_32_hex: "\<forall>b. xl_hexdec lib (hex_lower b) = Ok b \<Longrightarrow> length v = 32 \<Longrightarrow> field_32 lib (hex_lower v) = v"
  by (simp add: field_32_def)

lemma read_step_mounted:
  assumes "mounted lib base vm g"
    and "fo_read (xl_files lib) f (energy_file (vm_path base vm)) = Ok (dec_u64 e)"
    and "fo_read (xl_files lib) f (chain_file (vm_path base vm)) = Ok (xl_chain_json lib c d (hex_lower p) (hex_lower s) vm)"
  shows "read_chain_step g f = Some (e, c, p, s, d)"
  using assms dec_u64_valid [of e] parse_dec_u64 [of e]
  by (simp add: read_chain_step_def read_text_def mounted_def Let_def) (simp add: dec_u64_def trim_dec)

lemma deliver_step:
  assumes doc: "export_documented lib" and inv: "host_inv hmac master n cs" "n + 1 < 2 ^ 64"
    and hold: "files_hold lib base cs f" and mac: "\<forall>k m. length (hmac k m) = 32"
    and utf8: "utf8_valid (vu_vm_name u)"
    and fits: "unat (hc_cumulative_energy_uj (host_chain_entry hmac master cs (vu_vm_name u))) + unat (vu_uj_to_add u) < 2 ^ 64"
    and sign: "sign_update hmac hex_lower master u cs = Done (r, cs')"
  shows "\<exists>f'. deliver_updates lib base [signed_vm_update hex_lower r] f = Done f' \<and> files_hold lib base cs' f' \<and>
    (\<forall>g. mounted lib base (vu_vm_name u) g \<longrightarrow>
       read_chain_step g f' = Some (sr_cumulative r, sr_counter r, sr_previous_hash r, sr_signature r, sr_uj_to_add r))"
proof -
  let ?vm = "vu_vm_name u" and ?d = "vu_uj_to_add u"
  let ?h = "host_chain_entry hmac master cs ?vm"
  let ?c = "hc_counter ?h + 1" and ?p = "hc_chain_state ?h" and ?e = "hc_cumulative_energy_uj ?h + ?d"
  have files: "files_work (xl_files lib)" and hex: "xl_hexenc lib = hex_lower" "\<forall>b. xl_hexdec lib (hex_lower b) = Ok b"
    using doc by (simp_all add: export_documented_def)
  have n: "unat (hc_counter ?h) \<le> n" using host_entry_key [OF inv(1)] by blast
  then have add: "checked_add (hc_counter ?h) 1 = Done ?c" using inv(2) by (simp add: checked_add_def)
  have c0: "?c \<noteq> 0" using n inv(2) by (simp add: u64_eq_iff unat_word_ariths)
  obtain s where r: "r = \<lparr>sr_vm_name = ?vm, sr_uj_to_add = ?d, sr_counter = ?c, sr_cumulative = ?e,
      sr_previous_hash = ?p, sr_signature = s\<rparr>" and s: "length s = 32"
    and cs': "cs' = cs(?vm \<mapsto> \<lparr>hc_hmac_key = hc_hmac_key ?h, hc_chain_state = s, hc_counter = ?c,
      hc_cumulative_energy_uj = ?e\<rparr>)"
    using sign mac fits by (auto simp: sign_update_def add Let_def saturating_add_def)
  have p: "length ?p = 32"
    using hold by (auto simp: host_chain_entry_def files_hold_def zero_hash_def split: option.splits)
  have e: "if is_chain_restart ?c ?p then ?e = ?d
      else unat (current_energy lib (vm_path base ?vm) f) + unat ?d < 2 ^ 64 \<and> ?e = current_energy lib (vm_path base ?vm) f + ?d"
  proof (cases "cs ?vm")
    case None
    then show ?thesis by (simp add: host_chain_entry_def is_chain_restart_def zero_hash_def list_all_iff)
  next
    case (Some h)
    then have "?h = h" by (simp add: host_chain_entry_def)
    moreover have "hc_counter h \<noteq> 0" "current_energy lib (vm_path base ?vm) f = hc_cumulative_energy_uj h"
      using hold Some by (auto simp: files_hold_def intro: current_energy_dec)
    ultimately show ?thesis using fits by (simp add: is_chain_restart_def)
  qed
  obtain f' where w: "write_update_with_chain lib base ?c ?p s u f = Done (Ok (), f')"
    and f': "fo_read (xl_files lib) f' = (fo_read (xl_files lib) f)
       (energy_file (vm_path base ?vm) := Ok (dec_u64 ?e),
        chain_file (vm_path base ?vm) := Ok (xl_chain_json lib ?c ?d (xl_hexenc lib ?p) (xl_hexenc lib s) ?vm))"
    by (rule write_update_effect [OF files e])
  have u: "\<lparr>vu_vm_name = ?vm, vu_uj_to_add = ?d\<rparr> = u" by simp
  have "deliver_updates lib base [signed_vm_update hex_lower r] f = Done f'"
    using w utf8 field_32_hex [OF hex(2) p] field_32_hex [OF hex(2) s]
    by (simp add: signed_vm_update_def r ocall_write_vm_energy_impl_def u)
  moreover have "files_hold lib base cs' f'"
    using hold c0 s
    by (auto simp: files_hold_def cs' f' energy_file_inj vm_path_inj chain_file_not_energy [THEN not_sym])
  moreover have "read_chain_step g f' = Some (?e, ?c, ?p, s, ?d)" if "mounted lib base ?vm g" for g
    by (intro read_step_mounted [OF that]) (simp_all add: f' hex chain_file_not_energy [THEN not_sym])
  ultimately show ?thesis by (auto simp: r)
qed

lemma energy_path_accepted:
  assumes "export_documented lib" "\<forall>vm. mounted lib base vm (guests vm)" "\<forall>k m. length (hmac k m) = 32"
    and "host_inv hmac master n cs" "n + length us < 2 ^ 64" "list_all (\<lambda>u. utf8_valid (vu_vm_name u)) us"
    and "files_hold lib base cs f" "\<forall>vm h. cs vm = Some h \<longrightarrow> unat (hc_cumulative_energy_uj h) \<le> e"
    and "e + sum_list (map (\<lambda>u. unat (vu_uj_to_add u)) us) < 2 ^ 64"
  shows "\<exists>cs' f'. energy_path lib base guests hmac master us cs f (guest_view cs) =
    Done (map (\<lambda>i. Some (if vu_vm_name (us ! i) \<in> dom cs \<union> vu_vm_name ` set (take i us) then 0 else 1))
       [0..<length us], cs', f', guest_view cs') \<and> files_hold lib base cs' f'"
  using assms(4-)
proof (induction us arbitrary: n cs f e)
  case Nil
  then show ?case by auto
next
  case (Cons u us)
  from Cons.prems have b: "n + 1 < 2 ^ 64" and utf8: "utf8_valid (vu_vm_name u)" by simp_all
  have hex: "xl_hexenc lib = hex_lower" using assms(1) by (simp add: export_documented_def)
  let ?h = "host_chain_entry hmac master cs (vu_vm_name u)"
  have le: "unat (hc_cumulative_energy_uj ?h) \<le> e"
    using Cons.prems(5) by (auto simp: host_chain_entry_def split: option.splits)
  have "e + unat (vu_uj_to_add u) < 2 ^ 64" using Cons.prems(6) by simp
  with le have fits: "unat (hc_cumulative_energy_uj ?h) + unat (vu_uj_to_add u) < 2 ^ 64" by linarith
  obtain r cs1 where 1: "sign_update hmac hex_lower master u cs = Done (r, cs1)"
    and 2: "host_inv hmac master (n + 1) cs1" "sr_vm_name r = vu_vm_name u" "dom cs1 = insert (vu_vm_name u) (dom cs)"
    by (rule sign_update_Done [OF Cons.prems(1) b])
  obtain f1 where 3: "deliver_updates lib base [signed_vm_update hex_lower r] f = Done f1" "files_hold lib base cs1 f1"
    "read_chain_step (guests (vu_vm_name u)) f1 =
       Some (sr_cumulative r, sr_counter r, sr_previous_hash r, sr_signature r, sr_uj_to_add r)"
    using deliver_step [OF assms(1) Cons.prems(1) b Cons.prems(4) assms(3) utf8 fits 1] assms(2) by blast
  have 4: "guest_verdict hmac master (vu_vm_name u) (read_chain_step (guests (vu_vm_name u)) f1) (guest_view cs) =
      (Some (if vu_vm_name u \<in> dom cs then 0 else 1), guest_view cs1)"
    using sign_update_accepted [OF Cons.prems(1) b utf8 1] by (simp add: guest_verdict_def 3 verify_reading_def 2)
  have e1: "\<forall>vm h. cs1 vm = Some h \<longrightarrow> unat (hc_cumulative_energy_uj h) \<le> e + unat (vu_uj_to_add u)"
  proof -
    have "\<forall>vm h. cs vm = Some h \<longrightarrow> unat (hc_cumulative_energy_uj h) \<le> e + unat (vu_uj_to_add u)"
      using Cons.prems(5) trans_le_add1 by blast
    then show ?thesis
      using 1 le by (auto simp: sign_update_def Let_def unat_saturating_add min_le_iff_disj split: exec.splits if_splits)
  qed
  obtain cs' f' where 5: "energy_path lib base guests hmac master us cs1 f1 (guest_view cs1) =
    Done (map (\<lambda>i. Some (if vu_vm_name (us ! i) \<in> dom cs1 \<union> vu_vm_name ` set (take i us) then 0 else 1))
       [0..<length us], cs', f', guest_view cs')" "files_hold lib base cs' f'"
    using Cons.IH [OF 2(1) _ _ 3(2) e1] Cons.prems(2,3,6) by auto
  have "[0..<length (u # us)] = 0 # map Suc [0..<length us]"
    by (simp add: map_Suc_upt upt_conv_Cons del: upt_Suc)
  then show ?case
    using 1 3(1) 4 5 2(3) by (intro exI [of _ cs'] exI [of _ f']) (auto simp: hex Let_def simp del: upt_Suc)
qed


text \<open>A file system in memory, and metadata of four fields separated by spaces.\<close>

definition tiny_files :: "(bytes \<rightharpoonup> bytes) FileOps" where
  "tiny_files =
     \<lparr>fo_exists = (\<lambda>f p. f p \<noteq> None), fo_create_dir_all = (\<lambda>f p. (Ok (), f)),
      fo_read = (\<lambda>f p. case f p of Some c \<Rightarrow> Ok c | None \<Rightarrow> Err []), fo_write = (\<lambda>f p c. (Ok (), f(p \<mapsto> c)))\<rparr>"

definition tiny_hexdec :: "bytes \<Rightarrow> (bytes, bytes) result" where
  "tiny_hexdec t = (case hex_pairs t of Some b \<Rightarrow> Ok b | None \<Rightarrow> Err [])"

definition tiny_export :: "(bytes \<rightharpoonup> bytes) ExportLib" where
  "tiny_export =
     \<lparr>xl_files = tiny_files, xl_hexenc = hex_lower, xl_hexdec = tiny_hexdec,
      xl_chain_json = (\<lambda>c d p s vm. dec_u64 c @ [32] @ dec_u64 d @ [32] @ p @ [32] @ s)\<rparr>"

definition tiny_chain :: "bytes \<Rightarrow> ChainMetadata option" where
  "tiny_chain t =
     (case split_once 32 t of
        Some (c, t) \<Rightarrow>
          (case split_once 32 t of
             Some (d, t) \<Rightarrow>
               (case split_once 32 t of
                  Some (p, s) \<Rightarrow>
                    Some \<lparr>cm_counter = parse_u64 c, cm_previous_hash = Some p, cm_signature = Some s,
                      cm_energy_delta = parse_u64 d\<rparr>
                | None \<Rightarrow> None)
           | None \<Rightarrow> None)
      | None \<Rightarrow> None)"

text \<open>The guest of a machine sees the machine's directory.\<close>

definition tiny_exporter :: "bytes \<Rightarrow> (bytes \<rightharpoonup> bytes) GuestExporterLib" where
  "tiny_exporter vm =
     \<lparr>xg_files = tiny_files\<lparr>fo_read := (\<lambda>f p. if p = energy_file chain_dir then fo_read tiny_files f (energy_file (vm_path [] vm))
          else if p = chain_file chain_dir then fo_read tiny_files f (chain_file (vm_path [] vm)) else Err [])\<rparr>,
      xg_hexdec = tiny_hexdec, xg_chain = tiny_chain\<rparr>"

lemma split_once_found: "c \<notin> set a \<Longrightarrow> split_once c (a @ c # b) = Some (a, b)"
  by (induction a) auto

lemma dec_u64_plain: "x \<in> set (dec_u64 n) \<Longrightarrow> x \<noteq> 32 \<and> x < 0x80"
  using dec_digits [of "unat n"] by (auto simp: dec_u64_def list_all_iff is_digit_def word_le_nat_alt word_less_nat_alt)

lemma hex_lower_plain: "x \<in> set (hex_lower v) \<Longrightarrow> x \<noteq> 32 \<and> x < 0x80"
  using hex_lower_range [of x v] by (auto simp: graphic_def)

lemma tiny_mounted: "mounted tiny_export [] vm (tiny_exporter vm)"
proof -
  have "split_once 32 (dec_u64 c @ [32] @ t) = Some (dec_u64 c, t)"
    "split_once 32 (hex_lower p @ [32] @ t) = Some (hex_lower p, t)" for c p t
    using dec_u64_plain hex_lower_plain by (auto intro!: split_once_found)
  moreover have "utf8_valid (dec_u64 c @ [32] @ dec_u64 d @ [32] @ hex_lower p @ [32] @ hex_lower s)" for c d p s
    using dec_u64_plain hex_lower_plain by (intro ascii_valid) (auto simp: list_all_iff)
  ultimately show ?thesis
    by (simp add: mounted_def tiny_export_def tiny_exporter_def tiny_files_def tiny_hexdec_def hex_pairs_lower
        tiny_chain_def parse_dec_u64 chain_file_not_energy)
qed

lemma tiny_export_documented: "export_documented tiny_export"
  by (auto simp: export_documented_def files_work_def tiny_export_def tiny_files_def tiny_hexdec_def hex_pairs_lower)


end
