(* ===== verification/HostClient.thy ===== *)
theory HostClient
  imports EnclaveClient EnergyFiles
begin

text \<open>
  The client side of the host enclave (\<open>src/src/sgx_runner.rs\<close>, in the build with \<open>use_sgx\<close> and
  \<open>tpm_attestation\<close>), its callers in \<open>src/src/exporters/export_vm.rs\<close> and the start of a host
  (\<open>TpmAttestation::new\<close> of \<open>src/src/tpm_attestation.rs\<close>): the connection, the boot verification with its
  verdict that is kept for the life of the process, and the energy calls whose results go to the machines'
  files. The last part runs the client against the server of \<open>HostServer\<close>.
\<close>

section \<open>The connection\<close>

text \<open>\<open>RunnerEnv\<close> serves here too, with the host's own variables; the host's enclave is always local.\<close>

definition get_enclave_path :: "'w RunnerEnv \<Rightarrow> bytes option" where
  "get_enclave_path env =
     (case re_enclave_path env of
        Some path \<Rightarrow> (if re_exists env path then Some path else None)
      | None \<Rightarrow>
          List.find (re_exists env)
            [str ''target/x86_64-fortanix-unknown-sgx/release/sgx.sgxs'',
             str ''sgx/target/x86_64-fortanix-unknown-sgx/release/sgx.sgxs'',
             str ''/usr/lib/scaphandre/sgx.sgxs''])"

definition get_enclave_connection ::
  "'w RunnerEnv \<Rightarrow> 'w RunnerState \<Rightarrow> (int, 'w VmEnclaveConnection) result \<times> 'w RunnerState" where
  "get_enclave_connection env s =
     (case rn_connection s of
        Some conn \<Rightarrow> (Ok conn, s)
      | None \<Rightarrow>
          (let n = rn_attempts s; s1 = s\<lparr>rn_attempts := n + 1\<rparr> in
           case get_enclave_path env of
             None \<Rightarrow> (Err (-201), s1)
           | Some enclave_path \<Rightarrow>
               (case spawn_vm_enclave_with_tcp env n enclave_path of
                  Err e \<Rightarrow> (Err e, s1)
                | Ok tcp_stream \<Rightarrow>
                    (case create_tls_config env of
                       Err e \<Rightarrow> (Err e, s1)
                     | Ok _ \<Rightarrow>
                         (if \<not> re_server_name env then (Err (-242), s1)
                          else
                            (case re_tls env n tcp_stream of
                               None \<Rightarrow> (Err (-243), s1)
                             | Some w \<Rightarrow>
                                 (let conn = \<lparr>vc_stream = w, vc_child = True, vc_is_remote = False\<rparr>
                                  in (Ok conn, s1\<lparr>rn_connection := Some conn\<rparr>))))))))"

definition send_request_to_enclave ::
  "'w RunnerEnv \<Rightarrow> (bytes \<Rightarrow> 'r option) \<Rightarrow> bytes \<Rightarrow> 'w RunnerState \<Rightarrow> (int, 'r) result \<times> 'w RunnerState" where
  "send_request_to_enclave env parse request_json s =
     (case get_enclave_connection env s of
        (Err e, s) \<Rightarrow> (Err e, s)
      | (Ok conn, s) \<Rightarrow>
          (let (r, w) = send_tls_request (re_ops env) parse request_json (vc_stream conn)
           in (r, s\<lparr>rn_connection := Some (conn\<lparr>vc_stream := w\<rparr>)\<rparr>)))"

section \<open>Requests and state\<close>

datatype HostRequest =
    HostNonceReq
  | VerifyRequest bytes bytes nat bytes bytes bytes bytes bytes bool bytes bytes
  | ComputeRequest bytes bytes bytes "(u64 \<times> u64) option" u32 u16
  | CgroupComputeRequest bytes bytes bytes "(u64 \<times> u64) option" u32 u16

text \<open>
  The crates, the environment variables and the build: \<open>hk_device\<close> tells that the SGX device opens,
  \<open>hk_exe\<close> is the path of the running program, \<open>hk_tag_key\<close> and its companions are what the build tags with.
\<close>

record HostCallLib =
  hk_json :: "HostRequest \<Rightarrow> bytes"
  hk_parse :: "bytes \<Rightarrow> EnclaveResponse option"
  hk_hexenc :: "bytes \<Rightarrow> bytes"
  hk_hexdec :: "bytes \<Rightarrow> (bytes, bytes) result"
  hk_updates :: "bytes \<Rightarrow> SignedVmUpdate list option"
  hk_device :: bool
  hk_exe :: "bytes option"
  hk_skip_ima :: "bytes option"
  hk_deployment :: "bytes option"
  hk_immudb_addr :: "bytes option"
  hk_ca_cert :: "bytes option"
  hk_hostname :: bytes
  hk_tag_key :: "(u64 \<times> u64) option"
  hk_tag_epoch :: u32
  hk_tag_producer :: u16
  hk_node :: Node

text \<open>The statics: the connection, the verdict of the boot verification, and whether a callback is registered.\<close>

record 'w HostRunner =
  hn_runner :: "'w RunnerState"
  hn_verdict :: "(int, unit) result option"
  hn_ocall :: bool

definition host_send ::
  "'w RunnerEnv \<Rightarrow> HostCallLib \<Rightarrow> HostRequest \<Rightarrow> 'w HostRunner \<Rightarrow> (int, EnclaveResponse) result \<times> 'w HostRunner" where
  "host_send env lib request s =
     (let (r, n) = send_request_to_enclave env (hk_parse lib) (hk_json lib request) (hn_runner s)
      in (r, s\<lparr>hn_runner := n\<rparr>))"

definition host_request_nonce ::
  "'w RunnerEnv \<Rightarrow> HostCallLib \<Rightarrow> 'w HostRunner \<Rightarrow> bytes option \<times> 'w HostRunner" where
  "host_request_nonce env lib s =
     (case host_send env lib HostNonceReq s of
        (Ok r, s) \<Rightarrow> (if er_status r = 0 then er_output_data r else None, s)
      | (Err e, s) \<Rightarrow> (None, s))"

section \<open>The boot verification\<close>

text \<open>The line of the log that measures the running program with the digest of its file.\<close>

definition measures_binary :: "bytes \<Rightarrow> bytes \<Rightarrow> bytes \<Rightarrow> bool" where
  "measures_binary current_exe binary_hash line \<longleftrightarrow>
     ends_with current_exe line \<and>
     (let parts = split_whitespace line in
      length parts \<ge> 4 \<and>
      (case strip_prefix (str ''sha256:'') (parts ! 3) of
         Some hash \<Rightarrow> hash
       | None \<Rightarrow> (case strip_prefix (str ''sha1:'') (parts ! 3) of Some hash \<Rightarrow> hash | None \<Rightarrow> parts ! 3))
      = binary_hash)"

text \<open>The digest of the running program; whether the log has it only changes what is printed.\<close>

definition runner_extract_scaphandre_hash :: "HostCallLib \<Rightarrow> bytes \<Rightarrow> history \<Rightarrow> bytes \<times> history" where
  "runner_extract_scaphandre_hash lib ima_log h =
     (case hk_exe lib of
        None \<Rightarrow> (str ''current_exe_error'', h)
      | Some current_exe \<Rightarrow>
          (case read_bytes (hk_node lib) current_exe h of
             (Err e, h) \<Rightarrow> (str ''binary_read_error'', h)
           | (Ok binary_data, h) \<Rightarrow>
               (let binary_hash = hk_hexenc lib (nd_sha (hk_node lib) binary_data);
                    found_in_ima = list_ex (measures_binary current_exe binary_hash) (lines ima_log)
                in (if found_in_ima then binary_hash else binary_hash, h))))"

text \<open>The quote over the enclave's nonce with the registers it covers, or no quote and the caller's registers.\<close>

definition host_quote ::
  "'w RunnerEnv \<Rightarrow> HostCallLib \<Rightarrow> bytes \<Rightarrow> 'w HostRunner \<Rightarrow> history \<Rightarrow>
   (bytes \<times> bytes \<times> bytes) \<times> 'w HostRunner \<times> history" where
  "host_quote env lib pcr_values s h =
     (if snapshot_mode (hk_node lib) then ((pcr_values, [], []), s, h)
      else
        (case host_request_nonce env lib s of
           (None, s) \<Rightarrow> ((pcr_values, [], []), s, h)
         | (Some nonce, s) \<Rightarrow>
             (case generate_signed_quote (hk_node lib) nonce h of
                (Err e, h) \<Rightarrow> ((pcr_values, [], []), s, h)
              | (Ok (pcrs, attest, sig), h) \<Rightarrow> ((pcrs, hk_hexenc lib attest, hk_hexenc lib sig), s, h))))"

text \<open>The log that is sent: read again after a quote, so that it covers the register the quote signs.\<close>

definition host_log :: "HostCallLib \<Rightarrow> bytes \<Rightarrow> bytes \<Rightarrow> history \<Rightarrow> bytes \<times> history" where
  "host_log lib ima_log attest h =
     (if snapshot_mode (hk_node lib) \<or> attest = [] then (ima_log, h)
      else
        (case read_to_string (hk_node lib) (str ''/sys/kernel/security/ima/ascii_runtime_measurements'') h of
           (r, h) \<Rightarrow> (case r of Ok l \<Rightarrow> l | Err e \<Rightarrow> ima_log, h)))"

text \<open>The request with the evidence collected for it.\<close>

definition host_verify_request ::
  "'w RunnerEnv \<Rightarrow> HostCallLib \<Rightarrow> bytes \<Rightarrow> bytes \<Rightarrow> bytes \<Rightarrow> bytes \<Rightarrow> bytes \<Rightarrow> 'w HostRunner \<Rightarrow> history \<Rightarrow>
   HostRequest \<times> 'w HostRunner \<times> history" where
  "host_verify_request env lib pcr_values ima_log hostname deployment_type address s h =
     (let ima_hash = hk_hexenc lib (nd_sha (hk_node lib) ima_log);
          ima_count = length (lines ima_log);
          (scaphandre_hash, h) = runner_extract_scaphandre_hash lib ima_log h;
          skip_ima = (hk_skip_ima lib = Some (str ''1''));
          ((pcrs, attest, sig), s, h) = host_quote env lib pcr_values s h;
          (sent_log, h) = host_log lib ima_log attest h
      in (VerifyRequest (hk_hexenc lib pcrs) ima_hash ima_count scaphandre_hash sent_log hostname
            deployment_type address skip_ima attest sig, s, h))"

text \<open>A verdict of the enclave is kept and given again; without an answer there is none.\<close>

definition verify_in_sgx_enclave ::
  "'w RunnerEnv \<Rightarrow> HostCallLib \<Rightarrow> bytes \<Rightarrow> bytes \<Rightarrow> bytes \<Rightarrow> bytes \<Rightarrow> bytes \<Rightarrow> 'w HostRunner \<Rightarrow> history \<Rightarrow>
   (int, unit) result \<times> 'w HostRunner \<times> history" where
  "verify_in_sgx_enclave env lib pcr_values ima_log hostname deployment_type address s h =
     (case hn_verdict s of
        Some prev \<Rightarrow> (prev, s, h)
      | None \<Rightarrow>
          (if \<not> hk_device lib then (Err (-200), s, h)
           else
             (let (request, s, h) =
                    host_verify_request env lib pcr_values ima_log hostname deployment_type address s h
              in case host_send env lib request s of
                   (Err e, s) \<Rightarrow> (Err e, s, h)
                 | (Ok response, s) \<Rightarrow>
                     (let verdict = (if er_status response = 0 then Ok () else Err (er_status response))
                      in (verdict, s\<lparr>hn_verdict := Some verdict\<rparr>, h)))))"

text \<open>The argument's bytes as a text, or the default where the pointer is null or the bytes are no text.\<close>

definition text_or :: "string \<Rightarrow> bytes option \<Rightarrow> bytes" where
  "text_or fallback arg = (case arg of Some b \<Rightarrow> (if utf8_valid b then b else str fallback) | None \<Rightarrow> str fallback)"

text \<open>
  \<open>DEPLOYMENT_TYPE\<close>, trimmed and in lower case, when it names one of the two types; only ASCII capitals have
  the letters of these names as lower case.
\<close>

definition deployment_env :: "HostCallLib \<Rightarrow> bytes option" where
  "deployment_env lib =
     (case hk_deployment lib of
        None \<Rightarrow> None
      | Some s \<Rightarrow>
          (let t = to_lower (trim s) in if t = str ''vm'' \<or> t = str ''host'' then Some t else None))"

definition runner_verify_binary_hash ::
  "'w RunnerEnv \<Rightarrow> HostCallLib \<Rightarrow> bytes option \<Rightarrow> bytes option \<Rightarrow> bytes option \<Rightarrow> bytes option \<Rightarrow> bytes option \<Rightarrow>
   'w HostRunner \<Rightarrow> history \<Rightarrow> int \<times> 'w HostRunner \<times> history" where
  "runner_verify_binary_hash env lib pcr_values_ptr ima_log_ptr hostname_ptr deployment_type_ptr immudb_addr_ptr s h =
     (case pcr_values_ptr of
        None \<Rightarrow> (-1, s, h)
      | Some pcr_values \<Rightarrow>
          (if (case ima_log_ptr of Some b \<Rightarrow> \<not> utf8_valid b | None \<Rightarrow> False) then (-1, s, h)
           else
             (let ima_log = (case ima_log_ptr of Some b \<Rightarrow> b | None \<Rightarrow> []);
                  hostname = text_or ''unknown'' hostname_ptr;
                  deployment_type = (case deployment_env lib of
                    Some t \<Rightarrow> t | None \<Rightarrow> text_or ''host'' deployment_type_ptr);
                  address = text_or ''127.0.0.1:3322'' immudb_addr_ptr
              in case verify_in_sgx_enclave env lib pcr_values ima_log hostname deployment_type address s h of
                   (Ok _, s, h) \<Rightarrow> (0, s, h)
                 | (Err code, s, h) \<Rightarrow> (code, s, h))))"

section \<open>The callers in the exporter\<close>

text \<open>
  A text in lower case, as far as the search for the words below can tell: of the characters that are no
  ASCII capitals only the Kelvin sign has one of their letters as its lower case.
\<close>

definition lower_words :: "bytes \<Rightarrow> bytes" where
  "lower_words s = to_lower (replace_all [0xE2, 0x84, 0xAA] [107] s)"

fun dmi_names_vm :: "Node \<Rightarrow> bytes list \<Rightarrow> history \<Rightarrow> bool \<times> history" where
  "dmi_names_vm node [] h = (False, h)"
| "dmi_names_vm node (f # fs) h =
     (case read_to_string node f h of
        (Err e, h) \<Rightarrow> dmi_names_vm node fs h
      | (Ok v, h) \<Rightarrow>
          (if list_ex (\<lambda>w. contains w (lower_words v))
                [str ''kvm'', str ''qemu'', str ''virtualbox'', str ''vmware''] then (True, h)
           else dmi_names_vm node fs h))"

definition detect_deployment :: "HostCallLib \<Rightarrow> history \<Rightarrow> bytes \<times> history" where
  "detect_deployment lib h =
     (case deployment_env lib of
        Some t \<Rightarrow> (t, h)
      | None \<Rightarrow>
          (case dmi_names_vm (hk_node lib)
                  [str ''/sys/class/dmi/id/product_name'', str ''/sys/class/dmi/id/sys_vendor''] h of
             (True, h) \<Rightarrow> (str ''vm'', h)
           | (False, h) \<Rightarrow>
               (case read_to_string (hk_node lib) (str ''/proc/cpuinfo'') h of
                  (Ok cpuinfo, h) \<Rightarrow> (if contains (str ''hypervisor'') cpuinfo then str ''vm'' else str ''host'', h)
                | (Err e, h) \<Rightarrow> (str ''host'', h))))"

fun first_existing :: "Node \<Rightarrow> bytes list \<Rightarrow> history \<Rightarrow> bytes option \<times> history" where
  "first_existing node [] h = (None, h)"
| "first_existing node (p # ps) h =
     (if nd_exists node h p then (Some p, h @ [LookUp p]) else first_existing node ps (h @ [LookUp p]))"

definition ca_pem_path :: "HostCallLib \<Rightarrow> history \<Rightarrow> bytes \<times> history" where
  "ca_pem_path lib h =
     (case hk_ca_cert lib of
        Some p \<Rightarrow> (p, h)
      | None \<Rightarrow>
          (let (found, h) = first_existing (hk_node lib)
                 [str ''enclave_ca.pem'', str ''./enclave_ca.pem'', str ''/etc/scaphandre/ca.pem''] h
           in (case found of Some p \<Rightarrow> p | None \<Rightarrow> str ''enclave_ca.pem'', h)))"

definition boot_status_text :: "int \<Rightarrow> (bytes, unit) result" where
  "boot_status_text status =
     (if status = 0 then Ok ()
      else if status = -1 then Err (str ''Null pointer error'')
      else if status = -2 then Err (str ''Invalid PCR data - IMA not active'')
      else if status = -3 then Err (str ''IMA log parse error'')
      else if status = -4 then Err (str ''Scaphandre binary not found in IMA log'')
      else if status = -5 then Err (str ''ImmuDB connection failed (inside SGX)'')
      else if status = -6 then Err (str ''HASH MISMATCH - Binary has been tampered!'')
      else if status = -99 then Err (str ''mbedtls feature not enabled in SGX'')
      else if status = 13 then Err (str ''Scaphandre binary hash mismatch - binary has been modified'')
      else Err (str ''Unknown error from SGX enclave, status = '' @ dec_int status))"

definition verify_boot_attestation_in_sgx ::
  "'w RunnerEnv \<Rightarrow> HostCallLib \<Rightarrow> AttestationQuote \<Rightarrow> 'w HostRunner \<Rightarrow> history \<Rightarrow>
   (bytes, unit) result \<times> 'w HostRunner \<times> history" where
  "verify_boot_attestation_in_sgx env lib quote s h =
     (let (deployment_type, h) = detect_deployment lib h;
          address = (case hk_immudb_addr lib of Some a \<Rightarrow> a | None \<Rightarrow> str ''192.168.122.1:8443'');
          (path, h) = ca_pem_path lib h
      in case read_to_string (hk_node lib) path h of
           (Err (NodeError k e), h) \<Rightarrow> (Err (str ''Failed to read CA cert from '' @ path @ str '': '' @ e), s, h)
         | (Ok ca_pem, h) \<Rightarrow>
             (let (status, s, h) = runner_verify_binary_hash env lib (Some (aq_pcr_values quote))
                    (Some (aq_ima_log quote)) (Some (hk_hostname lib)) (Some deployment_type) (Some address) s h
              in (boot_status_text status, s, h)))"

text \<open>\<open>TpmAttestation::new\<close>: a host starts with a key only after its enclave has admitted it.\<close>

definition tpm_attestation_new ::
  "'w RunnerEnv \<Rightarrow> HostCallLib \<Rightarrow> 'w HostRunner \<Rightarrow> history \<Rightarrow>
   ((node_error, bytes) result \<times> 'w HostRunner \<times> history) exec" where
  "tpm_attestation_new env lib s h =
     (case detect_vtpm (hk_node lib) h of
        (False, h) \<Rightarrow>
          Done (Err (NodeError NotFound (str ''TPM device not found. For VMs, ensure vTPM is configured.'')), s, h)
      | (True, h) \<Rightarrow>
          (case read_and_display_pcrs (hk_node lib) h of
             (Err e, h) \<Rightarrow> Done (Err e, s, h)
           | (Ok _, h) \<Rightarrow>
               and_then (generate_tpm_quote (hk_node lib) h) (\<lambda>q.
                 case q of
                   (Err e, h) \<Rightarrow> Done (Err e, s, h)
                 | (Ok quote, h) \<Rightarrow>
                     (case verify_boot_attestation_in_sgx env lib quote s h of
                        (Err e, s, h) \<Rightarrow>
                          Done (Err (NodeError PermissionDenied (str ''BOOT ATTESTATION FAILED: '' @ e @ [10]
                            @ str ''System integrity cannot be verified. Refusing to start.'')), s, h)
                      | (Ok _, s, h) \<Rightarrow>
                          (let (r, h) = obtain_key (hk_node lib) (unseal_hmac_key_via_tpm2tools (hk_node lib)) h
                           in Done (r, s, h))))))"

text \<open>\<open>main\<close> on a host: without the key the process exits with status 1 (\<open>None\<close>).\<close>

definition start_host ::
  "'w RunnerEnv \<Rightarrow> HostCallLib \<Rightarrow> 'w HostRunner \<Rightarrow> history \<Rightarrow> (bytes option \<times> 'w HostRunner \<times> history) exec" where
  "start_host env lib s h =
     and_then (tpm_attestation_new env lib s h) (\<lambda>(r, s, h).
       Done (case r of Ok key \<Rightarrow> Some key | Err e \<Rightarrow> None, s, h))"

section \<open>The energy calls\<close>

text \<open>What the enclave returned goes to the callback, where one is registered; an output that does not parse is dropped.\<close>

definition apply_output ::
  "HostCallLib \<Rightarrow> 'f ExportLib \<Rightarrow> bytes \<Rightarrow> bool \<Rightarrow> bytes option \<Rightarrow> 'f \<Rightarrow> 'f exec" where
  "apply_output lib xlib base ocall output f =
     (case output of
        None \<Rightarrow> Done f
      | Some output_hex \<Rightarrow>
          (case hk_hexdec lib output_hex of
             Err e \<Rightarrow> Done f
           | Ok output_bytes \<Rightarrow>
               (case hk_updates lib output_bytes of
                  None \<Rightarrow> Done f
                | Some updates \<Rightarrow> (if ocall then deliver_updates xlib base updates f else Done f))))"

definition finish_energy ::
  "HostCallLib \<Rightarrow> 'f ExportLib \<Rightarrow> bytes \<Rightarrow> (int, EnclaveResponse) result \<Rightarrow> 'w HostRunner \<Rightarrow> 'f \<Rightarrow>
   ((int, unit) result \<times> 'w HostRunner \<times> 'f) exec" where
  "finish_energy lib xlib base r s f =
     (case r of
        Err e \<Rightarrow> Done (Err e, s, f)
      | Ok response \<Rightarrow>
          (if er_status response = 0 then
             and_then (apply_output lib xlib base (hn_ocall s) (er_output_data response) f) (\<lambda>f. Done (Ok (), s, f))
           else Done (Err (er_status response), s, f)))"

definition compute_vm_energy_in_sgx ::
  "'w RunnerEnv \<Rightarrow> HostCallLib \<Rightarrow> 'f ExportLib \<Rightarrow> bytes \<Rightarrow> bytes \<Rightarrow> bytes \<Rightarrow> bytes \<Rightarrow> 'w HostRunner \<Rightarrow> 'f \<Rightarrow>
   ((int, unit) result \<times> 'w HostRunner \<times> 'f) exec" where
  "compute_vm_energy_in_sgx env lib xlib base topo_json proc_json hash_json s f =
     (if \<not> hk_device lib then Done (Err (-200), s, f)
      else
        (let (r, s) = host_send env lib (ComputeRequest (hk_hexenc lib topo_json) (hk_hexenc lib proc_json)
               (hk_hexenc lib hash_json) (hk_tag_key lib) (hk_tag_epoch lib) (hk_tag_producer lib)) s
         in finish_energy lib xlib base r s f))"

definition compute_vm_energy_cgroup_in_sgx ::
  "'w RunnerEnv \<Rightarrow> HostCallLib \<Rightarrow> 'f ExportLib \<Rightarrow> bytes \<Rightarrow> bytes \<Rightarrow> bytes \<Rightarrow> bytes \<Rightarrow> 'w HostRunner \<Rightarrow> 'f \<Rightarrow>
   ((int, unit) result \<times> 'w HostRunner \<times> 'f) exec" where
  "compute_vm_energy_cgroup_in_sgx env lib xlib base topo_slice cgroup_slice hash_slice s f =
     (let (r, s) = host_send env lib (CgroupComputeRequest (hk_hexenc lib topo_slice) (hk_hexenc lib cgroup_slice)
            (hk_hexenc lib hash_slice) (hk_tag_key lib) (hk_tag_epoch lib) (hk_tag_producer lib)) s
      in finish_energy lib xlib base r s f)"

definition should_use_sgx_enclave :: "'w RunnerEnv \<Rightarrow> HostCallLib \<Rightarrow> bool" where
  "should_use_sgx_enclave env lib \<longleftrightarrow> hk_device lib \<and> get_enclave_path env \<noteq> None"

text \<open>The status, the length written to the caller, the statics and the files.\<close>

definition runner_compute_vm_energy_simple ::
  "'w RunnerEnv \<Rightarrow> HostCallLib \<Rightarrow> 'f ExportLib \<Rightarrow> bytes \<Rightarrow> bytes option \<Rightarrow> bytes option \<Rightarrow> bytes \<Rightarrow> bool \<Rightarrow> bool \<Rightarrow>
   'w HostRunner \<Rightarrow> 'f \<Rightarrow> (int \<times> nat option \<times> 'w HostRunner \<times> 'f) exec" where
  "runner_compute_vm_energy_simple env lib xlib base topo_ptr proc_ptr hash_slice out_ptr out_len_ptr s f =
     (case (topo_ptr, proc_ptr) of
        (Some topo, Some proc) \<Rightarrow>
          (if \<not> out_ptr \<or> \<not> out_len_ptr then Done (1, None, s, f)
           else if \<not> should_use_sgx_enclave env lib then Done (-200, None, s, f)
           else
             and_then (compute_vm_energy_in_sgx env lib xlib base topo proc hash_slice s f) (\<lambda>(r, s, f).
               Done (case r of Ok _ \<Rightarrow> (0, Some 0, s, f) | Err code \<Rightarrow> (code, None, s, f))))
      | _ \<Rightarrow> Done (1, None, s, f))"

definition runner_compute_vm_energy_cgroup ::
  "'w RunnerEnv \<Rightarrow> HostCallLib \<Rightarrow> 'f ExportLib \<Rightarrow> bytes \<Rightarrow> bytes option \<Rightarrow> bytes option \<Rightarrow> bytes \<Rightarrow> bool \<Rightarrow> bool \<Rightarrow>
   'w HostRunner \<Rightarrow> 'f \<Rightarrow> (int \<times> nat option \<times> 'w HostRunner \<times> 'f) exec" where
  "runner_compute_vm_energy_cgroup env lib xlib base topo_ptr cgroup_ptr hash_slice out_ptr out_len_ptr s f =
     (case (topo_ptr, cgroup_ptr) of
        (Some topo, Some cgroup) \<Rightarrow>
          (if \<not> out_ptr \<or> \<not> out_len_ptr then Done (1, None, s, f)
           else if \<not> should_use_sgx_enclave env lib then Done (-200, None, s, f)
           else
             and_then (compute_vm_energy_cgroup_in_sgx env lib xlib base topo cgroup hash_slice s f) (\<lambda>(r, s, f).
               Done (case r of Ok _ \<Rightarrow> (0, Some 0, s, f) | Err code \<Rightarrow> (code, None, s, f))))
      | _ \<Rightarrow> Done (1, None, s, f))"

definition runner_register_ocall :: "'w HostRunner \<Rightarrow> int \<times> 'w HostRunner" where
  "runner_register_ocall s = (0, s\<lparr>hn_ocall := True\<rparr>)"

text \<open>The host's total is computed in the process itself, as the enclave would.\<close>

definition runner_total_host_energy ::
  "(bytes \<Rightarrow> RawEnergyValue list option) \<Rightarrow> bytes option \<Rightarrow> bytes option \<Rightarrow> nat option \<Rightarrow> bool \<Rightarrow>
   (int \<times> bytes option) exec" where
  "runner_total_host_energy parse pkg_ptr dram_ptr out_ptr out_len_ptr =
     (case (pkg_ptr, dram_ptr, out_ptr) of
        (Some pkg, Some dram, Some out_cap) \<Rightarrow>
          (if \<not> out_len_ptr then Done (1, None)
           else
             (case (parse pkg, parse dram) of
                (Some pkg_values, Some dram_values) \<Rightarrow>
                  and_then (compute_total_host_energy pkg_values dram_values) (\<lambda>result_str.
                    Done (if length result_str > out_cap then (3, None) else (0, Some result_str)))
              | _ \<Rightarrow> Done (2, None)))
      | _ \<Rightarrow> Done (1, None))"

section \<open>Without SGX\<close>

text \<open>
  The build without \<open>use_sgx\<close> attributes and signs in the process, with a master key of zeros; each update
  goes to the callback as soon as it is signed.
\<close>

definition STUB_MASTER_KEY :: "bytes \<Rightarrow> bytes" where
  "STUB_MASTER_KEY purpose = zero_hash"

fun stub_sign_and_write ::
  "(bytes \<Rightarrow> bytes \<Rightarrow> bytes) \<Rightarrow> 'f ExportLib \<Rightarrow> bytes \<Rightarrow> bool \<Rightarrow> VmEnergyUpdate list \<Rightarrow> host_chains \<Rightarrow> 'f \<Rightarrow>
   (host_chains \<times> 'f) exec" where
  "stub_sign_and_write hmac xlib base ocall [] cs f = Done (cs, f)"
| "stub_sign_and_write hmac xlib base ocall (u # us) cs f =
     and_then (sign_update hmac (xl_hexenc xlib) STUB_MASTER_KEY u cs) (\<lambda>(r, cs).
     and_then (if ocall
               then ocall_write_vm_energy_impl xlib base (sr_vm_name r) (sr_uj_to_add r) (sr_counter r)
                      (sr_previous_hash r) (sr_signature r) f
               else Done (0, f)) (\<lambda>(status, f).
       stub_sign_and_write hmac xlib base ocall us cs f))"

definition stub_compute_vm_energy_simple ::
  "HostLib \<Rightarrow> 'f ExportLib \<Rightarrow> bytes \<Rightarrow> bool \<Rightarrow> bytes option \<Rightarrow> bytes option \<Rightarrow> bool \<Rightarrow> bool \<Rightarrow> host_chains \<Rightarrow> 'f \<Rightarrow>
   (int \<times> nat option \<times> host_chains \<times> 'f) exec" where
  "stub_compute_vm_energy_simple lib xlib base ocall topo_ptr proc_ptr out_ptr out_len_ptr cs f =
     (case (topo_ptr, proc_ptr) of
        (Some topo, Some proc) \<Rightarrow>
          (if \<not> out_ptr \<or> \<not> out_len_ptr then Done (1, None, cs, f)
           else
             (case hl_string lib topo of
                None \<Rightarrow> Done (2, None, cs, f)
              | Some topo_energy_value \<Rightarrow>
                  (case hl_processes lib proc of
                     None \<Rightarrow> Done (3, None, cs, f)
                   | Some processes \<Rightarrow>
                       and_then (stub_sign_and_write (hl_hmac lib) xlib base ocall
                                   (iterate_compact topo_energy_value processes) cs f)
                         (\<lambda>(cs, f). Done (0, Some 0, cs, f)))))
      | _ \<Rightarrow> Done (1, None, cs, f))"

definition stub_compute_vm_energy_cgroup ::
  "HostLib \<Rightarrow> 'f ExportLib \<Rightarrow> bytes \<Rightarrow> bool \<Rightarrow> bytes option \<Rightarrow> bytes option \<Rightarrow> bool \<Rightarrow> bool \<Rightarrow> cpu_samples option \<Rightarrow>
   host_chains \<Rightarrow> 'f \<Rightarrow> (int \<times> nat option \<times> cpu_samples option \<times> host_chains \<times> 'f) exec" where
  "stub_compute_vm_energy_cgroup lib xlib base ocall topo_ptr cgroup_ptr out_ptr out_len_ptr prev cs f =
     (case (topo_ptr, cgroup_ptr) of
        (Some topo, Some cgroup) \<Rightarrow>
          (if \<not> out_ptr \<or> \<not> out_len_ptr then Done (1, None, prev, cs, f)
           else
             (case hl_string lib topo of
                None \<Rightarrow> Done (2, None, prev, cs, f)
              | Some topo_energy_value \<Rightarrow>
                  (case hl_cgroups lib cgroup of
                     None \<Rightarrow> Done (3, None, prev, cs, f)
                   | Some vm_samples \<Rightarrow>
                       (let (updates, prev) = iterate_cgroup topo_energy_value vm_samples prev
                        in and_then (stub_sign_and_write (hl_hmac lib) xlib base ocall updates cs f)
                             (\<lambda>(cs, f). Done (0, Some 0, prev, cs, f))))))
      | _ \<Rightarrow> Done (1, None, prev, cs, f))"

section \<open>The client against the server\<close>

text \<open>The host's server as a framed server.\<close>

definition host_turn :: "ServerLib \<Rightarrow> bytes \<Rightarrow> HostState \<Rightarrow> (bytes \<times> bytes \<times> bool \<times> HostState) option" where
  "host_turn lib input s =
     (case handle_single_tls_request lib input s of
        Done t \<Rightarrow> Some (tu_rest t, tu_sent t, tu_verdict t = Continue, tu_state t)
      | Panic \<Rightarrow> None)"

definition host_reply :: "ServerLib \<Rightarrow> bytes \<Rightarrow> HostState \<Rightarrow> (EnclaveResponse \<times> bool \<times> HostState) option" where
  "host_reply lib request s = (case answer_line lib request s of Done a \<Rightarrow> Some a | Panic \<Rightarrow> None)"

lemma host_turn_frame:
  assumes "frameable json"
  shows "host_turn lib (frame json) s =
    map_option (\<lambda>(r, go_on, s'). ([], be32_bytes (length (sv_response_json lib r)) @ sv_response_json lib r, go_on, s'))
      (host_reply lib json s)"
proof -
  have "host_turn lib (frame json @ []) s =
    map_option (\<lambda>(r, go_on, s'). ([], be32_bytes (length (sv_response_json lib r)) @ sv_response_json lib r, go_on, s'))
      (host_reply lib json s)"
    unfolding host_turn_def host_reply_def serve_one [OF assms]
    by (auto simp: send_tls_response_def Let_def split: exec.splits)
  then show ?thesis by simp
qed

interpretation host_link: framed_server "host_turn lib" "host_reply lib" "sv_response_json lib" frameable
  for lib :: ServerLib
  by unfold_locales (rule host_turn_frame)

text \<open>serde: what the client parses of a response's text, or of a part of it, has the status of the response.\<close>

definition statuses_kept :: "ServerLib \<Rightarrow> (bytes \<Rightarrow> EnclaveResponse option) \<Rightarrow> bool" where
  "statuses_kept lib parse \<longleftrightarrow>
     (\<forall>r n r'. parse (take n (sv_response_json lib r)) = Some r' \<longrightarrow> er_status r' = er_status r)"

lemma exchange_with_host:
  assumes "frameable json" "statuses_kept lib parse"
    and "send_tls_request (link_ops (host_turn lib)) parse json (idle_link True g) = (Ok r', w)"
  shows "\<exists>r go_on g'. host_reply lib json g = Some (r, go_on, g') \<and> er_status r' = er_status r"
proof (cases "host_reply lib json g")
  case None
  then show ?thesis using assms(3) by (simp add: host_link.lost [OF assms(1) None])
next
  case (Some a)
  obtain r go_on g' where a: "a = (r, go_on, g')" by (cases a)
  have l: "length (be32_bytes m) = 4" for m by (simp add: be32_bytes_def)
  let ?b = "sv_response_json lib r"
  have serve: "link_serve (host_turn lib) (idle_link True g\<lparr>lk_sent := frame json\<rparr>) =
      idle_link go_on g'\<lparr>lk_answered := be32_bytes (length ?b) @ ?b\<rparr>"
    by (simp add: link_serve_def host_turn_frame [OF assms(1)] Some a idle_link_def)
  have "\<exists>n. parse (take n ?b) = Some r'"
    using assms(3) unfolding send_tls_request_def link_simps
    by (auto simp: sent_frame serve l split: if_splits option.splits simp del: be32_bytes_four)
  then show ?thesis using assms(2) Some a by (auto simp: statuses_kept_def)
qed

text \<open>C14: The verdict a host gets is its enclave's. When the boot verification answers \<open>Ok\<close>, the enclave's handler
  answered 0 to the very request that was sent, in the state the enclave was in, so the checks of the
  enclave have been passed by the evidence in it; and from then on every verification in this process
  answers \<open>Ok\<close>, whatever the evidence, without a word to the enclave.\<close>
theorem host_verdict_is_the_enclaves:
  assumes "hn_verdict s = None"
    and "host_verify_request env lib pcr_values ima_log hostname deployment_type address s h = (request, s1, h1)"
    and "get_enclave_connection env (hn_runner s1) = (Ok conn, n1)" "vc_stream conn = idle_link True g"
    and "re_ops env = link_ops (host_turn sv)" "statuses_kept sv (hk_parse lib)"
    and "frameable (hk_json lib request)" "sv_operation sv (hk_json lib request) = Ok (str ''verify'')"
    and "verify_in_sgx_enclave env lib pcr_values ima_log hostname deployment_type address s h = (Ok (), s', h')"
  shows "(\<exists>r g'. handle_verify (sv_verify sv) (hk_json lib request) g = Done (r, g') \<and> er_status r = 0) \<and>
    (\<forall>pcrs l name t a h. verify_in_sgx_enclave env lib pcrs l name t a s' h = (Ok (), s', h))"
proof -
  have device: "hk_device lib" using assms(1,9) by (cases "hk_device lib") (auto simp: verify_in_sgx_enclave_def)
  obtain r' w where x: "send_tls_request (link_ops (host_turn sv)) (hk_parse lib) (hk_json lib request) (idle_link True g) = (r', w)"
    by fastforce
  then have sent: "host_send env lib request s1 =
      (r', s1\<lparr>hn_runner := n1\<lparr>rn_connection := Some (conn\<lparr>vc_stream := w\<rparr>)\<rparr>\<rparr>)"
    by (simp add: host_send_def send_request_to_enclave_def assms(3-5))
  obtain response where ok: "r' = Ok response" "er_status response = 0"
    and s': "s' = s1\<lparr>hn_runner := n1\<lparr>rn_connection := Some (conn\<lparr>vc_stream := w\<rparr>)\<rparr>, hn_verdict := Some (Ok ())\<rparr>"
    using assms(9) by (auto simp: verify_in_sgx_enclave_def assms(1,2) device sent Let_def split: result.splits if_splits)
  obtain r go_on g' where a: "host_reply sv (hk_json lib request) g = Some (r, go_on, g')" "er_status r = 0"
    using exchange_with_host [OF assms(7,6)] x ok by metis
  have "str ''verify'' \<noteq> str ''shutdown''" by code_simp
  then have "\<exists>g'. handle_verify (sv_verify sv) (hk_json lib request) g = Done (r, g')"
    using a assms(8)
    by (auto simp: host_reply_def answer_line_def dispatch_def respond_def and_then_eq_Done split: if_splits exec.splits)
  then show ?thesis using a(2) s' by (auto simp: verify_in_sgx_enclave_def)
qed

section \<open>A host starts only admitted\<close>

lemma spawn_errors: "spawn_vm_enclave_with_tcp env n p = Err e \<Longrightarrow> e \<noteq> 0"
  by (auto simp: spawn_vm_enclave_with_tcp_def enclave_port_def split: if_splits result.splits option.splits)

lemma connection_errors: "get_enclave_connection env s = (Err e, s') \<Longrightarrow> e \<noteq> 0"
  by (auto simp: get_enclave_connection_def create_tls_config_def Let_def dest: spawn_errors
      split: option.splits result.splits if_splits)

lemma exchange_errors: "send_tls_request ops parse json w = (Err e, w') \<Longrightarrow> e \<noteq> 0"
  by (auto simp: send_tls_request_def split: prod.splits option.splits bool.splits if_splits)

lemma host_send_errors: "host_send env lib request s = (Err e, s') \<Longrightarrow> e \<noteq> 0"
  by (auto simp: host_send_def send_request_to_enclave_def Let_def dest: connection_errors exchange_errors
      split: prod.splits result.splits)

lemma verify_Ok:
  assumes "verify_in_sgx_enclave env lib p l n t a s h = (r, s', h')" "hn_verdict s \<noteq> Some (Err 0)"
  shows "(r = Ok () \<longrightarrow> hn_verdict s' = Some (Ok ())) \<and> r \<noteq> Err 0"
  using assms
  by (auto simp: verify_in_sgx_enclave_def Let_def dest: host_send_errors
      split: option.splits if_splits prod.splits result.splits)

lemma verify_hash_zero:
  assumes "runner_verify_binary_hash env lib p l n t a s h = (0, s', h')" "hn_verdict s \<noteq> Some (Err 0)"
  shows "hn_verdict s' = Some (Ok ())"
  using assms
  by (auto simp: runner_verify_binary_hash_def Let_def dest: verify_Ok
      split: option.splits if_splits prod.splits result.splits)

lemma status_Ok: "boot_status_text status = Ok () \<longleftrightarrow> status = 0"
  by (simp add: boot_status_text_def)

lemma boot_attestation_Ok:
  assumes "verify_boot_attestation_in_sgx env lib quote s h = (Ok (), s', h')" "hn_verdict s \<noteq> Some (Err 0)"
  shows "hn_verdict s' = Some (Ok ())"
  using assms
  by (auto simp: verify_boot_attestation_in_sgx_def Let_def status_Ok dest: verify_hash_zero
      split: prod.splits result.splits node_error.splits)

lemma unsealed_32: "load_and_unseal node v tag h = (Ok key, h') \<Longrightarrow> length key = 32"
  by (auto simp: load_and_unseal_def nthen_eq_Ok nfail_def nreturn_def split: if_splits)

lemma created_drawn: "create_and_seal_key_via_tpm2tools node h = (Ok key, h') \<Longrightarrow> key = nd_random node h"
  by (auto simp: create_and_seal_key_via_tpm2tools_def Let_def nthen_eq_Ok nreturn_def)


section \<open>Instances\<close>

text \<open>A node whose files all hold one register and a TPM whose tools succeed.\<close>

definition demo_file :: bytes where
  "demo_file = hex_lower spec_zero32 @ replicate 32 10"

definition demo_host :: Node where
  "demo_host =
     \<lparr>nd_ima_path = Some (str ''/x''), nd_platform_pcrs = None, nd_tpm_path = None, nd_canonicalize = Some,
      nd_exists = (\<lambda>h p. True), nd_file = (\<lambda>h p. Ok demo_file),
      nd_write = (\<lambda>h p c. Ok ()), nd_remove = (\<lambda>h p. Ok ()), nd_mkdir = (\<lambda>h p. Ok ()),
      nd_random = (\<lambda>h. spec_zero32), nd_run = (\<lambda>h args. Ok (True, spec_zero32, [])),
      nd_hexdec = (\<lambda>t. case hex_pairs t of Some b \<Rightarrow> Ok b | None \<Rightarrow> Err []), nd_sha = demo_sha, nd_pid = 1\<rparr>"

definition demo_admitted :: EnclaveResponse where
  "demo_admitted = respond 0 []"

definition demo_call :: HostCallLib where
  "demo_call =
     \<lparr>hk_json = (\<lambda>_. str ''v''), hk_parse = (\<lambda>t. if t = str ''0'' then Some demo_admitted else None),
      hk_hexenc = hex_lower, hk_hexdec = (\<lambda>t. Err []), hk_updates = (\<lambda>t. None), hk_device = True, hk_exe = None,
      hk_skip_ima = None, hk_deployment = None, hk_immudb_addr = None, hk_ca_cert = None, hk_hostname = str ''n'',
      hk_tag_key = None, hk_tag_epoch = 0, hk_tag_producer = 1, hk_node = demo_host\<rparr>"

definition demo_host_server :: ServerLib where
  "demo_host_server = demo_server\<lparr>sv_verify := node_lib, sv_operation := (\<lambda>_. Ok (str ''verify'')),
     sv_response_json := (\<lambda>r. if er_status r = 0 then str ''0'' else str ''1'')\<rparr>"

definition demo_host_env :: "HostState Link RunnerEnv" where
  "demo_host_env =
     \<lparr>re_ops = link_ops (host_turn demo_host_server), re_remote_host = None, re_enclave_path = None, re_home = [],
      re_exists = (\<lambda>p. True), re_runnable = (\<lambda>p. True), re_spawn = (\<lambda>n r p. True),
      re_first_line = (\<lambda>n. Some (str ''PORT:9'')), re_connect = (\<lambda>n a. Some (idle_link True demo_state)),
      re_ca_certs = [str ''ca''], re_add_root = (\<lambda>c. True), re_server_name = True, re_tls = (\<lambda>n w. Some w)\<rparr>"

definition demo_host_runner :: "HostState Link HostRunner" where
  "demo_host_runner = \<lparr>hn_runner = \<lparr>rn_connection = Some \<lparr>vc_stream = idle_link True demo_state, vc_child = True,
     vc_is_remote = False\<rparr>, rn_attempts = 1\<rparr>, hn_verdict = None, hn_ocall = True\<rparr>"

lemma demo_host_simps:
  "hk_device demo_call" "snapshot_mode demo_host" "hk_node demo_call = demo_host" "re_ops demo_host_env = link_ops (host_turn demo_host_server)"
  "hk_json demo_call q = str ''v''" "sv_operation demo_host_server j = Ok (str ''verify'')" "frameable (str ''v'')"
  "hn_verdict demo_host_runner = None" "sv_verify demo_host_server = node_lib"
  by (simp_all add: demo_call_def snapshot_mode_def demo_host_def SECURITYFS_def str_Cons starts_with_def
      demo_host_env_def demo_host_server_def frameable_def MAX_REQUEST_BYTES_def demo_host_runner_def)

lemma demo_statuses: "statuses_kept demo_host_server (hk_parse demo_call)"
proof -
  have "take n (str ''1'') \<noteq> str ''0''" "er_status demo_admitted = 0" for n
    by (cases n; simp add: str_Cons) (simp add: demo_admitted_def respond_def)
  then show ?thesis by (auto simp: statuses_kept_def demo_host_server_def demo_call_def split: if_splits)
qed

lemma demo_connection:
  "get_enclave_connection demo_host_env (hn_runner demo_host_runner) =
     (Ok \<lparr>vc_stream = idle_link True demo_state, vc_child = True, vc_is_remote = False\<rparr>, hn_runner demo_host_runner)"
  by (simp add: get_enclave_connection_def demo_host_runner_def)

lemma demo_verify:
  "\<exists>request h1 s' h'. host_verify_request demo_host_env demo_call p l n t a demo_host_runner h = (request, demo_host_runner, h1) \<and>
     verify_in_sgx_enclave demo_host_env demo_call p l n t a demo_host_runner h = (Ok (), s', h')"
proof -
  have x: "runner_extract_scaphandre_hash demo_call l h = (str ''current_exe_error'', h)"
    by (simp add: runner_extract_scaphandre_hash_def demo_call_def)
  obtain request h1 where q: "host_verify_request demo_host_env demo_call p l n t a demo_host_runner h = (request, demo_host_runner, h1)"
    by (auto simp: host_verify_request_def host_quote_def host_log_def x demo_host_simps Let_def split: prod.splits)
  have "handle_verify node_lib (str ''v'') demo_state = handle_verify node_lib [] demo_state"
    by (simp add: handle_verify_def node_lib_def)
  then obtain r g' where "handle_verify node_lib (str ''v'') demo_state = Done (r, g')" and z: "er_status r = 0"
    using node_passes by metis
  moreover have "utf8_valid (str ''v'')" "str ''verify'' \<noteq> str ''shutdown''" by code_simp+
  ultimately have a: "host_reply demo_host_server (str ''v'') demo_state = Some (r, True, g')"
    by (simp add: host_reply_def answer_line_def dispatch_def demo_host_simps)
  have "utf8_valid (str ''0'')" "length (str ''0'') = 1" by code_simp+
  then have p: "printed (sv_response_json demo_host_server) (\<lambda>_. demo_admitted) (hk_parse demo_call) r"
    by (simp add: printed_def demo_host_server_def demo_call_def z)
  have v: "frameable (str ''v'')" by (rule demo_host_simps)
  have s0: "er_status demo_admitted = 0" by (simp add: demo_admitted_def respond_def)
  show ?thesis
    using q by (simp add: verify_in_sgx_enclave_def demo_host_simps host_send_def send_request_to_enclave_def demo_connection
        host_link.answered [OF v p a] s0 Let_def)
qed

lemma host_verdict_is_the_enclaves_witness:
  "\<exists>r g'. handle_verify node_lib (str ''v'') demo_state = Done (r, g') \<and> er_status r = 0"
proof -
  obtain request h1 s' h' where
    q: "host_verify_request demo_host_env demo_call [] [] [] [] [] demo_host_runner [] = (request, demo_host_runner, h1)"
    and v: "verify_in_sgx_enclave demo_host_env demo_call [] [] [] [] [] demo_host_runner [] = (Ok (), s', h')"
    using demo_verify by blast
  have "frameable (hk_json demo_call request)" by (simp add: demo_host_simps)
  from host_verdict_is_the_enclaves [OF _ q demo_connection _ _ demo_statuses this _ v] show ?thesis
    by (simp add: demo_host_simps)
qed

lemma demo_file_facts:
  "utf8_valid demo_file" "length demo_file = 96"
  "nd_hexdec demo_host (strip_0x demo_file) = Ok spec_zero32"
proof -
  show "utf8_valid demo_file" "length demo_file = 96" by code_simp+
  have "hex_pairs (strip_0x demo_file) = Some spec_zero32" by code_simp
  then show "nd_hexdec demo_host (strip_0x demo_file) = Ok spec_zero32" by (simp add: demo_host_def)
qed

lemma demo_host_node:
  "nd_exists demo_host h p" "nd_run demo_host h args = Ok (True, spec_zero32, [])" "nd_file demo_host h p = Ok demo_file"
  "nd_write demo_host h p c = Ok ()" "nd_remove demo_host h p = Ok ()" "nd_mkdir demo_host h p = Ok ()"
  "nd_random demo_host h = spec_zero32" "nd_ima_path demo_host = Some (str ''/x'')" "length spec_zero32 = 32"
  by (simp_all add: demo_host_def spec_zero32_def)

lemma demo_host_reads: "read_to_string demo_host p h = (Ok demo_file, h @ [ReadFile p])"
  by (simp add: read_to_string_def demo_host_node demo_file_facts)

lemma demo_quote: "\<exists>quote h'. generate_tpm_quote demo_host h = Done (Ok quote, h') \<and> utf8_valid (aq_ima_log quote)"
proof -
  have "\<not> is_live_securityfs demo_host (trim_slashes (str ''/x''))"
    by (simp add: is_live_securityfs_def demo_host_def SECURITYFS_def trim_slashes_def str_Cons starts_with_def)
  then show ?thesis
    by (simp add: generate_tpm_quote_def read_pcr_file_def read_bytes_def os_result_def nreturn_def snapshot_pcr10_def
        demo_host_reads demo_host_node demo_file_facts read_ima_log_def splice_pcr10_def Let_def split: prod.splits)
qed

lemma demo_boot:
  assumes "utf8_valid (aq_ima_log quote)"
  shows "\<exists>s' h'. verify_boot_attestation_in_sgx demo_host_env demo_call quote demo_host_runner h = (Ok (), s', h')"
proof -
  obtain t h1 where d: "detect_deployment demo_call h = (t, h1)" by fastforce
  obtain path h2 where c: "ca_pem_path demo_call h1 = (path, h2)" by fastforce
  have "\<exists>s' h'. runner_verify_binary_hash demo_host_env demo_call (Some p) (Some (aq_ima_log quote)) n t a
      demo_host_runner h = (0, s', h')" for p n t a h
  proof -
    obtain n' t' a' where "runner_verify_binary_hash demo_host_env demo_call (Some p) (Some (aq_ima_log quote)) n t a
        demo_host_runner h =
      (case verify_in_sgx_enclave demo_host_env demo_call p (aq_ima_log quote) n' t' a' demo_host_runner h of
         (Ok _, s, h) \<Rightarrow> (0, s, h) | (Err code, s, h) \<Rightarrow> (code, s, h))"
      by (simp add: runner_verify_binary_hash_def Let_def assms)
    moreover obtain s' h' where
      "verify_in_sgx_enclave demo_host_env demo_call p (aq_ima_log quote) n' t' a' demo_host_runner h = (Ok (), s', h')"
      using demo_verify by blast
    ultimately show ?thesis by simp
  qed
  from this [of "aq_pcr_values quote" "Some (hk_hostname demo_call)" "Some t"
      "Some (case hk_immudb_addr demo_call of Some a \<Rightarrow> a | None \<Rightarrow> str ''192.168.122.1:8443'')" "h2 @ [ReadFile path]"]
  obtain s' h' where "runner_verify_binary_hash demo_host_env demo_call (Some (aq_pcr_values quote))
      (Some (aq_ima_log quote)) (Some (hk_hostname demo_call)) (Some t)
      (Some (case hk_immudb_addr demo_call of Some a \<Rightarrow> a | None \<Rightarrow> str ''192.168.122.1:8443''))
      demo_host_runner (h2 @ [ReadFile path]) = (0, s', h')" by blast
  then show ?thesis
    by (simp add: verify_boot_attestation_in_sgx_def d c demo_host_simps demo_host_reads status_Ok)
qed


end
