(* ===== verification/Spec2Isabelle.thy ===== *)
theory Spec2Isabelle
  imports Admission Attribution Blockchain Calendar Checkpoint Containers Encoding EnergyChain GuestBoot
    GuestInvariants HexTools HostClient Ima ImaSelect Merkle Quote SipTag
begin

text \<open>
  VPMA measures the energy a machine consumes, attributes it to virtual machines and workloads
  inside SGX enclaves, and chains every value it reports so that a later reader can check it.
  This development models the enclaves' code, in Rust under \<open>src/\<close>, at the level of bytes and
  machine integers, and proves what the code promises.

  The parts of the program and the theories that model them.

  \<^item> The verified core (\<open>verified/src/lib.rs\<close>), which both enclaves call: the canonical encodings
    (\<open>Encoding\<close>), the hexadecimal, decimal and comparison loops (\<open>HexTools\<close>), the admission
    decisions for boots, chain steps, tags, anchors and resumption (\<open>Admission\<close>), the keyed
    measurement tag (\<open>SipTag\<close>) and the apportioning of energy (\<open>Attribution\<close>). Each loop is
    translated with its index and proved equal to a closed form (collections \<open>loops\<close> and
    \<open>refines\<close>), and each decision to its specification.
  \<^item> The guest enclave (\<open>sgx_vm/src\<close>): Merkle trees and inclusion proofs (\<open>Merkle\<close>), timestamps
    (\<open>Calendar\<close>), the chained blocks and their producer (\<open>Blockchain\<close>), sealed checkpoints, signed
    anchor lines and key derivation (\<open>Checkpoint\<close>), the verifier and signer of energy chains
    (\<open>EnergyChain\<close>), the reconciliation of the measurement log with PCR 10 (\<open>Ima\<close>, \<open>ImaSelect\<close>),
    TPM quotes (\<open>Quote\<close>) and the boot verification with its database query (\<open>GuestBoot\<close>); the Redis
    client, byte by byte (\<open>RedisWire\<close>) and command by command (\<open>RedisStore\<close>), the export of process
    energy (\<open>GuestExport\<close>) and of GPU energy (\<open>GuestGpu\<close>), printing floating-point numbers
    (\<open>Floats\<close>), the other handlers and the server (\<open>GuestServer\<close>), and how each request may move
    the enclave's statics (\<open>GuestInvariants\<close>).
  \<^item> The host enclave (\<open>sgx/src\<close>, and \<open>src/exporters/qemu.rs\<close>, which it includes): the log and quote
    checks (\<open>Ima\<close>, \<open>ImaSelect\<close>, \<open>Quote\<close>), the signer of energy chains (\<open>EnergyChain\<close>), the
    attribution to virtual machines (\<open>Numbers\<close>, \<open>Qemu\<close>), the energy calls with the check of the
    measurement tags (\<open>HostEnergy\<close>), the boot verification with its nonce (\<open>HostVerify\<close>), and the
    server: handlers, dispatch, framing and the loop over a connection (\<open>HostServer\<close>).
  \<^item> The processes outside the enclaves (\<open>src/src\<close>): the evidence a node collects with its TPM and the
    key it seals (\<open>NodeAttest\<close>: \<open>exporters/utils.rs\<close>, \<open>tpm_attestation.rs\<close>), the files through which
    signed energy reaches a guest (\<open>EnergyFiles\<close>: \<open>exporters/export_vm.rs\<close>, \<open>exporters/db.rs\<close>), one
    framed exchange and sessions of them (\<open>Exchange\<close>), the client of the guest enclave
    (\<open>EnclaveClient\<close>: \<open>sgx_vm_runner.rs\<close>) and of the host enclave with the start of a host
    (\<open>HostClient\<close>: \<open>sgx_runner.rs\<close>, \<open>main.rs\<close>).

  How they interact. A client sends requests over one connection to a server: both servers are
  interpretations of the locale \<open>framed_server\<close> of \<open>Exchange\<close> (\<open>guest_link\<close>, \<open>host_link\<close>), whose
  lemmas carry a client's call to the handler's answer. A verification asks for a nonce, a quote over
  it and the log, and compares what they attest with the registered state; a host runs only when this
  succeeded (\<open>HostClient\<close>). An energy request installs a tag key, checks the tags, attributes the
  energy and signs one step of each machine's chain (\<open>HostEnergy\<close> calling \<open>Qemu\<close> and \<open>EnergyChain\<close>);
  the runner writes it to the machine's files (\<open>EnergyFiles\<close>). A guest verifies its own machine's
  readings with the same chain key (\<open>EnergyChain\<close>), splits them over processes (\<open>Attribution\<close>),
  collects the records in blocks (\<open>Blockchain\<close> over \<open>Merkle\<close> over \<open>Encoding\<close>), stores them in Redis
  (\<open>GuestExport\<close>, \<open>GuestGpu\<close> over \<open>RedisStore\<close> over \<open>RedisWire\<close>) and anchors the newest block
  (\<open>Checkpoint\<close>). \<open>HostEnergy\<close> composes a cycle of the host with a guest that verifies it, and
  \<open>EnergyFiles\<close> does the same through the files.

  State. The statics of an enclave are passed explicitly: the guest's chain table is a map
  (\<open>chain_states\<close>), the producer's state the record \<open>Blockchain\<close>, the enclaves' statics the records
  \<open>HostState\<close> and \<open>GuestState\<close>, a process's the records \<open>RunnerState\<close> and \<open>HostRunner\<close>. A node's
  environment answers according to the history of everything done before (\<open>Node\<close>). Panics, which
  abort an enclave, are \<open>Panic\<close> of the type \<open>exec\<close>; error returns are \<open>Err\<close> of the type \<open>result\<close> or
  the code's status numbers. The release profile checks overflow, so a plain addition that overflows
  panics.

  What the groups of lemmas show. \<open>Encoding\<close>: the encodings are injective and pairwise disjoint
  (locales \<open>prefix_code\<close>, \<open>fixed_code\<close>, \<open>code_pair\<close> of \<open>Prelude\<close>, interpreted for every field).
  \<open>Merkle\<close>, \<open>Blockchain\<close>: roots and chain tips commit to their records, given a hash without
  collisions on the inputs that occur. \<open>Attribution\<close>: shares add up exactly. \<open>Checkpoint\<close>: sealing and
  anchor lines round-trip and bind what they authenticate. \<open>EnergyChain\<close>: the guest accepts exactly
  the next reading of a chain and skips replays. \<open>Ima\<close>: both parsers and both reconciliations agree,
  attest the shortest prefix, and PCR 10 binds the attested entries. \<open>Quote\<close>: the accepted quotes are
  exactly those of a grammar. \<open>Containers\<close>: the ordered maps the selectors build (locale
  \<open>finite_map\<close>). \<open>Qemu\<close>: what a cycle charges. \<open>HostVerify\<close>, \<open>HostServer\<close>: what a status of 0 means,
  nonces are used once, chains never roll back (locale \<open>stepper\<close>), the server answers in order.
  \<open>RedisWire\<close>: responses are read back as sent, whatever the segments. \<open>RedisStore\<close>: the search
  finds the latest block. \<open>GuestExport\<close>, \<open>GuestGpu\<close>: only verified energy is recorded, rows add up to
  it, and a restarted enclave takes up the chain it stored. \<open>GuestInvariants\<close>: what holds of the
  statics in every run. \<open>NodeAttest\<close>: snapshots and quotes that are sent are consistent. \<open>EnclaveClient\<close>:
  a session gets the handlers' answers, and none after the first failure.

  Parameters. Code that is not part of the repository is an argument: SHA-256 and HMAC, the sealing
  keys of the processor, the random generator, RSA and ECDSA of mbedTLS, serde's parsers and
  printers, the hex crate, TLS connections (\<open>dial\<close>: what the n-th connection delivers), files and the
  clock. Theorems that need more of them (lengths, no collisions on the inputs that occur) say so as
  hypotheses, and their witnesses instantiate them.

  Bounds. Every loop of the modelled code is a terminating function, with its measure where the
  recursion is not structural, except \<open>read_line\<close> of the Redis client, which can run for ever: it and
  the reader of nested values that calls it are partial functions into \<open>option\<close>, and \<open>RedisWire\<close>
  proves exactly when a line returns. The numbers of attempts
  (\<open>SNAPSHOT_ATTEMPTS\<close>, \<open>QUOTE_ATTEMPTS\<close>, \<open>UNSEAL_ATTEMPTS\<close>) are the code's. Sizes that fit the memory
  are assumed to be allocated, except where the Redis client allocates what a response announces.
  Floating point is modelled as rationals rounded to 53 bits, to nearest and to even.

  Not modelled. The log output and its timings; the TLS handshakes and the sockets, which are
  parameters; the sensors (\<open>sensors/powercap_rapl.rs\<close>, \<open>msr_rapl.rs\<close>, \<open>mod.rs\<close>, \<open>utils.rs\<close>,
  \<open>gpu_nvml.rs\<close>, \<open>cgroup_vm.rs\<close> and others), which read \<open>/sys\<close>, \<open>/proc\<close>, MSRs, NVML and BPF maps
  through libraries, apart from their measurement tag; the exporters to Prometheus, Warp10, Riemann,
  JSON and standard output, which format those readings for libraries; the command line, apart from
  its gate on the attestation; the scripts and C programs; the Verus proofs inside
  \<open>verified/src/lib.rs\<close>, whose statements the specifications here follow, and the wrapper
  \<open>verified-ffi\<close>.
\<close>

end
